(* ===== verification/Prelude.thy ===== *)
theory Prelude
  imports Main "HOL-Library.Word" "HOL-Library.Finite_Map" "HOL-Library.List_Lexorder"
    "HOL-Library.Code_Target_Numeral"
begin

text \<open>
  Shared vocabulary of the development: the machine types of the Rust sources, results and
  their combinators (the \<open>ensure!\<close> macro, \<open>expect\<close>, the \<open>?\<close> operator), the checked and
  profile dependent integer operations, little-endian byte encodings and cursors, and the
  generic facts on lists and finite maps the components use.

  Facts of general use are collected in \<open>res_simps\<close> (when a computation succeeds) and
  \<open>arith_simps\<close> (what a checked operation returns).
\<close>

named_theorems res_simps \<open>inversion of successful results\<close>
named_theorems arith_simps \<open>results of checked integer operations\<close>

section \<open>Machine types\<close>

type_synonym u8 = "8 word"
type_synonym u32 = "32 word"
type_synonym u64 = "64 word"
type_synonym u128 = "128 word"
type_synonym bytes = "u8 list"

definition u128_MAX :: u128 where
  "u128_MAX = - 1"

text \<open>A hash function is a parameter of every definition that hashes (SHA-256 is a crate).\<close>

type_synonym hash_fn = "bytes \<Rightarrow> bytes"

text \<open>Byte string literals \<open>b"..."\<close>.\<close>

definition ascii :: "string \<Rightarrow> bytes" where
  "ascii s = map of_char s"

lemma length_ascii [simp]: "length (ascii s) = length s"
  by (simp add: ascii_def)

section \<open>Results\<close>

text \<open>
  A fallible computation is \<open>Inl error\<close> or \<open>Inr value\<close>.  \<open>ensure\<close> is the macro of
  \<open>lee/state_machine/src/error.rs\<close> and, with a panic message as the error, \<open>assert!\<close>;
  \<open>expect\<close> is \<open>Option::expect\<close> / \<open>ok_or\<close>; \<open>rbind\<close> is the \<open>?\<close> operator.
\<close>

type_synonym ('e, 'a) result = "'e + 'a"

definition ensure :: "bool \<Rightarrow> 'e \<Rightarrow> ('e, 'a) result \<Rightarrow> ('e, 'a) result" where
  "ensure c e k = (if c then k else Inl e)"

definition expect :: "'a option \<Rightarrow> 'e \<Rightarrow> ('a \<Rightarrow> ('e, 'b) result) \<Rightarrow> ('e, 'b) result" where
  "expect m e k = (case m of None \<Rightarrow> Inl e | Some a \<Rightarrow> k a)"

definition rbind :: "('e, 'a) result \<Rightarrow> ('a \<Rightarrow> ('e, 'b) result) \<Rightarrow> ('e, 'b) result" where
  "rbind m k = (case m of Inl e \<Rightarrow> Inl e | Inr a \<Rightarrow> k a)"

definition map_err :: "('e \<Rightarrow> 'f) \<Rightarrow> ('e, 'a) result \<Rightarrow> ('f, 'a) result" where
  "map_err f m = (case m of Inl e \<Rightarrow> Inl (f e) | Inr a \<Rightarrow> Inr a)"

definition is_ok :: "('e, 'a) result \<Rightarrow> bool" where
  "is_ok m = (case m of Inl _ \<Rightarrow> False | Inr _ \<Rightarrow> True)"

lemma ensure_Inr [res_simps]: "ensure c e k = Inr x \<longleftrightarrow> c \<and> k = Inr x"
  by (simp add: ensure_def)

lemma expect_Inr [res_simps]: "expect m e k = Inr x \<longleftrightarrow> (\<exists>a. m = Some a \<and> k a = Inr x)"
  by (simp add: expect_def split: option.split)

lemma rbind_Inr [res_simps]: "rbind m k = Inr x \<longleftrightarrow> (\<exists>a. m = Inr a \<and> k a = Inr x)"
  by (simp add: rbind_def split: sum.split)

lemma map_err_Inr [res_simps]: "map_err f m = Inr x \<longleftrightarrow> m = Inr x"
  by (simp add: map_err_def split: sum.split)

lemma is_ok_iff: "is_ok m \<longleftrightarrow> (\<exists>x. m = Inr x)"
  by (simp add: is_ok_def split: sum.split)

lemma ensure_simps [simp]:
  "ensure True e k = k" "ensure False e k = Inl e"
  by (simp_all add: ensure_def)

lemma expect_simps [simp]:
  "expect (Some a) e k = k a" "expect None e k = Inl e"
  by (simp_all add: expect_def)

lemma rbind_simps [simp]:
  "rbind (Inr a) k = k a" "rbind (Inl e) k = Inl e"
  by (simp_all add: rbind_def)

lemma map_err_simps [simp]:
  "map_err f (Inr a) = Inr a" "map_err f (Inl e) = Inl (f e)"
  by (simp_all add: map_err_def)

lemma is_ok_simps [simp]: "is_ok (Inr a)" "\<not> is_ok (Inl e)"
  by (simp_all add: is_ok_def)

text \<open>
  A \<open>for\<close> loop whose body may return early: the first error ends it.
\<close>

fun for_each :: "('a \<Rightarrow> ('e, unit) result) \<Rightarrow> 'a list \<Rightarrow> ('e, unit) result" where
  "for_each f [] = Inr ()"
| "for_each f (x # xs) = rbind (f x) (\<lambda>_. for_each f xs)"

lemma for_each_Inr [res_simps]: "for_each f xs = Inr u \<longleftrightarrow> (\<forall>x \<in> set xs. f x = Inr ())"
  by (induction xs) (auto simp: res_simps)

fun fold_res :: "('a \<Rightarrow> 's \<Rightarrow> ('e, 's) result) \<Rightarrow> 'a list \<Rightarrow> 's \<Rightarrow> ('e, 's) result" where
  "fold_res f [] s = Inr s"
| "fold_res f (x # xs) s = rbind (f x s) (fold_res f xs)"

lemma fold_res_append:
  "fold_res f (xs @ ys) s = rbind (fold_res f xs s) (fold_res f ys)"
  by (induction xs arbitrary: s) (auto simp: rbind_def split: sum.split)

lemma fold_res_invariant:
  assumes "fold_res f xs s = Inr t" and "P s"
    and "\<And>x s t. x \<in> set xs \<Longrightarrow> P s \<Longrightarrow> f x s = Inr t \<Longrightarrow> P t"
  shows "P t"
  using assms
proof (induction xs arbitrary: s)
  case Nil
  then show ?case by simp
next
  case (Cons x xs)
  then obtain s' where s': "f x s = Inr s'" and rest: "fold_res f xs s' = Inr t"
    by (auto simp: res_simps)
  have "P s'" using Cons.prems(2,3) s' by auto
  with rest show ?case using Cons.IH Cons.prems(3) by auto
qed

section \<open>Integer operations\<close>

definition checked_add :: "'a::len word \<Rightarrow> 'a word \<Rightarrow> 'a word option" where
  "checked_add a b = (if unat a + unat b < 2 ^ LENGTH('a) then Some (a + b) else None)"

definition checked_sub :: "'a::len word \<Rightarrow> 'a word \<Rightarrow> 'a word option" where
  "checked_sub a b = (if unat b \<le> unat a then Some (a - b) else None)"

definition checked_mul :: "'a::len word \<Rightarrow> 'a word \<Rightarrow> 'a word option" where
  "checked_mul a b = (if unat a * unat b < 2 ^ LENGTH('a) then Some (a * b) else None)"

definition overflowing_add :: "'a::len word \<Rightarrow> 'a word \<Rightarrow> 'a word \<times> bool" where
  "overflowing_add a b = (a + b, 2 ^ LENGTH('a) \<le> unat a + unat b)"

text \<open>
  The plain operators \<open>+\<close>, \<open>-\<close>, \<open>*\<close> depend on the build profile: with overflow checks
  (the flag \<open>oc\<close>) they panic on overflow, without them (release, the profile of the guests)
  they wrap around.  Division panics on a zero divisor in every profile.
\<close>

definition op_add :: "bool \<Rightarrow> 'a::len word \<Rightarrow> 'a word \<Rightarrow> 'a word option" where
  "op_add oc a b = (if oc then checked_add a b else Some (a + b))"

definition op_sub :: "bool \<Rightarrow> 'a::len word \<Rightarrow> 'a word \<Rightarrow> 'a word option" where
  "op_sub oc a b = (if oc then checked_sub a b else Some (a - b))"

definition op_mul :: "bool \<Rightarrow> 'a::len word \<Rightarrow> 'a word \<Rightarrow> 'a word option" where
  "op_mul oc a b = (if oc then checked_mul a b else Some (a * b))"

definition op_div :: "'a::len word \<Rightarrow> 'a word \<Rightarrow> 'a word option" where
  "op_div a b = (if b = 0 then None else Some (a div b))"

definition op_div_ceil :: "'a::len word \<Rightarrow> 'a word \<Rightarrow> 'a word option" where
  "op_div_ceil a b =
     (if b = 0 then None else Some (if a mod b = 0 then a div b else a div b + 1))"

lemma unat_lt2p: "unat (w :: 'a::len word) < 2 ^ LENGTH('a)"
  by (rule unsigned_less)

lemma unat_add_no_wrap:
  fixes a b :: "'a::len word"
  assumes "unat a + unat b < 2 ^ LENGTH('a)"
  shows "unat (a + b) = unat a + unat b"
  using assms by (simp add: unat_word_ariths)

lemma unat_mult_no_wrap:
  fixes a b :: "'a::len word"
  assumes "unat a * unat b < 2 ^ LENGTH('a)"
  shows "unat (a * b) = unat a * unat b"
  using assms by (simp add: unat_word_ariths)

lemma unat_sub_no_wrap:
  fixes a b :: "'a::len word"
  assumes "unat b \<le> unat a"
  shows "unat (a - b) = unat a - unat b"
  using assms by (simp add: unat_sub word_le_nat_alt)

lemma checked_add_Some [arith_simps]:
  fixes a b c :: "'a::len word"
  shows "checked_add a b = Some c \<longleftrightarrow> unat c = unat a + unat b"
proof
  assume "checked_add a b = Some c"
  then show "unat c = unat a + unat b"
    by (auto simp: checked_add_def unat_add_no_wrap split: if_splits)
next
  assume u: "unat c = unat a + unat b"
  have "unat a + unat b < 2 ^ LENGTH('a)" using unat_lt2p [of c] u by simp
  moreover from this have "unat (a + b) = unat c" using u by (simp add: unat_add_no_wrap)
  then have "a + b = c" by (simp add: word_unat_eq_iff)
  ultimately show "checked_add a b = Some c" by (simp add: checked_add_def)
qed

lemma checked_sub_Some [arith_simps]:
  fixes a b c :: "'a::len word"
  shows "checked_sub a b = Some c \<longleftrightarrow> unat a = unat c + unat b"
proof
  assume "checked_sub a b = Some c"
  then show "unat a = unat c + unat b"
    by (auto simp: checked_sub_def unat_sub_no_wrap split: if_splits)
next
  assume u: "unat a = unat c + unat b"
  then have "unat (a - b) = unat c" by (simp add: unat_sub_no_wrap)
  then have "a - b = c" by (simp add: word_unat_eq_iff)
  with u show "checked_sub a b = Some c" by (simp add: checked_sub_def)
qed

lemma checked_mul_Some [arith_simps]:
  fixes a b c :: "'a::len word"
  shows "checked_mul a b = Some c \<longleftrightarrow> unat c = unat a * unat b"
proof
  assume "checked_mul a b = Some c"
  then show "unat c = unat a * unat b"
    by (auto simp: checked_mul_def unat_mult_no_wrap split: if_splits)
next
  assume u: "unat c = unat a * unat b"
  have lt: "unat a * unat b < 2 ^ LENGTH('a)" using unat_lt2p [of c] u by simp
  then have "unat (a * b) = unat c" using u by (simp add: unat_mult_no_wrap)
  then have "a * b = c" by (simp add: word_unat_eq_iff)
  with lt show "checked_mul a b = Some c" by (simp add: checked_mul_def)
qed

lemma op_div_Some [arith_simps]:
  "op_div a b = Some c \<longleftrightarrow> b \<noteq> 0 \<and> c = a div b"
  by (auto simp: op_div_def)

text \<open>A product that wraps is never larger than the true one.\<close>

lemma op_mul_le: "op_mul oc a b = Some c \<Longrightarrow> unat c \<le> unat a * unat b"
  by (auto simp: op_mul_def arith_simps unat_word_ariths split: if_splits)

lemma unat_pos_iff: "0 < unat w \<longleftrightarrow> w \<noteq> 0"
  by (simp add: unat_gt_0)

section \<open>Little-endian encodings and cursors\<close>

primrec nat_le :: "nat \<Rightarrow> nat \<Rightarrow> bytes" where
  "nat_le 0 x = []"
| "nat_le (Suc n) x = word_of_nat (x mod 256) # nat_le n (x div 256)"

primrec le_nat :: "bytes \<Rightarrow> nat" where
  "le_nat [] = 0"
| "le_nat (b # bs) = unat b + 256 * le_nat bs"

text \<open>\<open>to_le_bytes\<close> and \<open>from_le_bytes\<close>; the width of the word gives the number of bytes.\<close>

definition to_le_bytes :: "'a::len word \<Rightarrow> bytes" where
  "to_le_bytes w = nat_le (LENGTH('a) div 8) (unat w)"

definition from_le_bytes :: "bytes \<Rightarrow> 'a::len word" where
  "from_le_bytes bs = word_of_nat (le_nat bs)"

lemma length_nat_le [simp]: "length (nat_le n x) = n"
  by (induction n arbitrary: x) auto

lemma le_nat_nat_le: "le_nat (nat_le n x) = x mod 256 ^ n"
proof (induction n arbitrary: x)
  case 0
  show ?case by simp
next
  case (Suc n)
  have "unat (word_of_nat (x mod 256) :: u8) = x mod 256"
    by (simp add: unat_of_nat)
  then show ?case
    by (simp add: Suc mod_mult2_eq)
qed

lemma nat_le_le_nat: "length bs = n \<Longrightarrow> nat_le n (le_nat bs) = bs"
proof (induction bs arbitrary: n)
  case Nil
  then show ?case by simp
next
  case (Cons b bs)
  have "unat b < 256" using unat_lt2p [of b] by simp
  then have "(unat b + 256 * le_nat bs) mod 256 = unat b"
    "(unat b + 256 * le_nat bs) div 256 = le_nat bs" by simp_all
  with Cons show ?case by (cases n) simp_all
qed

lemma le_nat_bound: "le_nat bs < 256 ^ length bs"
proof (induction bs)
  case Nil
  show ?case by simp
next
  case (Cons b bs)
  have "unat b < 256" using unat_lt2p [of b] by simp
  with Cons show ?case by simp
qed

lemma le_nat_append: "le_nat (xs @ ys) = le_nat xs + 256 ^ length xs * le_nat ys"
  by (induction xs) (simp_all add: algebra_simps)

lemma length_to_le_bytes [simp]:
  "length (to_le_bytes (w :: 'a::len word)) = LENGTH('a) div 8"
  by (simp add: to_le_bytes_def)

lemma from_to_le_bytes_gen:
  fixes w :: "'a::len word"
  assumes "8 dvd LENGTH('a)"
  shows "from_le_bytes (to_le_bytes w) = w"
proof -
  have "(256::nat) ^ (LENGTH('a) div 8) = 2 ^ (8 * (LENGTH('a) div 8))"
    by (simp add: power_mult)
  also have "\<dots> = 2 ^ LENGTH('a)" using assms by simp
  finally have "unat w mod 256 ^ (LENGTH('a) div 8) = unat w"
    by (simp add: unat_lt2p)
  then show ?thesis by (simp add: from_le_bytes_def to_le_bytes_def le_nat_nat_le)
qed

lemma to_from_le_bytes_gen:
  assumes "8 dvd LENGTH('a::len)" and "length bs = LENGTH('a) div 8"
  shows "to_le_bytes (from_le_bytes bs :: 'a word) = bs"
proof -
  have "(256::nat) ^ (LENGTH('a) div 8) = 2 ^ (8 * (LENGTH('a) div 8))"
    by (simp add: power_mult)
  also have "\<dots> = 2 ^ LENGTH('a)" using assms by simp
  finally have "le_nat bs < 2 ^ LENGTH('a)" using le_nat_bound [of bs] assms(2) by simp
  then have "unat (from_le_bytes bs :: 'a word) = le_nat bs"
    by (simp add: from_le_bytes_def unat_of_nat)
  with assms(2) show ?thesis by (simp add: to_le_bytes_def nat_le_le_nat)
qed

lemma from_to_le_bytes [simp]:
  "from_le_bytes (to_le_bytes (a :: u32)) = a"
  "from_le_bytes (to_le_bytes (b :: u64)) = b"
  "from_le_bytes (to_le_bytes (c :: u128)) = c"
  by (simp_all add: from_to_le_bytes_gen)

lemma to_le_bytes_inj:
  fixes v w :: "'a::len word"
  assumes "8 dvd LENGTH('a)"
  shows "to_le_bytes v = to_le_bytes w \<longleftrightarrow> v = w"
  using from_to_le_bytes_gen [OF assms] by metis

lemma to_le_bytes_eq_iff [simp]:
  "to_le_bytes (a :: u32) = to_le_bytes a' \<longleftrightarrow> a = a'"
  "to_le_bytes (b :: u64) = to_le_bytes b' \<longleftrightarrow> b = b'"
  "to_le_bytes (c :: u128) = to_le_bytes c' \<longleftrightarrow> c = c'"
  by (simp_all add: to_le_bytes_inj)

text \<open>
  \<open>read_exact\<close> on a \<open>Cursor\<close>: the next \<open>n\<close> bytes and the rest, or failure at the end of the
  input.
\<close>

definition read_exact :: "nat \<Rightarrow> bytes \<Rightarrow> (bytes \<times> bytes) option" where
  "read_exact n bs = (if n \<le> length bs then Some (take n bs, drop n bs) else None)"

lemma read_exact_append [simp]:
  "length xs = n \<Longrightarrow> read_exact n (xs @ ys) = Some (xs, ys)"
  by (simp add: read_exact_def)

lemma read_exact_Some:
  "read_exact n bs = Some (xs, ys) \<longleftrightarrow> length xs = n \<and> bs = xs @ ys"
  by (auto simp: read_exact_def min_def)

text \<open>A program identifier \<open>[u32; 8]\<close> as 32 bytes.\<close>

definition words_le :: "u32 list \<Rightarrow> bytes" where
  "words_le ws = concat (map to_le_bytes ws)"

lemma words_le_simps [simp]:
  "words_le [] = []" "words_le (w # ws) = to_le_bytes w @ words_le ws"
  by (simp_all add: words_le_def)

lemma length_words_le [simp]: "length (words_le ws) = 4 * length ws"
  by (induction ws) auto

lemma words_le_inj: "length ws = length vs \<Longrightarrow> words_le ws = words_le vs \<longleftrightarrow> ws = vs"
  by (induction ws vs rule: list_induct2) auto

section \<open>Lists and finite maps\<close>

lemma append_eq_append_len:
  "length xs = length ys \<Longrightarrow> xs @ us = ys @ vs \<longleftrightarrow> xs = ys \<and> us = vs"
  by simp

text \<open>\<open>HashSet\<close> collection of a slice: its size tells whether there are duplicates.\<close>

definition n_distinct :: "'a list \<Rightarrow> nat" where
  "n_distinct xs = length (remdups xs)"

lemma n_distinct_eq_length [simp]: "n_distinct xs = length xs \<longleftrightarrow> distinct xs"
  by (simp add: n_distinct_def)

lemma length_eq_n_distinct [simp]: "length xs = n_distinct xs \<longleftrightarrow> distinct xs"
  using n_distinct_eq_length [of xs] by linarith

definition fm_sum :: "('v \<Rightarrow> nat) \<Rightarrow> ('k, 'v) fmap \<Rightarrow> nat" where
  "fm_sum f m = (\<Sum>k \<in> fset (fmdom m). f (the (fmlookup m k)))"

lemma fm_sum_empty [simp]: "fm_sum f fmempty = 0"
  by (simp add: fm_sum_def)

lemma fm_sum_upd:
  "fm_sum f (fmupd k v m) + (case fmlookup m k of None \<Rightarrow> 0 | Some w \<Rightarrow> f w) = fm_sum f m + f v"
proof -
  let ?D = "fset (fmdom m)"
  have eq: "(\<Sum>x \<in> ?D - {k}. f (the (fmlookup (fmupd k v m) x))) = (\<Sum>x \<in> ?D - {k}. f (the (fmlookup m x)))"
    by (rule sum.cong) auto
  have up: "fm_sum f (fmupd k v m) = f v + (\<Sum>x \<in> ?D - {k}. f (the (fmlookup m x)))"
    unfolding fm_sum_def using eq by (simp add: sum.insert_remove)
  show ?thesis
  proof (cases "fmlookup m k")
    case None
    then have "k \<notin> ?D" by (simp add: fmdom_notI)
    with None up show ?thesis by (simp add: fm_sum_def)
  next
    case (Some w)
    then have "k \<in> ?D" by (simp add: fmdomI)
    then have "fm_sum f m = f w + (\<Sum>x \<in> ?D - {k}. f (the (fmlookup m x)))"
      unfolding fm_sum_def using Some by (simp add: sum.remove)
    with Some up show ?thesis by simp
  qed
qed

lemma distinct_map_of_zip_nth:
  "distinct ks \<Longrightarrow> length ks = length vs \<Longrightarrow> i < length ks \<Longrightarrow> map_of (zip ks vs) (ks ! i) = Some (vs ! i)"
  by (simp add: map_of_zip_nth)

end
