(* ===== verification/Account.thy ===== *)
theory Account
  imports Prelude
begin

text \<open>
  Accounts (\<open>lee/state_machine/core/src/account.rs\<close>, \<open>account/data.rs\<close>) and their byte
  encodings (\<open>encoding.rs\<close>): the account record, the bounded data field, the nonce updates,
  and the serialisation read back through a cursor.
\<close>

section \<open>Accounts\<close>

type_synonym program_id = "u32 list"
type_synonym account_id = bytes
type_synonym nullifier_secret_key = bytes

definition DEFAULT_PROGRAM_ID :: program_id where
  "DEFAULT_PROGRAM_ID = replicate 8 0"

record account =
  program_owner :: program_id
  balance :: u128
  data :: bytes
  nonce :: u128

definition default_account :: account where
  "default_account = \<lparr> program_owner = DEFAULT_PROGRAM_ID, balance = 0, data = [], nonce = 0 \<rparr>"

record account_meta =
  account :: account
  is_authorized :: bool
  account_id :: account_id

definition new_account_meta :: "account \<Rightarrow> bool \<Rightarrow> account_id \<Rightarrow> account_meta" where
  "new_account_meta a auth i = \<lparr> account = a, is_authorized = auth, account_id = i \<rparr>"

text \<open>The fixed sizes of the Rust array types.\<close>

definition wf_id :: "bytes \<Rightarrow> bool" where
  "wf_id i \<longleftrightarrow> length i = 32"

definition wf_program_id :: "program_id \<Rightarrow> bool" where
  "wf_program_id p \<longleftrightarrow> length p = 8"

section \<open>Data\<close>

text \<open>\<open>ByteSize::kib(100)\<close>.\<close>

definition DATA_MAX_LENGTH :: nat where
  "DATA_MAX_LENGTH = 100 * 1024"

datatype cursor_error = UnexpectedEof | DataTooBigError

definition wf_account :: "account \<Rightarrow> bool" where
  "wf_account a \<longleftrightarrow> wf_program_id (program_owner a) \<and> length (data a) \<le> DATA_MAX_LENGTH"

definition data_try_from :: "bytes \<Rightarrow> (cursor_error, bytes) result" where
  "data_try_from v = (if length v > DATA_MAX_LENGTH then Inl DataTooBigError else Inr v)"

definition data_from_cursor :: "bytes \<Rightarrow> (cursor_error, bytes \<times> bytes) result" where
  "data_from_cursor cur =
     expect (read_exact 4 cur) UnexpectedEof (\<lambda>(u32_bytes, cur).
     let data_length = unat (from_le_bytes u32_bytes :: u32) in
     ensure (\<not> data_length > DATA_MAX_LENGTH) DataTooBigError (
     expect (read_exact data_length cur) UnexpectedEof Inr))"

text \<open>
  The visitor that deserialises \<open>Data\<close> pulls elements one at a time (an element may itself
  fail with an error of the format) and stops as soon as the limit would be exceeded.
\<close>

datatype 'e visit_error = Access 'e | Custom cursor_error

fun data_visit_seq :: "('e, u8) result list \<Rightarrow> bytes \<Rightarrow> ('e visit_error, bytes) result" where
  "data_visit_seq [] vec = Inr vec"
| "data_visit_seq (Inl e # seq) vec = Inl (Access e)"
| "data_visit_seq (Inr value # seq) vec =
     (if length vec \<ge> DATA_MAX_LENGTH then Inl (Custom DataTooBigError)
      else data_visit_seq seq (vec @ [value]))"

section \<open>Nonces\<close>

definition public_account_nonce_increment :: "u128 \<Rightarrow> u128 option" where
  "public_account_nonce_increment n = checked_add n 1"

definition private_account_nonce_init :: "hash_fn \<Rightarrow> account_id \<Rightarrow> u128" where
  "private_account_nonce_init H i = from_le_bytes (take 16 (H (i @ replicate 32 0)))"

definition private_account_nonce_increment ::
  "hash_fn \<Rightarrow> u128 \<Rightarrow> nullifier_secret_key \<Rightarrow> u128" where
  "private_account_nonce_increment H n nsk =
     from_le_bytes (take 16 (H (nsk @ to_le_bytes n @ replicate 16 0)))"

section \<open>Byte encodings\<close>

text \<open>\<open>None\<close> is the panic of \<open>u32::try_from(..).expect\<close>.\<close>

definition account_to_bytes :: "account \<Rightarrow> bytes option" where
  "account_to_bytes a =
     (if length (data a) < 2 ^ 32
      then Some (words_le (program_owner a) @ to_le_bytes (balance a) @ to_le_bytes (nonce a)
                 @ to_le_bytes (word_of_nat (length (data a)) :: u32) @ data a)
      else None)"

fun words_from_cursor :: "nat \<Rightarrow> bytes \<Rightarrow> (cursor_error, u32 list \<times> bytes) result" where
  "words_from_cursor 0 cur = Inr ([], cur)"
| "words_from_cursor (Suc n) cur =
     expect (read_exact 4 cur) UnexpectedEof (\<lambda>(u32_bytes, cur).
     rbind (words_from_cursor n cur) (\<lambda>(ws, cur).
     Inr (from_le_bytes u32_bytes # ws, cur)))"

definition account_from_cursor :: "bytes \<Rightarrow> (cursor_error, account \<times> bytes) result" where
  "account_from_cursor cur =
     rbind (words_from_cursor 8 cur) (\<lambda>(owner, cur).
     expect (read_exact 16 cur) UnexpectedEof (\<lambda>(balance_bytes, cur).
     expect (read_exact 16 cur) UnexpectedEof (\<lambda>(nonce_bytes, cur).
     rbind (data_from_cursor cur) (\<lambda>(d, cur).
     Inr (\<lparr> program_owner = owner, balance = from_le_bytes balance_bytes, data = d,
            nonce = from_le_bytes nonce_bytes \<rparr>, cur)))))"

definition byte_array_from_cursor :: "bytes \<Rightarrow> (cursor_error, bytes \<times> bytes) result" where
  "byte_array_from_cursor cur = expect (read_exact 32 cur) UnexpectedEof Inr"

definition ciphertext_to_bytes :: "bytes \<Rightarrow> bytes option" where
  "ciphertext_to_bytes c =
     (if length c < 2 ^ 32 then Some (to_le_bytes (word_of_nat (length c) :: u32) @ c) else None)"

definition ciphertext_from_cursor :: "bytes \<Rightarrow> (cursor_error, bytes \<times> bytes) result" where
  "ciphertext_from_cursor cur =
     expect (read_exact 4 cur) UnexpectedEof (\<lambda>(u32_bytes, cur).
     expect (read_exact (unat (from_le_bytes u32_bytes :: u32)) cur) UnexpectedEof Inr)"

definition epk_from_cursor :: "bytes \<Rightarrow> (cursor_error, bytes \<times> bytes) result" where
  "epk_from_cursor cur = expect (read_exact 1088 cur) UnexpectedEof Inr"

section \<open>Properties\<close>

lemma wf_default_account [simp]: "wf_account default_account"
  by (simp add: wf_account_def default_account_def wf_program_id_def DEFAULT_PROGRAM_ID_def)

lemma default_account_sel [simp]:
  "program_owner default_account = DEFAULT_PROGRAM_ID" "balance default_account = 0"
  "data default_account = []" "nonce default_account = 0"
  by (simp_all add: default_account_def)

lemma new_account_meta_sel [simp]:
  "account (new_account_meta a b i) = a" "is_authorized (new_account_meta a b i) = b"
  "account_id (new_account_meta a b i) = i"
  by (simp_all add: new_account_meta_def)

lemma nonce_increment_Some [arith_simps]:
  "public_account_nonce_increment n = Some m \<longleftrightarrow> unat m = unat n + 1"
  by (simp add: public_account_nonce_increment_def arith_simps)

lemma words_from_cursor_words_le:
  "words_from_cursor (length ws) (words_le ws @ rest) = Inr (ws, rest)"
  by (induction ws) simp_all

lemma words_from_cursor_Inr:
  "words_from_cursor n cur = Inr (ws, rest) \<Longrightarrow> length ws = n \<and> cur = words_le ws @ rest"
proof (induction n arbitrary: cur ws rest)
  case 0
  then show ?case by simp
next
  case (Suc n)
  then obtain b cur' ws' where r: "read_exact 4 cur = Some (b, cur')"
    and w: "words_from_cursor n cur' = Inr (ws', rest)" "ws = from_le_bytes b # ws'"
    by (auto simp: res_simps)
  have "to_le_bytes (from_le_bytes b :: u32) = b"
    using r by (intro to_from_le_bytes_gen) (auto simp: read_exact_Some)
  with r w Suc.IH [OF w(1)] show ?case by (auto simp: read_exact_Some)
qed

lemma unat_length_u32: "length xs < 2 ^ 32 \<Longrightarrow> unat (word_of_nat (length xs) :: u32) = length xs"
  by (simp add: unat_of_nat)

lemma data_from_cursor_encode:
  assumes "length d \<le> DATA_MAX_LENGTH"
  shows "data_from_cursor (to_le_bytes (word_of_nat (length d) :: u32) @ d @ rest) = Inr (d, rest)"
proof -
  have "length d < 2 ^ 32" using assms by (simp add: DATA_MAX_LENGTH_def)
  then show ?thesis using assms by (simp add: data_from_cursor_def unat_length_u32)
qed

lemma data_from_cursor_Inr:
  assumes "data_from_cursor cur = Inr (d, rest)"
  shows "length d \<le> DATA_MAX_LENGTH \<and> cur = to_le_bytes (word_of_nat (length d) :: u32) @ d @ rest"
proof -
  obtain b cur' where r: "read_exact 4 cur = Some (b, cur')"
    and le: "unat (from_le_bytes b :: u32) \<le> DATA_MAX_LENGTH"
    and d: "read_exact (unat (from_le_bytes b :: u32)) cur' = Some (d, rest)"
    using assms by (auto simp: data_from_cursor_def Let_def res_simps)
  have "to_le_bytes (from_le_bytes b :: u32) = b"
    using r by (intro to_from_le_bytes_gen) (auto simp: read_exact_Some)
  moreover have "(word_of_nat (length d) :: u32) = from_le_bytes b"
    using d by (auto simp: read_exact_Some)
  ultimately show ?thesis using r le d by (auto simp: read_exact_Some)
qed

lemma account_to_bytes_Some:
  assumes "wf_account a"
  shows "account_to_bytes a =
    Some (words_le (program_owner a) @ to_le_bytes (balance a) @ to_le_bytes (nonce a)
          @ to_le_bytes (word_of_nat (length (data a)) :: u32) @ data a)"
  using assms by (simp add: account_to_bytes_def wf_account_def DATA_MAX_LENGTH_def)

lemma account_from_cursor_encode:
  assumes "wf_account a" and "account_to_bytes a = Some bs"
  shows "account_from_cursor (bs @ rest) = Inr (a, rest)"
proof -
  have len: "length (program_owner a) = 8" "length (data a) \<le> DATA_MAX_LENGTH"
    using assms(1) by (simp_all add: wf_account_def wf_program_id_def)
  have "words_from_cursor 8 (words_le (program_owner a) @ r) = Inr (program_owner a, r)" for r
    using words_from_cursor_words_le [of "program_owner a" r] len(1) by simp
  then show ?thesis
    using assms len(2)
    by (auto simp: account_to_bytes_Some account_from_cursor_def data_from_cursor_encode)
qed

lemma account_from_cursor_Inr:
  assumes "account_from_cursor cur = Inr (a, rest)"
  shows "wf_account a \<and> (\<exists>bs. account_to_bytes a = Some bs \<and> cur = bs @ rest)"
proof -
  obtain ow c1 bb c2 nb c3 d where w: "words_from_cursor 8 cur = Inr (ow, c1)"
    and b: "read_exact 16 c1 = Some (bb, c2)" and n: "read_exact 16 c2 = Some (nb, c3)"
    and d: "data_from_cursor c3 = Inr (d, rest)"
    and a: "a = \<lparr> program_owner = ow, balance = from_le_bytes bb, data = d,
                  nonce = from_le_bytes nb \<rparr>"
    using assms by (auto simp: account_from_cursor_def res_simps)
  have "to_le_bytes (from_le_bytes bb :: u128) = bb" "to_le_bytes (from_le_bytes nb :: u128) = nb"
    using b n by (auto intro!: to_from_le_bytes_gen simp: read_exact_Some)
  then show ?thesis
    using words_from_cursor_Inr [OF w] data_from_cursor_Inr [OF d] b n a
    by (auto simp: account_to_bytes_def wf_account_def wf_program_id_def read_exact_Some
        DATA_MAX_LENGTH_def)
qed

lemma data_visit_seq_Inr:
  "length vec \<le> DATA_MAX_LENGTH \<Longrightarrow> data_visit_seq seq vec = Inr d \<longleftrightarrow>
     (\<exists>vs. seq = map Inr vs \<and> d = vec @ vs \<and> length d \<le> DATA_MAX_LENGTH)"
proof (induction seq vec rule: data_visit_seq.induct)
  case (3 v seq vec)
  show ?case
  proof (cases "length vec \<ge> DATA_MAX_LENGTH")
    case True
    then show ?thesis by (auto simp: Cons_eq_map_conv)
  next
    case False
    with 3 show ?thesis by (auto simp: Cons_eq_map_conv)
  qed
qed auto

lemma ciphertext_from_cursor_encode:
  "ciphertext_to_bytes c = Some bs \<Longrightarrow> ciphertext_from_cursor (bs @ rest) = Inr (c, rest)"
  by (auto simp: ciphertext_to_bytes_def ciphertext_from_cursor_def unat_length_u32 split: if_splits)

end
