(* ===== verification/Derivations.thy ===== *)
theory Derivations
  imports Account
begin

text \<open>
  Identifiers, commitments and nullifiers (\<open>lee/state_machine/core/src/program.rs\<close>,
  \<open>commitment.rs\<close>, \<open>nullifier.rs\<close>, \<open>lee/state_machine/src/signature/public_key.rs\<close>).
  Each derivation hashes a domain-separated preimage; the hash \<open>H\<close> is a parameter.  The
  preimages are given their own names so that the absence of ambiguity can be stated: two
  derivations agree only if their inputs do, or if \<open>H\<close> collides on the two preimages.
\<close>

section \<open>Account identifiers\<close>

type_synonym pda_seed = bytes
type_synonym nullifier_public_key = bytes
type_synonym account_ident = u128
type_synonym commitment = bytes
type_synonym nullifier = bytes
type_synonym digest = bytes
type_synonym membership_proof = "nat \<times> bytes list"

datatype private_account_kind =
    Regular account_ident
  | Pda program_id pda_seed account_ident

definition PDA_PREFIX :: bytes where
  "PDA_PREFIX = ascii ''/LEE/v0.2/AccountId/PDA/'' @ replicate 8 0"

definition PRIVATE_PDA_PREFIX :: bytes where
  "PRIVATE_PDA_PREFIX = ascii ''/LEE/v0.3/AccountId/PrivatePDA/'' @ replicate 1 0"

definition PRIVATE_ACCOUNT_ID_PREFIX :: bytes where
  "PRIVATE_ACCOUNT_ID_PREFIX = ascii ''/LEE/v0.3/AccountId/Private/'' @ replicate 4 0"

definition PUBLIC_ACCOUNT_ID_PREFIX :: bytes where
  "PUBLIC_ACCOUNT_ID_PREFIX = ascii ''/LEE/v0.3/AccountId/Public/'' @ replicate 5 0"

definition public_pda_preimage :: "program_id \<Rightarrow> pda_seed \<Rightarrow> bytes" where
  "public_pda_preimage pid seed = PDA_PREFIX @ words_le pid @ seed"

definition for_public_pda :: "hash_fn \<Rightarrow> program_id \<Rightarrow> pda_seed \<Rightarrow> account_id" where
  "for_public_pda H pid seed = H (public_pda_preimage pid seed)"

definition private_pda_preimage ::
  "program_id \<Rightarrow> pda_seed \<Rightarrow> nullifier_public_key \<Rightarrow> account_ident \<Rightarrow> bytes" where
  "private_pda_preimage pid seed npk ident =
     PRIVATE_PDA_PREFIX @ words_le pid @ seed @ npk @ to_le_bytes ident"

definition for_private_pda ::
  "hash_fn \<Rightarrow> program_id \<Rightarrow> pda_seed \<Rightarrow> nullifier_public_key \<Rightarrow> account_ident \<Rightarrow> account_id" where
  "for_private_pda H pid seed npk ident = H (private_pda_preimage pid seed npk ident)"

definition regular_private_preimage :: "nullifier_public_key \<Rightarrow> account_ident \<Rightarrow> bytes" where
  "regular_private_preimage npk ident = PRIVATE_ACCOUNT_ID_PREFIX @ npk @ to_le_bytes ident"

definition for_regular_private_account ::
  "hash_fn \<Rightarrow> nullifier_public_key \<Rightarrow> account_ident \<Rightarrow> account_id" where
  "for_regular_private_account H npk ident = H (regular_private_preimage npk ident)"

definition for_private_account ::
  "hash_fn \<Rightarrow> nullifier_public_key \<Rightarrow> private_account_kind \<Rightarrow> account_id" where
  "for_private_account H npk kind =
     (case kind of
        Regular ident \<Rightarrow> for_regular_private_account H npk ident
      | Pda pid seed ident \<Rightarrow> for_private_pda H pid seed npk ident)"

definition public_key_preimage :: "bytes \<Rightarrow> bytes" where
  "public_key_preimage key = PUBLIC_ACCOUNT_ID_PREFIX @ key"

definition account_id_of_public_key :: "hash_fn \<Rightarrow> bytes \<Rightarrow> account_id" where
  "account_id_of_public_key H key = H (public_key_preimage key)"

definition npk_of_nsk :: "hash_fn \<Rightarrow> nullifier_secret_key \<Rightarrow> nullifier_public_key" where
  "npk_of_nsk H nsk = H (ascii ''LEE/keys'' @ nsk @ [7] @ replicate 23 0)"

section \<open>Header of an encrypted account note\<close>

definition HEADER_LEN :: nat where
  "HEADER_LEN = 81"

fun kind_identifier :: "private_account_kind \<Rightarrow> account_ident" where
  "kind_identifier (Regular ident) = ident"
| "kind_identifier (Pda pid seed ident) = ident"

text \<open>The Borsh layout written in the source.\<close>

fun kind_borsh :: "private_account_kind \<Rightarrow> bytes" where
  "kind_borsh (Regular ident) = [0] @ to_le_bytes ident"
| "kind_borsh (Pda pid seed ident) = [1] @ words_le pid @ seed @ to_le_bytes ident"

definition to_header_bytes :: "private_account_kind \<Rightarrow> bytes" where
  "to_header_bytes k = kind_borsh k @ replicate (HEADER_LEN - length (kind_borsh k)) 0"

definition from_header_bytes :: "bytes \<Rightarrow> private_account_kind option" where
  "from_header_bytes bs =
     (case bs of
        [] \<Rightarrow> None
      | tag # cur \<Rightarrow>
          if tag = 0 then
            (case read_exact 16 cur of
               None \<Rightarrow> None
             | Some (b, _) \<Rightarrow> Some (Regular (from_le_bytes b)))
          else if tag = 1 then
            (case words_from_cursor 8 cur of
               Inl _ \<Rightarrow> None
             | Inr (pid, cur) \<Rightarrow>
                 (case read_exact 32 cur of
                    None \<Rightarrow> None
                  | Some (seed, cur) \<Rightarrow>
                      (case read_exact 16 cur of
                         None \<Rightarrow> None
                       | Some (b, _) \<Rightarrow> Some (Pda pid seed (from_le_bytes b)))))
          else None)"

fun wf_kind :: "private_account_kind \<Rightarrow> bool" where
  "wf_kind (Regular ident) = True"
| "wf_kind (Pda pid seed ident) = (wf_program_id pid \<and> wf_id seed)"

section \<open>Commitments\<close>

definition DUMMY_COMMITMENT :: commitment where
  "DUMMY_COMMITMENT =
     [55, 228, 215, 207, 112, 221, 239, 49, 238, 79, 71, 135, 155, 15, 184, 45, 104, 74, 51, 211,
      238, 42, 160, 243, 15, 124, 253, 62, 3, 229, 90, 27]"

definition DUMMY_COMMITMENT_HASH :: digest where
  "DUMMY_COMMITMENT_HASH =
     [250, 237, 192, 113, 155, 101, 119, 30, 235, 183, 20, 84, 26, 32, 196, 229, 154, 74, 254, 249,
      129, 241, 118, 39, 41, 253, 141, 171, 184, 71, 8, 41]"

definition COMMITMENT_PREFIX :: bytes where
  "COMMITMENT_PREFIX = ascii ''/LEE/v0.3/Commitment/'' @ replicate 11 0"

definition commitment_preimage :: "hash_fn \<Rightarrow> account_id \<Rightarrow> account \<Rightarrow> bytes" where
  "commitment_preimage H i a =
     COMMITMENT_PREFIX @ i @ words_le (program_owner a) @ to_le_bytes (balance a)
     @ to_le_bytes (nonce a) @ H (data a)"

definition commitment_new :: "hash_fn \<Rightarrow> account_id \<Rightarrow> account \<Rightarrow> commitment" where
  "commitment_new H i a = H (commitment_preimage H i a)"

text \<open>The loop over the siblings of a membership proof: the index tells the side.\<close>

fun digest_loop :: "hash_fn \<Rightarrow> bytes \<Rightarrow> nat \<Rightarrow> bytes list \<Rightarrow> bytes" where
  "digest_loop H result level_index [] = result"
| "digest_loop H result level_index (node # path) =
     digest_loop H (if even level_index then H (result @ node) else H (node @ result))
       (level_index div 2) path"

definition compute_digest_for_path :: "hash_fn \<Rightarrow> commitment \<Rightarrow> membership_proof \<Rightarrow> digest" where
  "compute_digest_for_path H c proof = digest_loop H (H c) (fst proof) (snd proof)"

section \<open>Nullifiers\<close>

definition UPDATE_PREFIX :: bytes where
  "UPDATE_PREFIX = ascii ''/LEE/v0.3/Nullifier/Update/'' @ replicate 5 0"

definition INIT_PREFIX :: bytes where
  "INIT_PREFIX = ascii ''/LEE/v0.3/Nullifier/Initialize/'' @ replicate 1 0"

definition for_account_update :: "hash_fn \<Rightarrow> commitment \<Rightarrow> nullifier_secret_key \<Rightarrow> nullifier" where
  "for_account_update H c nsk = H (UPDATE_PREFIX @ c @ nsk)"

definition for_account_initialization :: "hash_fn \<Rightarrow> account_id \<Rightarrow> nullifier" where
  "for_account_initialization H i = H (INIT_PREFIX @ i)"

section \<open>Encryption of notes\<close>

text \<open>
  ChaCha20 is a parameter: \<open>keystream key bs\<close> is \<open>apply_keystream\<close> under \<open>key\<close> and the zero
  nonce (\<open>encryption/mod.rs\<close>).
\<close>

definition compute_view_tag :: "hash_fn \<Rightarrow> nullifier_public_key \<Rightarrow> bytes \<Rightarrow> u8" where
  "compute_view_tag H npk vpk = H (ascii ''/LEE/v0.3/ViewTag/'' @ npk @ vpk) ! 0"

definition kdf :: "hash_fn \<Rightarrow> bytes \<Rightarrow> commitment \<Rightarrow> u32 \<Rightarrow> bytes" where
  "kdf H ss c idx = H (ascii ''LEE/v0.2/KDF-SHA256/'' @ ss @ c @ to_le_bytes idx)"

definition symmetric_transform ::
  "hash_fn \<Rightarrow> (bytes \<Rightarrow> bytes \<Rightarrow> bytes) \<Rightarrow> bytes \<Rightarrow> bytes \<Rightarrow> commitment \<Rightarrow> u32 \<Rightarrow> bytes" where
  "symmetric_transform H keystream buffer ss c idx = keystream (kdf H ss c idx) buffer"

definition encrypt ::
  "hash_fn \<Rightarrow> (bytes \<Rightarrow> bytes \<Rightarrow> bytes) \<Rightarrow> account \<Rightarrow> private_account_kind \<Rightarrow> bytes \<Rightarrow> commitment
   \<Rightarrow> u32 \<Rightarrow> bytes option" where
  "encrypt H keystream a kind ss c idx =
     (case account_to_bytes a of
        None \<Rightarrow> None
      | Some bs \<Rightarrow> Some (symmetric_transform H keystream (to_header_bytes kind @ bs) ss c idx))"

definition decrypt ::
  "hash_fn \<Rightarrow> (bytes \<Rightarrow> bytes \<Rightarrow> bytes) \<Rightarrow> bytes \<Rightarrow> bytes \<Rightarrow> commitment \<Rightarrow> u32
   \<Rightarrow> (private_account_kind \<times> account) option" where
  "decrypt H keystream ct ss c idx =
     (let buffer = symmetric_transform H keystream ct ss c idx in
      if length buffer < HEADER_LEN then None
      else case from_header_bytes (take HEADER_LEN buffer) of
             None \<Rightarrow> None
           | Some kind \<Rightarrow>
               (case account_from_cursor (drop HEADER_LEN buffer) of
                  Inl _ \<Rightarrow> None
                | Inr (a, _) \<Rightarrow> Some (kind, a)))"

section \<open>Lemmas\<close>

lemma length_prefixes [simp]:
  "length PDA_PREFIX = 32" "length PRIVATE_PDA_PREFIX = 32" "length PRIVATE_ACCOUNT_ID_PREFIX = 32"
  "length PUBLIC_ACCOUNT_ID_PREFIX = 32" "length COMMITMENT_PREFIX = 32"
  "length UPDATE_PREFIX = 32" "length INIT_PREFIX = 32"
  by (simp_all add: PDA_PREFIX_def PRIVATE_PDA_PREFIX_def PRIVATE_ACCOUNT_ID_PREFIX_def
      PUBLIC_ACCOUNT_ID_PREFIX_def COMMITMENT_PREFIX_def UPDATE_PREFIX_def INIT_PREFIX_def)

lemmas prefix_defs = PDA_PREFIX_def PRIVATE_PDA_PREFIX_def PRIVATE_ACCOUNT_ID_PREFIX_def
  PUBLIC_ACCOUNT_ID_PREFIX_def COMMITMENT_PREFIX_def UPDATE_PREFIX_def INIT_PREFIX_def ascii_def

text \<open>The domain tags of the account identifiers differ pairwise.\<close>

lemma id_prefixes_distinct:
  "distinct [PDA_PREFIX, PRIVATE_PDA_PREFIX, PRIVATE_ACCOUNT_ID_PREFIX, PUBLIC_ACCOUNT_ID_PREFIX]"
  by (simp add: prefix_defs of_char_def)

lemma prefixed_eq_iff:
  "length p = 32 \<Longrightarrow> length q = 32 \<Longrightarrow> p @ xs = q @ ys \<longleftrightarrow> p = q \<and> xs = ys"
  by simp

lemma public_pda_preimage_eq:
  assumes "wf_program_id p" "wf_program_id q"
  shows "public_pda_preimage p s = public_pda_preimage q t \<longleftrightarrow> p = q \<and> s = t"
  using assms by (auto simp: public_pda_preimage_def wf_program_id_def append_eq_append_len words_le_inj)

lemma private_pda_preimage_eq:
  assumes "wf_program_id p" "wf_program_id q" "wf_id s" "wf_id t" "wf_id n" "wf_id m"
  shows "private_pda_preimage p s n i = private_pda_preimage q t m j
    \<longleftrightarrow> p = q \<and> s = t \<and> n = m \<and> i = j"
  using assms
  by (auto simp: private_pda_preimage_def wf_program_id_def wf_id_def append_eq_append_len words_le_inj)

lemma regular_private_preimage_eq:
  assumes "wf_id n" "wf_id m"
  shows "regular_private_preimage n i = regular_private_preimage m j \<longleftrightarrow> n = m \<and> i = j"
  using assms by (auto simp: regular_private_preimage_def wf_id_def append_eq_append_len)

lemma commitment_preimage_eq:
  assumes "wf_id i" "wf_id j" "wf_account a" "wf_account b"
  shows "commitment_preimage H i a = commitment_preimage H j b
    \<longleftrightarrow> i = j \<and> program_owner a = program_owner b \<and> balance a = balance b \<and> nonce a = nonce b
        \<and> H (data a) = H (data b)"
  using assms
  by (auto simp: commitment_preimage_def wf_account_def wf_program_id_def wf_id_def
      append_eq_append_len words_le_inj)

lemma length_kind_borsh: "wf_kind k \<Longrightarrow> length (kind_borsh k) \<le> HEADER_LEN"
  by (cases k) (auto simp: HEADER_LEN_def wf_program_id_def wf_id_def)

lemma length_header_bytes: "wf_kind k \<Longrightarrow> length (to_header_bytes k) = HEADER_LEN"
  using length_kind_borsh by (simp add: to_header_bytes_def)

lemma header_roundtrip:
  assumes "wf_kind k"
  shows "from_header_bytes (to_header_bytes k) = Some k"
proof (cases k)
  case (Regular i)
  then show ?thesis by (simp add: to_header_bytes_def from_header_bytes_def)
next
  case (Pda p s i)
  with assms have "length p = 8" "length s = 32" by (simp_all add: wf_program_id_def wf_id_def)
  then have "words_from_cursor 8 (words_le p @ r) = Inr (p, r)" for r
    using words_from_cursor_words_le [of p r] by simp
  with Pda \<open>length s = 32\<close> show ?thesis by (simp add: to_header_bytes_def from_header_bytes_def)
qed

lemma digest_loop_append:
  "digest_loop H r i (p @ q) = digest_loop H (digest_loop H r i p) (i div 2 ^ length p) q"
  by (induction p arbitrary: r i) (simp_all add: div_mult2_eq)

section \<open>Notes and identifiers\<close>

text \<open>
  C40: what is encrypted for the owner of a note can be decrypted: applying the key stream twice is
  the identity and keeps the length, so decryption returns the kind and the account.
\<close>

theorem note_roundtrip:
  assumes "\<And>k bs. keystream k (keystream k bs) = bs"
    and "wf_account a" and "wf_kind kind"
    and "encrypt H keystream a kind ss c idx = Some ct"
  shows "decrypt H keystream ct ss c idx = Some (kind, a)"
proof -
  obtain bs where bs: "account_to_bytes a = Some bs" and ct: "ct = keystream (kdf H ss c idx) (to_header_bytes kind @ bs)"
    using assms(4) by (auto simp: encrypt_def symmetric_transform_def split: option.splits)
  show ?thesis
    using account_from_cursor_encode [OF assms(2) bs, of "[]"] assms(1,3)
    by (simp add: ct decrypt_def symmetric_transform_def length_header_bytes header_roundtrip)
qed

theorem note_roundtrip_witness:
  "\<exists>ct. encrypt (\<lambda>_. [3]) (\<lambda>k. map uminus) default_account (Regular 5) [1] [2] 0 = Some ct
    \<and> decrypt (\<lambda>_. [3]) (\<lambda>k. map uminus) ct [1] [2] 0 = Some (Regular 5, default_account)"
proof -
  obtain ct where "encrypt (\<lambda>_. [3]) (\<lambda>k. map uminus) default_account (Regular 5) [1] [2] 0 = Some ct"
    by (simp add: encrypt_def account_to_bytes_Some)
  with note_roundtrip [OF _ wf_default_account, of "\<lambda>k. map uminus" "Regular 5" "\<lambda>_. [3]" "[1]" "[2]" 0 ct]
  show ?thesis by (simp add: map_idI)
qed

definition private_preimage :: "nullifier_public_key \<Rightarrow> private_account_kind \<Rightarrow> bytes" where
  "private_preimage npk kind =
     (case kind of Regular ident \<Rightarrow> regular_private_preimage npk ident
      | Pda pid seed ident \<Rightarrow> private_pda_preimage pid seed npk ident)"

lemma for_private_account_eq: "for_private_account H npk kind = H (private_preimage npk kind)"
  by (simp add: for_private_account_def private_preimage_def for_regular_private_account_def for_private_pda_def
      split: private_account_kind.split)

lemma private_preimage_inj:
  assumes "wf_id n" "wf_id m" "wf_kind k" "wf_kind l"
  shows "private_preimage n k = private_preimage m l \<longleftrightarrow> n = m \<and> k = l"
proof -
  have "regular_private_preimage n i \<noteq> private_pda_preimage p s m j" for n i p s m j
    using id_prefixes_distinct by (auto simp: regular_private_preimage_def private_pda_preimage_def)
  then show ?thesis
    using assms by (cases k; cases l)
      (auto simp: private_preimage_def regular_private_preimage_eq private_pda_preimage_eq dest: sym)
qed

text \<open>
  A private account id determines the keys and the kind of the account, regular or program
  derived with its program, seed and identifier, and is no public account id, as long as the hash
  does not collide on the preimages at hand.
\<close>

lemma account_ids_separate:
  assumes "inj_on H {private_preimage n k, private_preimage m l, public_key_preimage key, public_pda_preimage p s}"
    and "wf_id n" "wf_id m" "wf_kind k" "wf_kind l"
  shows "(for_private_account H n k = for_private_account H m l \<longleftrightarrow> n = m \<and> k = l)
    \<and> for_private_account H n k \<noteq> account_id_of_public_key H key
    \<and> for_private_account H n k \<noteq> for_public_pda H p s
    \<and> account_id_of_public_key H key \<noteq> for_public_pda H p s"
proof -
  have "private_preimage n k \<noteq> public_key_preimage key" "private_preimage n k \<noteq> public_pda_preimage p s"
    "public_key_preimage key \<noteq> public_pda_preimage p s"
    using id_prefixes_distinct
    by (auto simp: private_preimage_def regular_private_preimage_def private_pda_preimage_def
        public_key_preimage_def public_pda_preimage_def split: private_account_kind.splits)
  then show ?thesis
    using assms(1) private_preimage_inj [OF assms(2-5)]
    by (auto simp: for_private_account_eq account_id_of_public_key_def for_public_pda_def inj_on_def)
qed

end
