(* ===== verification/Merkle_Tree.thy ===== *)
theory Merkle_Tree
  imports Derivations
begin

text \<open>
  The Merkle tree of commitments (\<open>lee/state_machine/src/merkle_tree/mod.rs\<close>).  The nodes of a
  tree of capacity \<open>2 ^ D\<close> sit in one array, the root of the whole array at index 0 and the
  children of \<open>i\<close> at \<open>2 i + 1\<close> and \<open>2 i + 2\<close>; only the leftmost subtree that holds all inserted
  values is live, so the root index depends on the length.  \<open>None\<close> is a panic (an index out of
  bounds, or a capacity beyond the table of default values).

  The specification is the hash tree \<open>mnode\<close> over the list of inserted values; \<open>mt_inv\<close> relates
  the array to it, and every operation is shown to keep that relation.
\<close>

section \<open>Default values\<close>

text \<open>\<open>merkle_tree/default_values.rs\<close>: the hash of the empty subtree of each height.\<close>

definition DEFAULT_VALUES :: "bytes list" where
  "DEFAULT_VALUES =
     [[0, 0, 0, 0, 0, 0, 0, 0, 0, 0, 0, 0, 0, 0, 0, 0, 0, 0, 0, 0, 0, 0, 0, 0, 0, 0, 0, 0, 0,
       0, 0, 0],
      [245, 165, 253, 66, 209, 106, 32, 48, 39, 152, 239, 110, 211, 9, 151, 155, 67, 0, 61, 35,
       32, 217, 240, 232, 234, 152, 49, 169, 39, 89, 251, 75],
      [219, 86, 17, 78, 0, 253, 212, 193, 248, 92, 137, 43, 243, 90, 201, 168, 146, 137, 170,
       236, 177, 235, 208, 169, 108, 222, 96, 106, 116, 139, 93, 113],
      [199, 128, 9, 253, 240, 127, 197, 106, 17, 241, 34, 55, 6, 88, 163, 83, 170, 165, 66,
       237, 99, 228, 76, 75, 193, 95, 244, 205, 16, 90, 179, 60],
      [83, 109, 152, 131, 127, 45, 209, 101, 165, 93, 94, 234, 233, 20, 133, 149, 68, 114, 213,
       111, 36, 109, 242, 86, 191, 60, 174, 25, 53, 42, 18, 60],
      [158, 253, 224, 82, 170, 21, 66, 159, 174, 5, 186, 212, 208, 177, 215, 198, 77, 166, 77,
       3, 215, 161, 133, 74, 88, 140, 44, 184, 67, 12, 13, 48],
      [216, 141, 223, 238, 212, 0, 168, 117, 85, 150, 178, 25, 66, 193, 73, 126, 17, 76, 48,
       46, 97, 24, 41, 15, 145, 230, 119, 41, 118, 4, 31, 161],
      [135, 235, 13, 219, 165, 126, 53, 246, 210, 134, 103, 56, 2, 164, 175, 89, 117, 226, 37,
       6, 199, 207, 76, 100, 187, 107, 229, 238, 17, 82, 127, 44],
      [38, 132, 100, 118, 253, 95, 197, 74, 93, 67, 56, 81, 103, 201, 81, 68, 242, 100, 63, 83,
       60, 200, 91, 185, 209, 107, 120, 47, 141, 125, 177, 147],
      [80, 109, 134, 88, 45, 37, 36, 5, 184, 64, 1, 135, 146, 202, 210, 191, 18, 89, 241, 239,
       90, 165, 248, 135, 225, 60, 178, 240, 9, 79, 81, 225],
      [255, 255, 10, 215, 230, 89, 119, 47, 149, 52, 193, 149, 200, 21, 239, 196, 1, 78, 241,
       225, 218, 237, 68, 4, 192, 99, 133, 209, 17, 146, 233, 43],
      [108, 240, 65, 39, 219, 5, 68, 28, 216, 51, 16, 122, 82, 190, 133, 40, 104, 137, 14, 67,
       23, 230, 160, 42, 180, 118, 131, 170, 117, 150, 66, 32],
      [183, 208, 95, 135, 95, 20, 0, 39, 239, 81, 24, 162, 36, 123, 187, 132, 206, 143, 47, 15,
       17, 35, 98, 48, 133, 218, 247, 150, 12, 50, 159, 95],
      [223, 106, 245, 245, 187, 219, 107, 233, 239, 138, 166, 24, 228, 191, 128, 115, 150, 8,
       103, 23, 30, 41, 103, 111, 139, 40, 77, 234, 106, 8, 168, 94],
      [181, 141, 144, 15, 94, 24, 46, 60, 80, 239, 116, 150, 158, 161, 108, 119, 38, 197, 73,
       117, 124, 194, 53, 35, 195, 105, 88, 125, 167, 41, 55, 132],
      [212, 154, 117, 2, 255, 207, 176, 52, 11, 29, 120, 133, 104, 133, 0, 202, 48, 129, 97,
       167, 249, 107, 98, 223, 157, 8, 59, 113, 252, 200, 242, 187],
      [143, 230, 177, 104, 146, 86, 192, 211, 133, 244, 47, 91, 190, 32, 39, 162, 44, 25, 150,
       225, 16, 186, 151, 193, 113, 211, 229, 148, 141, 233, 43, 235],
      [141, 13, 99, 195, 158, 186, 222, 133, 9, 224, 174, 60, 156, 56, 118, 251, 95, 161, 18,
       190, 24, 249, 5, 236, 172, 254, 203, 146, 5, 118, 3, 171],
      [149, 238, 200, 178, 229, 65, 202, 212, 233, 29, 227, 131, 133, 242, 224, 70, 97, 159,
       84, 73, 108, 35, 130, 203, 108, 172, 213, 185, 140, 38, 245, 164],
      [248, 147, 233, 8, 145, 119, 117, 182, 43, 255, 35, 41, 77, 187, 227, 161, 205, 142, 108,
       193, 195, 91, 72, 1, 136, 123, 100, 106, 111, 129, 241, 127],
      [205, 219, 167, 181, 146, 227, 19, 51, 147, 193, 97, 148, 250, 199, 67, 26, 191, 47, 84,
       133, 237, 113, 29, 178, 130, 24, 60, 129, 158, 8, 235, 170],
      [138, 141, 127, 227, 175, 140, 170, 8, 90, 118, 57, 168, 50, 0, 20, 87, 223, 185, 18,
       138, 128, 97, 20, 42, 208, 51, 86, 41, 255, 35, 255, 156],
      [254, 179, 195, 55, 215, 165, 26, 111, 191, 0, 185, 227, 76, 82, 225, 201, 25, 92, 150,
       155, 212, 231, 160, 191, 213, 29, 92, 91, 237, 156, 17, 103],
      [231, 31, 10, 168, 60, 195, 46, 223, 190, 250, 159, 77, 62, 1, 116, 202, 133, 24, 46,
       236, 159, 58, 9, 246, 166, 192, 223, 99, 119, 165, 16, 215],
      [49, 32, 111, 168, 10, 80, 187, 106, 190, 41, 8, 80, 88, 241, 98, 18, 33, 42, 96, 238,
       200, 240, 73, 254, 203, 146, 216, 200, 224, 168, 75, 192],
      [33, 53, 43, 254, 203, 237, 221, 233, 147, 131, 159, 97, 76, 61, 172, 10, 62, 227, 117,
       67, 249, 180, 18, 177, 97, 153, 220, 21, 142, 35, 181, 68],
      [97, 158, 49, 39, 36, 187, 109, 124, 49, 83, 237, 157, 231, 145, 215, 100, 163, 102, 179,
       137, 175, 19, 197, 139, 248, 168, 217, 4, 129, 164, 103, 101],
      [124, 221, 41, 134, 38, 130, 80, 98, 141, 12, 16, 227, 133, 197, 140, 97, 145, 230, 251,
       224, 81, 145, 188, 192, 79, 19, 63, 44, 234, 114, 193, 196],
      [132, 137, 48, 189, 123, 168, 202, 197, 70, 97, 7, 33, 19, 251, 39, 136, 105, 224, 123,
       184, 88, 127, 145, 57, 41, 51, 55, 77, 1, 123, 203, 225],
      [136, 105, 255, 44, 34, 178, 140, 193, 5, 16, 217, 133, 50, 146, 128, 51, 40, 190, 79,
       176, 232, 4, 149, 232, 187, 141, 39, 31, 91, 136, 150, 54],
      [181, 254, 40, 231, 159, 27, 133, 15, 134, 88, 36, 108, 233, 182, 161, 231, 180, 159,
       192, 109, 183, 20, 62, 143, 224, 180, 242, 176, 197, 82, 58, 92],
      [152, 94, 146, 159, 112, 175, 40, 208, 189, 209, 169, 10, 128, 143, 151, 127, 89, 124,
       124, 119, 140, 72, 158, 152, 211, 189, 137, 16, 211, 26, 192, 247]]"

section \<open>Powers of two\<close>

text \<open>The \<open>usize\<close> operations the tree uses.\<close>

fun next_power_of_two :: "nat \<Rightarrow> nat" where
  "next_power_of_two n = (if n \<le> 1 then 1 else 2 * next_power_of_two ((n + 1) div 2))"

fun trailing_zeros :: "nat \<Rightarrow> nat" where
  "trailing_zeros n = (if n = 0 then 64 else if odd n then 0 else Suc (trailing_zeros (n div 2)))"

fun bit_length :: "nat \<Rightarrow> nat" where
  "bit_length n = (if n = 0 then 0 else Suc (bit_length (n div 2)))"

definition leading_zeros :: "nat \<Rightarrow> nat" where
  "leading_zeros n = 64 - bit_length n"

definition prev_power_of_two :: "nat \<Rightarrow> nat" where
  "prev_power_of_two x = (if x = 0 then 0 else 2 ^ (64 - leading_zeros x - 1))"

declare next_power_of_two.simps [simp del] trailing_zeros.simps [simp del] bit_length.simps [simp del]

section \<open>The tree\<close>

record merkle_tree =
  nodes :: "bytes list"
  capacity :: nat
  mt_length :: nat

definition hash_two :: "hash_fn \<Rightarrow> bytes \<Rightarrow> bytes \<Rightarrow> bytes" where
  "hash_two H left right = H (left @ right)"

definition hash_value :: "hash_fn \<Rightarrow> bytes \<Rightarrow> bytes" where
  "hash_value H v = H v"

definition with_capacity :: "nat \<Rightarrow> merkle_tree option" where
  "with_capacity cap =
     (let cap = next_power_of_two cap; total_depth = trailing_zeros cap in
      if total_depth < length DEFAULT_VALUES then
        Some \<lparr> nodes = concat (map (\<lambda>(level, default_value). replicate (2 ^ level) default_value)
                               (List.enumerate 0 (rev (take (Suc total_depth) DEFAULT_VALUES)))),
               capacity = cap, mt_length = 0 \<rparr>
      else None)"

definition depth :: "merkle_tree \<Rightarrow> nat" where
  "depth t = trailing_zeros (next_power_of_two (mt_length t))"

definition root_index :: "merkle_tree \<Rightarrow> nat" where
  "root_index t =
     (let tree_depth = depth t; capacity_depth = trailing_zeros (capacity t) in
      if tree_depth = capacity_depth then 0 else 2 ^ (capacity_depth - tree_depth) - 1)"

definition get_node :: "merkle_tree \<Rightarrow> nat \<Rightarrow> bytes option" where
  "get_node t i = (if i < length (nodes t) then Some (nodes t ! i) else None)"

definition set_node :: "nat \<Rightarrow> bytes \<Rightarrow> merkle_tree \<Rightarrow> merkle_tree option" where
  "set_node i n t = (if i < length (nodes t) then Some (t\<lparr> nodes := (nodes t)[i := n] \<rparr>) else None)"

definition root :: "merkle_tree \<Rightarrow> bytes option" where
  "root t = get_node t (root_index t)"

fun copy_nodes :: "(nat \<times> bytes) list \<Rightarrow> merkle_tree \<Rightarrow> merkle_tree option" where
  "copy_nodes [] this = Some this"
| "copy_nodes ((index, v) # rest) this =
     (let offset = prev_power_of_two (index + 1); new_index = index + offset in
      case set_node new_index v this of
        None \<Rightarrow> None
      | Some this \<Rightarrow> copy_nodes rest this)"

definition reallocate_to_double_capacity :: "merkle_tree \<Rightarrow> merkle_tree option" where
  "reallocate_to_double_capacity t =
     (case with_capacity (2 * capacity t) of
        None \<Rightarrow> None
      | Some this \<Rightarrow>
          (case copy_nodes (List.enumerate 0 (nodes t)) this of
             None \<Rightarrow> None
           | Some this \<Rightarrow> Some (this\<lparr> mt_length := mt_length t \<rparr>)))"

text \<open>The \<open>for _ in 0..depth\<close> loop that refreshes the ancestors of a new leaf.\<close>

fun update_path :: "hash_fn \<Rightarrow> nat \<Rightarrow> nat \<Rightarrow> merkle_tree \<Rightarrow> merkle_tree option" where
  "update_path H 0 node_index t = Some t"
| "update_path H (Suc n) node_index t =
     (if node_index = 0 then None
      else let parent_index = (node_index - 1) div 2 in
        case (get_node t (2 * parent_index + 1), get_node t (2 * parent_index + 2)) of
          (Some left_child, Some right_child) \<Rightarrow>
            (case set_node parent_index (hash_two H left_child right_child) t of
               None \<Rightarrow> None
             | Some t \<Rightarrow> update_path H n parent_index t)
        | _ \<Rightarrow> None)"

definition insert_leaf :: "hash_fn \<Rightarrow> bytes \<Rightarrow> merkle_tree \<Rightarrow> (nat \<times> merkle_tree) option" where
  "insert_leaf H v t =
     (let new_index = mt_length t; node_index = new_index + capacity t - 1 in
      case set_node node_index (hash_value H v) t of
        None \<Rightarrow> None
      | Some t \<Rightarrow>
          (let t = t\<lparr> mt_length := mt_length t + 1 \<rparr> in
           case update_path H (depth t) node_index t of
             None \<Rightarrow> None
           | Some t \<Rightarrow> Some (new_index, t)))"

definition mt_insert :: "hash_fn \<Rightarrow> bytes \<Rightarrow> merkle_tree \<Rightarrow> (nat \<times> merkle_tree) option" where
  "mt_insert H v t =
     (case (if mt_length t = capacity t then reallocate_to_double_capacity t else Some t) of
        None \<Rightarrow> None
      | Some t \<Rightarrow> insert_leaf H v t)"

fun path_loop :: "merkle_tree \<Rightarrow> nat \<Rightarrow> nat \<Rightarrow> bytes list option" where
  "path_loop t root_idx node_index =
     (if node_index = root_idx then Some []
      else if node_index = 0 then None
      else
        let parent_index = (node_index - 1) div 2;
            is_left_child = odd node_index;
            sibling_index = (if is_left_child then node_index + 1 else node_index - 1)
        in case get_node t sibling_index of
             None \<Rightarrow> None
           | Some n \<Rightarrow> map_option (\<lambda>path. n # path) (path_loop t root_idx parent_index))"

declare path_loop.simps [simp del]

text \<open>The outer option is the panic, the inner one the returned \<open>Option\<close>.\<close>

definition get_authentication_path_for :: "merkle_tree \<Rightarrow> nat \<Rightarrow> bytes list option option" where
  "get_authentication_path_for t index =
     (if index \<ge> mt_length t then Some None
      else map_option Some (path_loop t (root_index t) (capacity t + index - 1)))"

section \<open>Specification\<close>

text \<open>
  The hash at height \<open>h\<close> and position \<open>p\<close> over a list of values: subtrees beyond the values
  carry the default of their height.
\<close>

primrec mnode :: "hash_fn \<Rightarrow> bytes list \<Rightarrow> nat \<Rightarrow> nat \<Rightarrow> bytes" where
  "mnode H vs 0 p = (if length vs \<le> p then DEFAULT_VALUES ! 0 else H (vs ! p))"
| "mnode H vs (Suc h) p =
     (if length vs \<le> p * 2 ^ Suc h then DEFAULT_VALUES ! Suc h
      else H (mnode H vs h (2 * p) @ mnode H vs h (2 * p + 1)))"

definition clog :: "nat \<Rightarrow> nat" where
  "clog n = trailing_zeros (next_power_of_two n)"

definition mroot :: "hash_fn \<Rightarrow> bytes list \<Rightarrow> bytes" where
  "mroot H vs = mnode H vs (clog (length vs)) 0"

primrec msiblings :: "hash_fn \<Rightarrow> bytes list \<Rightarrow> nat \<Rightarrow> nat \<Rightarrow> nat \<Rightarrow> bytes list" where
  "msiblings H vs h p 0 = []"
| "msiblings H vs h p (Suc n) =
     mnode H vs h (if even p then p + 1 else p - 1) # msiblings H vs (Suc h) (p div 2) n"

definition heap_pos :: "nat \<Rightarrow> nat \<Rightarrow> nat \<Rightarrow> nat" where
  "heap_pos D h p = 2 ^ (D - h) - 1 + p"

definition mt_inv :: "hash_fn \<Rightarrow> merkle_tree \<Rightarrow> bytes list \<Rightarrow> bool" where
  "mt_inv H t vs \<longleftrightarrow>
     (\<exists>D < 32. capacity t = 2 ^ D \<and> length (nodes t) = 2 ^ Suc D - 1
        \<and> mt_length t = length vs \<and> length vs \<le> 2 ^ D
        \<and> (\<forall>h \<le> D. \<forall>p < 2 ^ (D - h). length vs \<le> p * 2 ^ h \<or> h \<le> clog (length vs) \<longrightarrow>
             nodes t ! heap_pos D h p = mnode H vs h p))"

section \<open>Powers of two and array positions\<close>

lemma next_power_of_two_pow:
  "\<exists>k. next_power_of_two n = 2 ^ k \<and> (\<forall>j. k \<le> j \<longleftrightarrow> n \<le> 2 ^ j)"
proof (induction n rule: next_power_of_two.induct)
  case (1 n)
  show ?case
  proof (cases "n \<le> 1")
    case True
    then have "n \<le> 2 ^ j" for j using one_le_power [of "2::nat" j] by linarith
    with True show ?thesis by (intro exI [of _ 0]) (simp add: next_power_of_two.simps)
  next
    case False
    with 1 obtain k where k: "next_power_of_two ((n + 1) div 2) = 2 ^ k"
      "\<And>j. k \<le> j \<longleftrightarrow> (n + 1) div 2 \<le> 2 ^ j" by auto
    have "Suc k \<le> j \<longleftrightarrow> n \<le> 2 ^ j" for j
    proof (cases j)
      case 0
      with False show ?thesis by simp
    next
      case (Suc i)
      have "(n + 1) div 2 \<le> 2 ^ i \<longleftrightarrow> n \<le> 2 * 2 ^ i" by linarith
      with Suc k(2) [of i] show ?thesis by simp
    qed
    with False k(1) show ?thesis
      by (intro exI [of _ "Suc k"]) (simp add: next_power_of_two.simps [of n])
  qed
qed

lemma trailing_zeros_one [simp]: "trailing_zeros (Suc 0) = 0"
  by (subst trailing_zeros.simps) simp

lemma trailing_zeros_pow [simp]: "trailing_zeros (2 ^ k) = k"
proof (induction k)
  case (Suc k)
  then show ?case by (subst trailing_zeros.simps) simp
qed simp

lemma next_power_of_two_clog: "next_power_of_two n = 2 ^ clog n"
  and clog_le_iff: "clog n \<le> k \<longleftrightarrow> n \<le> 2 ^ k"
proof -
  obtain l where l: "next_power_of_two n = 2 ^ l" "\<And>j. l \<le> j \<longleftrightarrow> n \<le> 2 ^ j"
    using next_power_of_two_pow by blast
  then have "clog n = l" by (simp add: clog_def)
  with l show "next_power_of_two n = 2 ^ clog n" "clog n \<le> k \<longleftrightarrow> n \<le> 2 ^ k" by simp_all
qed

lemma clog_pow [simp]: "clog (2 ^ k) = k"
proof (rule antisym)
  show "clog (2 ^ k) \<le> k" by (simp add: clog_le_iff)
  have "(2::nat) ^ k \<le> 2 ^ clog (2 ^ k)" using clog_le_iff [of "2 ^ k" "clog (2 ^ k)"] by simp
  then show "k \<le> clog (2 ^ k)" by (rule power_le_imp_le_exp [rotated]) simp
qed

lemma bit_length_eq: "2 ^ l \<le> n \<Longrightarrow> n < 2 ^ Suc l \<Longrightarrow> bit_length n = Suc l"
proof (induction l arbitrary: n)
  case 0
  then have "n = 1" by simp
  then show ?case by (simp add: bit_length.simps)
next
  case (Suc l)
  have "2 ^ l \<le> n div 2" "n div 2 < 2 ^ Suc l" using Suc.prems by simp_all
  then have "bit_length (n div 2) = Suc l" by (rule Suc.IH)
  moreover have "n \<noteq> 0" using Suc.prems(1) by (cases n) simp_all
  ultimately show ?case by (simp add: bit_length.simps [of n])
qed

lemma prev_power_of_two_eq:
  "2 ^ l \<le> n \<Longrightarrow> n < 2 ^ Suc l \<Longrightarrow> l < 64 \<Longrightarrow> prev_power_of_two n = 2 ^ l"
  using bit_length_eq [of l n]
  by (auto simp: prev_power_of_two_def leading_zeros_def)

lemma pow_split: "h < D \<Longrightarrow> (2::nat) ^ (D - h) = 2 * 2 ^ (D - Suc h)"
  by (metis Suc_diff_Suc power_Suc)

text \<open>Arithmetic on positions with the powers generalised.\<close>

lemma pos_arith:
  "p < P \<Longrightarrow> P \<le> Q \<Longrightarrow> P - 1 + p < 2 * Q - (1::nat)"
  "1 \<le> P \<Longrightarrow> 2 * (P - 1 + q) + 1 = 2 * P - 1 + 2 * (q::nat)"
  "1 \<le> P \<Longrightarrow> 2 * (P - 1 + q) + 2 = 2 * P - 1 + (2 * q + (1::nat))"
  "x < P \<Longrightarrow> 2 * P \<le> Q \<Longrightarrow> P - 1 + x \<noteq> Q - 1 + (y::nat)"
  by arith+

lemma pos_bound:
  assumes "p < 2 ^ (D - h)"
  shows "heap_pos D h p < 2 ^ Suc D - 1"
  unfolding heap_pos_def power_Suc by (rule pos_arith(1) [OF assms]) (simp add: power_increasing)

lemma pos_children:
  assumes "h < D"
  shows "2 * heap_pos D (Suc h) q + 1 = heap_pos D h (2 * q)" "2 * heap_pos D (Suc h) q + 2 = heap_pos D h (2 * q + 1)"
  unfolding heap_pos_def pow_split [OF assms] by (rule pos_arith; simp)+

lemma pos_parent:
  assumes "h < D"
  shows "(heap_pos D h p - 1) div 2 = heap_pos D (Suc h) (p div 2)" "odd (heap_pos D h p) \<longleftrightarrow> even p" "heap_pos D h p \<noteq> 0"
proof -
  have *: "heap_pos D h p = 2 * heap_pos D (Suc h) (p div 2) + 1 + p mod 2"
  proof (cases "even p")
    case True
    then have "2 * (p div 2) = p" "p mod 2 = 0" by simp_all
    then show ?thesis using pos_children(1) [OF assms, of "p div 2"] by simp
  next
    case False
    then have "2 * (p div 2) + 1 = p" "p mod 2 = 1" by (simp_all add: odd_iff_mod_2_eq_one)
    then show ?thesis using pos_children(2) [OF assms, of "p div 2"] by simp
  qed
  show "(heap_pos D h p - 1) div 2 = heap_pos D (Suc h) (p div 2)" "heap_pos D h p \<noteq> 0"
    unfolding * by simp_all
  show "odd (heap_pos D h p) \<longleftrightarrow> even p" unfolding * by simp
qed

lemma pos_inj:
  assumes "p < 2 ^ (D - h)" "q < 2 ^ (D - k)" "h \<le> D" "k \<le> D"
  shows "heap_pos D h p = heap_pos D k q \<longleftrightarrow> h = k \<and> p = q"
proof
  assume eq: "heap_pos D h p = heap_pos D k q"
  have *: False if "a < b" "x < 2 ^ a" "2 ^ a - 1 + x = 2 ^ b - 1 + y" for a b x y :: nat
  proof -
    have "2 * (2::nat) ^ a \<le> 2 ^ b" using that(1) power_increasing [of "Suc a" b "2::nat"] by simp
    then show False using pos_arith(4) [OF that(2)] that(3) by blast
  qed
  have "D - h = D - k"
    using * [of "D - h" "D - k" p q] * [of "D - k" "D - h" q p] assms(1,2) eq
    unfolding heap_pos_def by (metis linorder_neqE_nat)
  then have "h = k" using assms(3,4) by simp
  moreover from this have "p = q" using eq unfolding heap_pos_def by (metis add_left_cancel)
  ultimately show "h = k \<and> p = q" by simp
qed simp

lemma pos_cover:
  assumes "i < 2 ^ Suc D - 1"
  obtains h p where "h \<le> D" "p < 2 ^ (D - h)" "i = heap_pos D h p"
proof -
  obtain l where l: "2 ^ l \<le> i + 1" "i + 1 < 2 ^ (l + 1)"
    using ex_power_ivl1 [of 2 "i + 1"] by auto
  have "(2::nat) ^ l < 2 ^ Suc D" using l(1) assms by linarith
  then have "l \<le> D" by (metis less_Suc_eq_le one_less_numeral_iff power_less_imp_less_exp semiring_norm(76))
  then have "i = heap_pos D (D - l) (i + 1 - 2 ^ l)" "i + 1 - 2 ^ l < 2 ^ (D - (D - l))"
    using l by (simp_all add: heap_pos_def)
  then show thesis using that [of "D - l" "i + 1 - 2 ^ l"] by simp
qed

section \<open>Fresh trees and reallocation\<close>

lemma level_nodes:
  fixes xs :: "'a list"
  defines "f \<equiv> \<lambda>xs :: 'a list. concat (map (\<lambda>(l, d). replicate (2 ^ l) d) (List.enumerate 0 xs))"
  shows "length (f xs) = 2 ^ length xs - 1"
    and "l < length xs \<Longrightarrow> p < 2 ^ l \<Longrightarrow> f xs ! (2 ^ l - 1 + p) = xs ! l"
proof (induction xs rule: rev_induct)
  case Nil
  show "length (f []) = 2 ^ length [] - 1" by (simp add: f_def)
  show "l < length [] \<Longrightarrow> p < 2 ^ l \<Longrightarrow> f [] ! (2 ^ l - 1 + p) = [] ! l" by simp
next
  case (snoc x xs)
  have f: "f (xs @ [x]) = f xs @ replicate (2 ^ length xs) x"
    by (simp add: f_def enumerate_append_eq)
  show "length (f (xs @ [x])) = 2 ^ length (xs @ [x]) - 1"
    using snoc(1) by (simp add: f)
  show "f (xs @ [x]) ! (2 ^ l - 1 + p) = (xs @ [x]) ! l" if l: "l < length (xs @ [x])" "p < 2 ^ l"
  proof (cases "l < length xs")
    case True
    have "2 * (2::nat) ^ l \<le> 2 ^ length xs"
      using True power_increasing [of "Suc l" "length xs" "2::nat"] by simp
    then have "2 ^ l - 1 + p < length (f xs)" using snoc(1) l(2) by linarith
    with True snoc(2) l(2) show ?thesis by (simp only: f nth_append) simp
  next
    case False
    with l have "l = length xs" by simp
    then have "2 ^ l - 1 + p = length (f xs) + p" using snoc(1) by simp
    then show ?thesis using l(2) \<open>l = length xs\<close> by (simp only: f nth_append_length_plus) simp
  qed
qed

lemma length_DEFAULT_VALUES [simp]: "length DEFAULT_VALUES = 32"
  by (simp add: DEFAULT_VALUES_def)

lemma with_capacity_pow:
  assumes "next_power_of_two cap = 2 ^ D" "D < 32"
  obtains t where "with_capacity cap = Some t" "capacity t = 2 ^ D" "mt_length t = 0"
    "length (nodes t) = 2 ^ Suc D - 1"
    "\<And>h p. h \<le> D \<Longrightarrow> p < 2 ^ (D - h) \<Longrightarrow> nodes t ! heap_pos D h p = DEFAULT_VALUES ! h"
proof -
  let ?xs = "rev (take (Suc D) DEFAULT_VALUES)"
  let ?ns = "concat (map (\<lambda>(l, d). replicate (2 ^ l) d) (List.enumerate 0 ?xs))"
  have len: "length ?xs = Suc D" using assms(2) by simp
  have "with_capacity cap = Some \<lparr> nodes = ?ns, capacity = 2 ^ D, mt_length = 0 \<rparr>"
    using assms by (simp add: with_capacity_def)
  moreover have "length ?ns = 2 ^ Suc D - 1" using level_nodes(1) [of ?xs] len by simp
  moreover have "?ns ! heap_pos D h p = DEFAULT_VALUES ! h" if "h \<le> D" "p < 2 ^ (D - h)" for h p
  proof -
    have "?ns ! (2 ^ (D - h) - 1 + p) = ?xs ! (D - h)"
      using that len by (intro level_nodes(2)) simp_all
    also have "\<dots> = DEFAULT_VALUES ! h" using that assms(2) by (simp add: rev_nth)
    finally show ?thesis by (simp add: heap_pos_def)
  qed
  ultimately show thesis using that by simp
qed

lemma clog_0 [simp]: "clog 0 = 0" and clog_1 [simp]: "clog (Suc 0) = 0"
  using clog_le_iff [of 0 0] clog_le_iff [of 1 0] by simp_all

lemma mnode_default: "length vs \<le> p * 2 ^ h \<Longrightarrow> mnode H vs h p = DEFAULT_VALUES ! h"
  by (cases h) simp_all

lemma mnode_append:
  "(p + 1) * 2 ^ h \<le> length vs \<Longrightarrow> mnode H (vs @ ws) h p = mnode H vs h p"
proof (induction h arbitrary: p)
  case 0
  then show ?case by (simp add: nth_append)
next
  case (Suc h)
  have le: "(2 * p + 2) * 2 ^ h \<le> length vs" using Suc.prems by (simp add: algebra_simps)
  have "(2 * p + 1) * 2 ^ h \<le> (2 * p + 2) * 2 ^ h" by simp
  with le have a: "(2 * p + 1) * 2 ^ h \<le> length vs" by linarith
  have "mnode H (vs @ ws) h (2 * p) = mnode H vs h (2 * p)" by (rule Suc.IH) (use a in simp)
  moreover have "mnode H (vs @ ws) h (2 * p + 1) = mnode H vs h (2 * p + 1)"
    by (rule Suc.IH) (use le in simp)
  moreover have "p * 2 ^ Suc h < (p + 1) * 2 ^ Suc h" by simp
  then have "\<not> length vs \<le> p * 2 ^ Suc h" using Suc.prems by (meson not_le order.strict_trans2)
  ultimately show ?case by simp
qed

text \<open>\<^bold>\<open>Fresh tree.\<close> It represents the empty list.\<close>

lemma with_capacity_inv:
  assumes "clog cap < 32"
  obtains t where "with_capacity cap = Some t" "mt_inv H t []"
proof -
  have "next_power_of_two cap = 2 ^ clog cap" by (rule next_power_of_two_clog)
  from with_capacity_pow [OF this assms] obtain t where t: "with_capacity cap = Some t"
    "capacity t = 2 ^ clog cap" "mt_length t = 0" "length (nodes t) = 2 ^ Suc (clog cap) - 1"
    "\<And>h p. h \<le> clog cap \<Longrightarrow> p < 2 ^ (clog cap - h) \<Longrightarrow>
      nodes t ! heap_pos (clog cap) h p = DEFAULT_VALUES ! h" by blast
  then have "mt_inv H t []"
    unfolding mt_inv_def using assms by (intro exI [of _ "clog cap"]) (simp add: mnode_default)
  with t(1) show thesis by (rule that)
qed

definition tgt :: "nat \<Rightarrow> nat" where
  "tgt i = i + prev_power_of_two (i + 1)"

lemma tgt_pos: "h \<le> D \<Longrightarrow> D < 32 \<Longrightarrow> p < 2 ^ (D - h) \<Longrightarrow> tgt (heap_pos D h p) = heap_pos (Suc D) h p"
proof -
  assume a: "h \<le> D" "D < 32" "p < 2 ^ (D - h)"
  have "prev_power_of_two (heap_pos D h p + 1) = 2 ^ (D - h)"
    using a by (intro prev_power_of_two_eq) (simp_all add: heap_pos_def)
  then show ?thesis using a by (simp add: tgt_def heap_pos_def Suc_diff_le)
qed

lemma copy_nodes_enumerate:
  assumes "\<forall>k < length xs. tgt (n + k) < length (nodes this)" "inj_on tgt {n..<n + length xs}"
  shows "\<exists>ns. copy_nodes (List.enumerate n xs) this = Some (this\<lparr> nodes := ns \<rparr>)
    \<and> length ns = length (nodes this) \<and> (\<forall>k < length xs. ns ! tgt (n + k) = xs ! k)
    \<and> (\<forall>j. j \<notin> tgt ` {n..<n + length xs} \<longrightarrow> ns ! j = nodes this ! j)"
  using assms
proof (induction xs arbitrary: n this)
  case Nil
  show ?case by (intro exI [of _ "nodes this"]) simp
next
  case (Cons x xs)
  let ?u = "this\<lparr> nodes := (nodes this)[tgt n := x] \<rparr>"
  have n: "tgt n < length (nodes this)" using Cons.prems(1) by force
  have set: "set_node (tgt n) x this = Some ?u" using n by (simp add: set_node_def)
  have sub: "{Suc n..<Suc n + length xs} \<subseteq> {n..<n + length (x # xs)}" by auto
  have "\<forall>k < length xs. tgt (Suc n + k) < length (nodes ?u)"
    using Cons.prems(1) by force
  with Cons.IH [of "Suc n" ?u] inj_on_subset [OF Cons.prems(2) sub]
  obtain ns where ns: "copy_nodes (List.enumerate (Suc n) xs) ?u = Some (?u\<lparr> nodes := ns \<rparr>)"
    "length ns = length (nodes this)" "\<And>k. k < length xs \<Longrightarrow> ns ! tgt (Suc n + k) = xs ! k"
    "\<And>j. j \<notin> tgt ` {Suc n..<Suc n + length xs} \<Longrightarrow> ns ! j = (nodes this)[tgt n := x] ! j"
    by auto
  have "tgt n \<notin> tgt ` {Suc n..<Suc n + length xs}"
    using Cons.prems(2) sub by (auto dest!: inj_onD [of _ _ n])
  then have "ns ! tgt (n + k) = (x # xs) ! k" if "k < length (x # xs)" for k
    using that ns(3) [of "k - 1"] ns(4) [of "tgt n"] n by (cases k) simp_all
  moreover have "ns ! j = nodes this ! j" if "j \<notin> tgt ` {n..<n + length (x # xs)}" for j
  proof -
    have "j \<noteq> tgt n" "j \<notin> tgt ` {Suc n..<Suc n + length xs}" using that by auto
    then show ?thesis using ns(4) by simp
  qed
  moreover have "copy_nodes (List.enumerate n (x # xs)) this = Some (this\<lparr> nodes := ns \<rparr>)"
    using set ns(1) by (simp add: tgt_def)
  ultimately show ?case using ns(2) by blast
qed

lemma pow_Suc_diff_less: "p < 2 ^ (D - h) \<Longrightarrow> p < (2::nat) ^ (Suc D - h)"
  by (erule less_le_trans, rule power_increasing) (simp_all add: diff_le_mono)

lemma tgt_cover:
  assumes "D < 32" "i < 2 ^ Suc D - 1"
  obtains h p where "h \<le> D" "p < 2 ^ (D - h)" "i = heap_pos D h p" "tgt i = heap_pos (Suc D) h p"
proof -
  obtain h p where "h \<le> D" "p < 2 ^ (D - h)" "i = heap_pos D h p" using pos_cover [OF assms(2)] .
  with that tgt_pos assms(1) show thesis by blast
qed

lemma tgt_bound: "D < 32 \<Longrightarrow> i < 2 ^ Suc D - 1 \<Longrightarrow> tgt i < 2 ^ Suc (Suc D) - 1"
  by (metis tgt_cover pow_Suc_diff_less pos_bound)

lemma tgt_inj:
  assumes "D < 32"
  shows "inj_on tgt {0..<2 ^ Suc D - 1}"
proof (rule inj_onI)
  fix i j assume ij: "i \<in> {0..<2 ^ Suc D - 1}" "j \<in> {0..<2 ^ Suc D - 1}" "tgt i = tgt j"
  then have "i < 2 ^ Suc D - 1" "j < 2 ^ Suc D - 1" by auto
  then obtain h p k q where "h \<le> D" "p < 2 ^ (D - h)" "i = heap_pos D h p" "tgt i = heap_pos (Suc D) h p"
    "k \<le> D" "q < 2 ^ (D - k)" "j = heap_pos D k q" "tgt j = heap_pos (Suc D) k q"
    by (metis tgt_cover [OF assms])
  then show "i = j" using ij(3) pos_inj [of p "Suc D" h q k] pow_Suc_diff_less by auto
qed

lemma tgt_outside:
  assumes "D < 32" "h \<le> Suc D" "p < 2 ^ (Suc D - h)" "\<not> (h \<le> D \<and> p < 2 ^ (D - h))"
  shows "heap_pos (Suc D) h p \<notin> tgt ` {0..<2 ^ Suc D - 1}"
proof
  assume "heap_pos (Suc D) h p \<in> tgt ` {0..<2 ^ Suc D - 1}"
  then obtain i where "i < 2 ^ Suc D - 1" "heap_pos (Suc D) h p = tgt i" by auto
  then obtain k q where "k \<le> D" "q < 2 ^ (D - k)" "heap_pos (Suc D) h p = heap_pos (Suc D) k q"
    by (metis tgt_cover [OF assms(1)])
  with assms pos_inj [of p "Suc D" h q k] pow_Suc_diff_less show False by auto
qed

text \<open>\<^bold>\<open>Reallocation.\<close> The doubled tree still represents the same list.\<close>

lemma reallocate_inv:
  assumes inv: "mt_inv H t vs" and len: "length vs = capacity t" "length vs < 2 ^ 31"
  obtains t' where "reallocate_to_double_capacity t = Some t'" "mt_inv H t' vs"
    "capacity t' = 2 * capacity t"
proof -
  obtain D where D: "D < 32" "capacity t = 2 ^ D" "length (nodes t) = 2 ^ Suc D - 1"
    "mt_length t = length vs" and old: "\<And>h p. h \<le> D \<Longrightarrow> p < 2 ^ (D - h) \<Longrightarrow>
      length vs \<le> p * 2 ^ h \<or> h \<le> clog (length vs) \<Longrightarrow> nodes t ! heap_pos D h p = mnode H vs h p"
    using inv unfolding mt_inv_def by blast
  have vs: "length vs = 2 ^ D" using len D by simp
  have "(2::nat) ^ D < 2 ^ 31" using vs len(2) by simp
  then have D31: "Suc D < 32" using power_less_imp_less_exp [of "2::nat" D 31] by simp
  have "next_power_of_two (2 * capacity t) = 2 ^ Suc D"
    using D(2) by (simp add: next_power_of_two_clog flip: power_Suc)
  from with_capacity_pow [OF this D31] obtain u where u: "with_capacity (2 * capacity t) = Some u"
    "capacity u = 2 ^ Suc D" "length (nodes u) = 2 ^ Suc (Suc D) - 1"
    "\<And>h p. h \<le> Suc D \<Longrightarrow> p < 2 ^ (Suc D - h) \<Longrightarrow> nodes u ! heap_pos (Suc D) h p = DEFAULT_VALUES ! h"
    by blast
  obtain ns where ns: "copy_nodes (List.enumerate 0 (nodes t)) u = Some (u\<lparr>nodes := ns\<rparr>)"
    "length ns = length (nodes u)" "\<And>k. k < length (nodes t) \<Longrightarrow> ns ! tgt k = nodes t ! k"
    "\<And>j. j \<notin> tgt ` {0..<length (nodes t)} \<Longrightarrow> ns ! j = nodes u ! j"
    using copy_nodes_enumerate [of "nodes t" 0 u] tgt_bound tgt_inj D(1,3) u(3) by auto
  have new: "ns ! heap_pos (Suc D) h p = mnode H vs h p" if hp: "h \<le> Suc D" "p < 2 ^ (Suc D - h)"
    "length vs \<le> p * 2 ^ h \<or> h \<le> clog (length vs)" for h p
  proof (cases "h \<le> D \<and> p < 2 ^ (D - h)")
    case True
    then have "ns ! heap_pos (Suc D) h p = nodes t ! heap_pos D h p"
      using ns(3) [of "heap_pos D h p"] tgt_pos D(1,3) pos_bound by metis
    with True old hp(3) show ?thesis by simp
  next
    case out: False
    have "2 ^ (D - h) * 2 ^ h \<le> p * 2 ^ h" if "h \<le> D" using out that by simp
    then have "length vs \<le> p * 2 ^ h" using hp(3) vs by (cases "h \<le> D") (simp_all flip: power_add)
    moreover have "ns ! heap_pos (Suc D) h p = DEFAULT_VALUES ! h"
      using ns(4) tgt_outside [OF D(1) hp(1,2) out] u(4) hp(1,2) D(3) by simp
    ultimately show ?thesis by (simp add: mnode_default)
  qed
  have "reallocate_to_double_capacity t = Some (u\<lparr>nodes := ns, mt_length := length vs\<rparr>)"
    using u(1) ns(1) D(4) by (simp add: reallocate_to_double_capacity_def)
  moreover have "mt_inv H (u\<lparr>nodes := ns, mt_length := length vs\<rparr>) vs"
    unfolding mt_inv_def using D31 u(2,3) ns(2) vs new by (intro exI [of _ "Suc D"]) simp
  ultimately show thesis using that u(2) D(2) by simp
qed

section \<open>Insertion\<close>

text \<open>
  While the ancestors of a new leaf are refreshed, the array agrees with the new list except on
  the part of the path above the current height.
\<close>

definition path_inv :: "hash_fn \<Rightarrow> nat \<Rightarrow> bytes list \<Rightarrow> nat \<Rightarrow> nat \<Rightarrow> merkle_tree \<Rightarrow> bool" where
  "path_inv H D vs i h t \<longleftrightarrow>
     length (nodes t) = 2 ^ Suc D - 1
   \<and> (\<forall>k \<le> D. \<forall>p < 2 ^ (D - k). (p \<noteq> i div 2 ^ k \<or> k \<le> h)
        \<and> (length vs \<le> p * 2 ^ k \<or> k \<le> clog (length vs)) \<longrightarrow> nodes t ! heap_pos D k p = mnode H vs k p)"

lemma div_pow_less: "i < 2 ^ D \<Longrightarrow> h \<le> D \<Longrightarrow> i div 2 ^ h < 2 ^ (D - (h::nat))" for i :: nat
  by (simp add: less_mult_imp_div_less flip: power_add)

lemma div_pow_Suc: "i div 2 ^ Suc h = i div 2 ^ h div 2" for i :: nat
  by (metis div_mult2_eq power_Suc2)

lemma path_inv_step:
  assumes inv: "path_inv H D vs i h t" and i: "i < length vs" "length vs \<le> 2 ^ D"
    and h: "Suc h \<le> clog (length vs)"
  defines "q \<equiv> i div 2 ^ Suc h"
  shows "get_node t (2 * heap_pos D (Suc h) q + 1) = Some (mnode H vs h (2 * q))"
    "get_node t (2 * heap_pos D (Suc h) q + 2) = Some (mnode H vs h (2 * q + 1))"
    "\<exists>t'. set_node (heap_pos D (Suc h) q) (mnode H vs (Suc h) q) t = Some t'
       \<and> path_inv H D vs i (Suc h) t' \<and> capacity t' = capacity t \<and> mt_length t' = mt_length t"
    "mnode H vs (Suc h) q = hash_two H (mnode H vs h (2 * q)) (mnode H vs h (2 * q + 1))"
proof -
  have hD: "h < D" using h i(2) clog_le_iff [of "length vs" D] by simp
  have "i < 2 ^ D" using i by simp
  then have q: "q < 2 ^ (D - Suc h)" unfolding q_def using hD by (intro div_pow_less) simp_all
  then have c: "2 * q < 2 ^ (D - h)" "2 * q + 1 < 2 ^ (D - h)" unfolding pow_split [OF hD] by linarith+
  have len: "length (nodes t) = 2 ^ Suc D - 1" using inv by (simp add: path_inv_def)
  have old: "nodes t ! heap_pos D k p = mnode H vs k p" if "k \<le> D" "p < 2 ^ (D - k)"
    "p \<noteq> i div 2 ^ k \<or> k \<le> h" "length vs \<le> p * 2 ^ k \<or> k \<le> clog (length vs)" for k p
    using inv that unfolding path_inv_def by blast
  show "get_node t (2 * heap_pos D (Suc h) q + 1) = Some (mnode H vs h (2 * q))"
    "get_node t (2 * heap_pos D (Suc h) q + 2) = Some (mnode H vs h (2 * q + 1))"
    unfolding pos_children [OF hD] get_node_def len
    using c old [of h] h hD pos_bound [OF c(1)] pos_bound [OF c(2)] by simp_all
  let ?t = "t\<lparr> nodes := (nodes t)[heap_pos D (Suc h) q := mnode H vs (Suc h) q] \<rparr>"
  have "nodes ?t ! heap_pos D k p = mnode H vs k p" if "k \<le> D" "p < 2 ^ (D - k)"
    "p \<noteq> i div 2 ^ k \<or> k \<le> Suc h" "length vs \<le> p * 2 ^ k \<or> k \<le> clog (length vs)" for k p
  proof (cases "k = Suc h \<and> p = q")
    case True
    then show ?thesis using pos_bound [OF q] len by (simp del: mnode.simps power_Suc)
  next
    case False
    then have "p \<noteq> i div 2 ^ k \<or> k \<le> h" using that(3) unfolding q_def by (metis le_Suc_eq)
    then have "nodes t ! heap_pos D k p = mnode H vs k p" using old that(1,2,4) by blast
    moreover have "heap_pos D k p \<noteq> heap_pos D (Suc h) q"
      using False pos_inj [of p D k q "Suc h"] that(1,2) q hD by simp
    ultimately show ?thesis by (simp del: mnode.simps)
  qed
  then have "path_inv H D vs i (Suc h) ?t" using len unfolding path_inv_def by simp
  moreover have "set_node (heap_pos D (Suc h) q) (mnode H vs (Suc h) q) t = Some ?t"
    using pos_bound [OF q] len by (simp add: set_node_def)
  ultimately show "\<exists>t'. set_node (heap_pos D (Suc h) q) (mnode H vs (Suc h) q) t = Some t'
       \<and> path_inv H D vs i (Suc h) t' \<and> capacity t' = capacity t \<and> mt_length t' = mt_length t"
    by simp
  have "q * 2 ^ Suc h \<le> i" unfolding q_def by (rule div_times_less_eq_dividend)
  then show "mnode H vs (Suc h) q = hash_two H (mnode H vs h (2 * q)) (mnode H vs h (2 * q + 1))"
    using i(1) by (simp add: hash_two_def)
qed

lemma update_path_inv:
  assumes "path_inv H D vs i h t" "i < length vs" "length vs \<le> 2 ^ D" "h + n \<le> clog (length vs)"
  shows "\<exists>t'. update_path H n (heap_pos D h (i div 2 ^ h)) t = Some t' \<and> path_inv H D vs i (h + n) t'
    \<and> capacity t' = capacity t \<and> mt_length t' = mt_length t"
  using assms
proof (induction n arbitrary: h t)
  case (Suc n)
  have h: "Suc h \<le> clog (length vs)" "h < D"
    using Suc.prems clog_le_iff [of "length vs" D] by simp_all
  note step = path_inv_step [OF Suc.prems(1-3) h(1)]
  obtain t1 where t1: "set_node (heap_pos D (Suc h) (i div 2 ^ Suc h)) (mnode H vs (Suc h) (i div 2 ^ Suc h)) t = Some t1"
    "path_inv H D vs i (Suc h) t1" "capacity t1 = capacity t" "mt_length t1 = mt_length t"
    using step(3) by blast
  have par: "(heap_pos D h (i div 2 ^ h) - 1) div 2 = heap_pos D (Suc h) (i div 2 ^ Suc h)"
    using pos_parent(1) [OF h(2)] by (simp only: div_pow_Suc)
  have "update_path H (Suc n) (heap_pos D h (i div 2 ^ h)) t
      = update_path H n (heap_pos D (Suc h) (i div 2 ^ Suc h)) t1"
    by (simp only: update_path.simps Let_def par step(1,2) step(4) [symmetric] t1(1)
        pos_parent(3) [OF h(2)] prod.case option.case if_False)
  with Suc.IH [OF t1(2)] Suc.prems(2-4) t1(3,4) show ?case by simp
qed simp

lemma path_inv_leaf:
  assumes old: "\<And>h p. h \<le> D \<Longrightarrow> p < 2 ^ (D - h) \<Longrightarrow> length vs \<le> p * 2 ^ h \<or> h \<le> clog (length vs) \<Longrightarrow>
      nodes t ! heap_pos D h p = mnode H vs h p"
    and len: "length (nodes t) = 2 ^ Suc D - 1" "length vs < 2 ^ D"
  shows "path_inv H D (vs @ [v]) (length vs) 0
    (t\<lparr> nodes := (nodes t)[heap_pos D 0 (length vs) := H v], mt_length := n \<rparr>)"
proof -
  let ?i = "length vs"
  have b: "heap_pos D 0 ?i < length (nodes t)" using pos_bound [of ?i D 0] len by simp
  have "(nodes t)[heap_pos D 0 ?i := H v] ! heap_pos D k p = mnode H (vs @ [v]) k p"
    if k: "k \<le> D" "p < 2 ^ (D - k)" "p \<noteq> ?i div 2 ^ k \<or> k \<le> 0" for k p
  proof (cases "k = 0 \<and> p = ?i")
    case True
    with b show ?thesis by simp
  next
    case False
    with k(3) have ne: "p \<noteq> ?i div 2 ^ k" by auto
    have "heap_pos D k p \<noteq> heap_pos D 0 ?i" using False pos_inj [of p D k ?i 0] k len(2) by simp
    then have "(nodes t)[heap_pos D 0 ?i := H v] ! heap_pos D k p = nodes t ! heap_pos D k p" by simp
    moreover have "nodes t ! heap_pos D k p = mnode H (vs @ [v]) k p"
    proof (cases "?i < p * 2 ^ k")
      case True
      then have a: "length vs \<le> p * 2 ^ k" "length (vs @ [v]) \<le> p * 2 ^ k" by simp_all
      with old [OF k(1,2)] show ?thesis using mnode_default [OF a(1)] mnode_default [OF a(2)] by metis
    next
      case False
      then have "p \<le> ?i div 2 ^ k" by (simp add: less_eq_div_iff_mult_less_eq)
      with ne have "p + 1 \<le> ?i div 2 ^ k" by linarith
      then have le: "(p + 1) * 2 ^ k \<le> ?i"
        using less_eq_div_iff_mult_less_eq [of "2 ^ k" "p + 1" ?i] by simp
      moreover have "2 ^ k \<le> (p + 1) * 2 ^ k" by simp
      ultimately have "(2::nat) ^ k \<le> 2 ^ clog ?i" using clog_le_iff [of ?i "clog ?i"] by linarith
      then have "k \<le> clog ?i" by (rule power_le_imp_le_exp [rotated]) simp
      with old [OF k(1,2)] mnode_append [OF le] show ?thesis by metis
    qed
    ultimately show ?thesis by simp
  qed
  with len(1) show ?thesis unfolding path_inv_def by simp
qed

lemma insert_leaf_inv:
  assumes inv: "mt_inv H t vs" and free: "length vs < capacity t"
  obtains t' where "insert_leaf H v t = Some (length vs, t')" "mt_inv H t' (vs @ [v])"
    "capacity t' = capacity t"
proof -
  obtain D where D: "D < 32" "capacity t = 2 ^ D" "length (nodes t) = 2 ^ Suc D - 1"
    "mt_length t = length vs" and old: "\<And>h p. h \<le> D \<Longrightarrow> p < 2 ^ (D - h) \<Longrightarrow>
      length vs \<le> p * 2 ^ h \<or> h \<le> clog (length vs) \<Longrightarrow> nodes t ! heap_pos D h p = mnode H vs h p"
    using inv unfolding mt_inv_def by blast
  have lt: "length vs < 2 ^ D" using free D(2) by simp
  let ?t = "t\<lparr> nodes := (nodes t)[heap_pos D 0 (length vs) := H v], mt_length := length (vs @ [v]) \<rparr>"
  let ?c = "clog (length (vs @ [v]))"
  have "path_inv H D (vs @ [v]) (length vs) 0 ?t" by (rule path_inv_leaf [OF old D(3) lt])
  from update_path_inv [OF this, of ?c] obtain t' where t':
    "update_path H ?c (heap_pos D 0 (length vs)) ?t = Some t'" "path_inv H D (vs @ [v]) (length vs) ?c t'"
    "capacity t' = capacity t" "mt_length t' = length (vs @ [v])"
    using lt by auto
  have "heap_pos D 0 (length vs) < length (nodes t)" using pos_bound [of "length vs" D 0] lt D(3) by simp
  moreover have "length vs + capacity t - 1 = heap_pos D 0 (length vs)" using D(2) by (simp add: heap_pos_def)
  ultimately have "insert_leaf H v t = Some (length vs, t')"
    using t'(1) D(4) by (simp add: insert_leaf_def set_node_def hash_value_def depth_def clog_def)
  moreover have "mt_inv H t' (vs @ [v])"
  proof -
    have "nodes t' ! heap_pos D k p = mnode H (vs @ [v]) k p" if k: "k \<le> D" "p < 2 ^ (D - k)"
      "length (vs @ [v]) \<le> p * 2 ^ k \<or> k \<le> ?c" for k p
    proof -
      have "\<not> length (vs @ [v]) \<le> length vs div 2 ^ k * 2 ^ k" by (simp add: Suc_le_eq not_less)
      with k(3) have "p \<noteq> length vs div 2 ^ k \<or> k \<le> ?c" by blast
      with t'(2) k show ?thesis unfolding path_inv_def by blast
    qed
    moreover have "length (nodes t') = 2 ^ Suc D - 1" using t'(2) by (simp add: path_inv_def)
    ultimately show ?thesis
      unfolding mt_inv_def using D(1,2) t'(3,4) lt by (intro exI [of _ D]) simp
  qed
  ultimately show thesis using that t'(3) by blast
qed

text \<open>\<^bold>\<open>Insertion\<close> appends to the represented list and returns the index of the new value.\<close>

lemma mt_insert_inv:
  assumes "mt_inv H t vs" and "length vs < 2 ^ 31"
  obtains t' where "mt_insert H v t = Some (length vs, t')" "mt_inv H t' (vs @ [v])"
proof (cases "mt_length t = capacity t")
  case True
  with assms(1) have "length vs = capacity t" by (auto simp: mt_inv_def)
  from reallocate_inv [OF assms(1) this assms(2)] obtain u where u:
    "reallocate_to_double_capacity t = Some u" "mt_inv H u vs" "capacity u = 2 * capacity t" .
  have "length vs < capacity u" using u(3) \<open>length vs = capacity t\<close> assms(1) by (auto simp: mt_inv_def)
  from insert_leaf_inv [OF u(2) this] obtain t' where
    "insert_leaf H v u = Some (length vs, t')" "mt_inv H t' (vs @ [v])" by metis
  with True u(1) that show thesis by (simp add: mt_insert_def)
next
  case False
  with assms(1) have "length vs < capacity t" by (auto simp: mt_inv_def)
  from insert_leaf_inv [OF assms(1) this] obtain t' where
    "insert_leaf H v t = Some (length vs, t')" "mt_inv H t' (vs @ [v])" by metis
  with False that show thesis by (simp add: mt_insert_def)
qed

section \<open>Roots and authentication paths\<close>

lemma mt_inv_length: "mt_inv H t vs \<Longrightarrow> mt_length t = length vs"
  by (auto simp: mt_inv_def)

lemma root_index_pos:
  "capacity t = 2 ^ D \<Longrightarrow> mt_length t = n \<Longrightarrow> root_index t = heap_pos D (clog n) 0"
  by (simp add: root_index_def depth_def heap_pos_def Let_def flip: clog_def)

text \<open>\<^bold>\<open>Root.\<close> The stored root is the root of the represented list.\<close>

lemma root_inv: "mt_inv H t vs \<Longrightarrow> root t = Some (mroot H vs)"
proof -
  assume "mt_inv H t vs"
  then obtain D where D: "capacity t = 2 ^ D" "length (nodes t) = 2 ^ Suc D - 1"
    "mt_length t = length vs" "length vs \<le> 2 ^ D" and old: "\<And>h p. h \<le> D \<Longrightarrow> p < 2 ^ (D - h) \<Longrightarrow>
      length vs \<le> p * 2 ^ h \<or> h \<le> clog (length vs) \<Longrightarrow> nodes t ! heap_pos D h p = mnode H vs h p"
    unfolding mt_inv_def by blast
  have c: "clog (length vs) \<le> D" using D(4) by (simp add: clog_le_iff)
  have "heap_pos D (clog (length vs)) 0 < length (nodes t)" unfolding D(2) by (rule pos_bound) simp
  then show ?thesis
    using old [OF c, of 0] by (simp add: root_def get_node_def mroot_def root_index_pos [OF D(1,3)])
qed

lemma path_loop_msiblings:
  assumes len: "length (nodes t) = 2 ^ Suc D - 1"
    and old: "\<And>h p. h \<le> D \<Longrightarrow> p < 2 ^ (D - h) \<Longrightarrow> h \<le> d \<Longrightarrow> nodes t ! heap_pos D h p = mnode H vs h p"
    and "d \<le> D" "h + n = d" "p < 2 ^ n"
  shows "path_loop t (heap_pos D d 0) (heap_pos D h p) = Some (msiblings H vs h p n)"
  using assms(3-)
proof (induction n arbitrary: h p)
  case 0
  then show ?case by (simp add: path_loop.simps)
next
  case (Suc n)
  have h: "h < D" "h < d" using Suc.prems by simp_all
  have "Suc n \<le> D - h" using Suc.prems by simp
  then have "(2::nat) ^ Suc n \<le> 2 ^ (D - h)" by (rule power_increasing) simp
  with Suc.prems(3) have p: "p < 2 ^ (D - h)" by (rule less_le_trans)
  have ne: "heap_pos D h p \<noteq> heap_pos D d 0" using pos_inj [of p D h 0 d] p h Suc.prems(1) by simp
  let ?s = "if even p then p + 1 else p - 1"
  have s: "?s < 2 ^ (D - h)"
    using p unfolding pow_split [OF h(1)] by (auto elim!: evenE)
  have idx: "(if odd (heap_pos D h p) then heap_pos D h p + 1 else heap_pos D h p - 1) = heap_pos D h ?s"
    unfolding pos_parent(2) [OF h(1)] by (auto simp: heap_pos_def elim!: oddE)
  have "get_node t (heap_pos D h ?s) = Some (mnode H vs h ?s)"
    using pos_bound [OF s] len old [of h ?s] s h by (simp add: get_node_def)
  moreover have "path_loop t (heap_pos D d 0) (heap_pos D (Suc h) (p div 2)) = Some (msiblings H vs (Suc h) (p div 2) n)"
    using Suc.prems by (intro Suc.IH) simp_all
  ultimately show ?case
    using ne pos_parent(1,3) [OF h(1)]
    by (subst path_loop.simps) (simp only: Let_def idx if_False option.case option.map msiblings.simps)
qed

lemma digest_loop_msiblings:
  assumes "p * 2 ^ h < length vs"
  shows "digest_loop H (mnode H vs h p) p (msiblings H vs h p n) = mnode H vs (h + n) (p div 2 ^ n)"
  using assms
proof (induction n arbitrary: h p)
  case (Suc n)
  have "p div 2 * 2 ^ Suc h \<le> p * 2 ^ h"
    using mult_le_mono1 [of "p div 2 * 2" p "2 ^ h"] by (simp add: mult.assoc)
  then have lt: "p div 2 * 2 ^ Suc h < length vs" using Suc.prems by linarith
  have "(if even p then H (mnode H vs h p @ mnode H vs h (p + 1)) else H (mnode H vs h (p - 1) @ mnode H vs h p))
      = mnode H vs (Suc h) (p div 2)"
    using lt by (cases "even p") (auto elim!: evenE oddE)
  then have "digest_loop H (mnode H vs h p) p (msiblings H vs h p (Suc n))
      = digest_loop H (mnode H vs (Suc h) (p div 2)) (p div 2) (msiblings H vs (Suc h) (p div 2) n)"
    by (cases "even p") simp_all
  also have "\<dots> = mnode H vs (h + Suc n) (p div 2 ^ Suc n)"
    unfolding Suc.IH [OF lt] by (simp add: div_mult2_eq)
  finally show ?case .
qed simp

text \<open>
  \<^bold>\<open>Authentication paths.\<close> Every inserted index has one, its length is the depth of the tree, and
  folding it with the value gives the root.
\<close>

lemma path_inv_correct:
  assumes inv: "mt_inv H t vs" and i: "i < length vs"
  obtains path where "get_authentication_path_for t i = Some (Some path)"
    "length path = clog (length vs)" "compute_digest_for_path H (vs ! i) (i, path) = mroot H vs"
proof -
  obtain D where D: "capacity t = 2 ^ D" "length (nodes t) = 2 ^ Suc D - 1"
    "mt_length t = length vs" "length vs \<le> 2 ^ D" and old: "\<And>h p. h \<le> D \<Longrightarrow> p < 2 ^ (D - h) \<Longrightarrow>
      length vs \<le> p * 2 ^ h \<or> h \<le> clog (length vs) \<Longrightarrow> nodes t ! heap_pos D h p = mnode H vs h p"
    using inv unfolding mt_inv_def by blast
  let ?d = "clog (length vs)"
  have d: "?d \<le> D" "length vs \<le> 2 ^ ?d" using D(4) by (simp_all flip: clog_le_iff)
  have "path_loop t (heap_pos D ?d 0) (heap_pos D 0 i) = Some (msiblings H vs 0 i ?d)"
    using D(2) old d i by (intro path_loop_msiblings) simp_all
  moreover have "capacity t + i - 1 = heap_pos D 0 i" using D(1) by (simp add: heap_pos_def)
  ultimately have "get_authentication_path_for t i = Some (Some (msiblings H vs 0 i ?d))"
    using i D(3) by (simp add: get_authentication_path_for_def root_index_pos [OF D(1,3)])
  moreover have "length (msiblings H vs h p n) = n" for h p n
    by (induction n arbitrary: h p) simp_all
  moreover have "compute_digest_for_path H (vs ! i) (i, msiblings H vs 0 i ?d) = mroot H vs"
    using digest_loop_msiblings [of i 0 vs H ?d] i d(2)
    by (simp add: compute_digest_for_path_def mroot_def)
  ultimately show thesis using that by blast
qed

lemma path_none: "mt_inv H t vs \<Longrightarrow> length vs \<le> i \<Longrightarrow> get_authentication_path_for t i = Some None"
  by (simp add: get_authentication_path_for_def mt_inv_length)

text \<open>
  When the table of defaults is the one the hash generates, the tree is the ordinary Merkle
  tree over the leaves padded with zero hashes.
\<close>

primrec padded_node :: "hash_fn \<Rightarrow> bytes list \<Rightarrow> nat \<Rightarrow> nat \<Rightarrow> bytes" where
  "padded_node H vs 0 p = (if p < length vs then H (vs ! p) else replicate 32 0)"
| "padded_node H vs (Suc h) p = H (padded_node H vs h (2 * p) @ padded_node H vs h (2 * p + 1))"

definition default_chain :: "hash_fn \<Rightarrow> bool" where
  "default_chain H \<longleftrightarrow>
     (\<forall>h < 31. DEFAULT_VALUES ! Suc h = H (DEFAULT_VALUES ! h @ DEFAULT_VALUES ! h))"

lemma DEFAULT_VALUES_0: "DEFAULT_VALUES ! 0 = replicate 32 0"
  by (simp add: DEFAULT_VALUES_def numeral_eq_Suc)

lemma mnode_padded:
  "default_chain H \<Longrightarrow> h < 32 \<Longrightarrow> mnode H vs h p = padded_node H vs h p"
proof (induction h arbitrary: p)
  case 0
  show ?case by (simp add: DEFAULT_VALUES_0)
next
  case (Suc h)
  have IH: "padded_node H vs h q = mnode H vs h q" for q using Suc by simp
  show ?case
  proof (cases "length vs \<le> p * 2 ^ Suc h")
    case True
    then have a: "length vs \<le> 2 * p * 2 ^ h" "length vs \<le> (2 * p + 1) * 2 ^ h" by (simp_all add: ac_simps)
    have "mnode H vs (Suc h) p = H (DEFAULT_VALUES ! h @ DEFAULT_VALUES ! h)"
      unfolding mnode_default [OF True] using Suc.prems by (simp add: default_chain_def)
    then show ?thesis
      unfolding padded_node.simps IH mnode_default [OF a(1)] mnode_default [OF a(2)] .
  next
    case False
    then show ?thesis unfolding padded_node.simps IH by simp
  qed
qed

section \<open>Interface\<close>

text \<open>
  What a client of an append-only authenticated list relies on: \<open>repr t vs\<close> says that the
  structure holds the values \<open>vs\<close> in order, \<open>digest\<close> is the digest of a list of values and \<open>check\<close>
  recomputes a digest from a value and its proof.
\<close>

locale authenticated_list =
  fixes repr :: "'t \<Rightarrow> 'v list \<Rightarrow> bool"
    and insert_val :: "'v \<Rightarrow> 't \<Rightarrow> (nat \<times> 't) option"
    and root_of :: "'t \<Rightarrow> 'd option"
    and path_of :: "'t \<Rightarrow> nat \<Rightarrow> 'p option option"
    and check :: "'v \<Rightarrow> nat \<times> 'p \<Rightarrow> 'd"
    and digest_of :: "'v list \<Rightarrow> 'd"
    and bound :: nat
  assumes insert_repr: "repr t vs \<Longrightarrow> length vs < bound \<Longrightarrow>
      \<exists>t'. insert_val v t = Some (length vs, t') \<and> repr t' (vs @ [v])"
    and root_repr: "repr t vs \<Longrightarrow> root_of t = Some (digest_of vs)"
    and path_repr: "repr t vs \<Longrightarrow> i < length vs \<Longrightarrow>
      \<exists>p. path_of t i = Some (Some p) \<and> check (vs ! i) (i, p) = digest_of vs"
    and path_outside: "repr t vs \<Longrightarrow> length vs \<le> i \<Longrightarrow> path_of t i = Some None"
begin

fun insert_all :: "'v list \<Rightarrow> 't \<Rightarrow> 't option" where
  "insert_all [] t = Some t"
| "insert_all (v # vs) t = Option.bind (insert_val v t) (\<lambda>(_, t). insert_all vs t)"

lemma insert_all_repr:
  "repr t vs \<Longrightarrow> length vs + length ws \<le> bound \<Longrightarrow>
    \<exists>t'. insert_all ws t = Some t' \<and> repr t' (vs @ ws)"
proof (induction ws arbitrary: t vs)
  case (Cons w ws)
  then obtain u where u: "insert_val w t = Some (length vs, u)" "repr u (vs @ [w])"
    using insert_repr [of t vs w] by auto
  with Cons.IH [OF u(2)] Cons.prems(2) show ?case by simp
qed simp

text \<open>A value inserted at some time keeps a valid proof after any number of later insertions.\<close>

lemma proof_survives:
  assumes "repr t vs" "length vs + length ws < bound"
  obtains u t' p where "insert_val v t = Some (length vs, u)" "insert_all ws u = Some t'"
    "path_of t' (length vs) = Some (Some p)" "root_of t' = Some (check v (length vs, p))"
proof -
  obtain u where u: "insert_val v t = Some (length vs, u)" "repr u (vs @ [v])"
    using insert_repr [of t vs v] assms by auto
  then obtain t' where t': "insert_all ws u = Some t'" "repr t' ((vs @ [v]) @ ws)"
    using insert_all_repr [OF u(2), of ws] assms(2) by auto
  obtain p where "path_of t' (length vs) = Some (Some p)"
    "check (((vs @ [v]) @ ws) ! length vs) (length vs, p) = digest_of ((vs @ [v]) @ ws)"
    using path_repr [OF t'(2), of "length vs"] by auto
  with that [OF u(1) t'(1)] root_repr [OF t'(2)] show thesis by (simp add: nth_append)
qed

end

interpretation mt: authenticated_list "mt_inv H" "mt_insert H" root get_authentication_path_for
  "compute_digest_for_path H" "mroot H" "2 ^ 31" for H
proof
  show "\<exists>t'. mt_insert H v t = Some (length vs, t') \<and> mt_inv H t' (vs @ [v])"
    if "mt_inv H t vs" "length vs < 2 ^ 31" for t vs v
    using mt_insert_inv [OF that] by metis
  show "root t = Some (mroot H vs)" if "mt_inv H t vs" for t vs
    using that by (rule root_inv)
  show "\<exists>p. get_authentication_path_for t i = Some (Some p)
      \<and> compute_digest_for_path H (vs ! i) (i, p) = mroot H vs"
    if "mt_inv H t vs" "i < length vs" for t vs i
    using path_inv_correct [OF that] by metis
  show "get_authentication_path_for t i = Some None" if "mt_inv H t vs" "length vs \<le> i" for t vs i
    using that by (rule path_none)
qed

section \<open>The tree refines a list of values\<close>

text \<open>
  C39: the array tree implements the Merkle tree over a growing list.  Inserting a value that fits
  appends it, doubling the capacity when the tree is full; the root is the reference root of all
  values; every value has an authentication path that the circuit's fold leads to that root; and
  there is no path beyond the values.
\<close>

theorem merkle_tree_refines_list:
  assumes "mt_inv H t vs" and "length vs < 2 ^ 31"
  shows "\<exists>t'. mt_insert H v t = Some (length vs, t') \<and> mt_inv H t' (vs @ [v])
    \<and> root t' = Some (mroot H (vs @ [v]))
    \<and> (\<forall>i. i < length (vs @ [v]) \<longrightarrow> (\<exists>path. get_authentication_path_for t' i = Some (Some path)
         \<and> compute_digest_for_path H ((vs @ [v]) ! i) (i, path) = mroot H (vs @ [v])))
    \<and> (\<forall>i. length (vs @ [v]) \<le> i \<longrightarrow> get_authentication_path_for t' i = Some None)"
proof -
  obtain t' where t': "mt_insert H v t = Some (length vs, t')" "mt_inv H t' (vs @ [v])"
    using assms by (rule mt_insert_inv)
  have "\<exists>path. get_authentication_path_for t' i = Some (Some path)
      \<and> compute_digest_for_path H ((vs @ [v]) ! i) (i, path) = mroot H (vs @ [v])" if "i < length (vs @ [v])" for i
    by (rule path_inv_correct [OF t'(2) that]) blast
  with t' root_inv [OF t'(2)] path_none [OF t'(2)] show ?thesis by blast
qed

theorem merkle_tree_refines_list_witness:
  "\<exists>t t'. with_capacity 1 = Some t \<and> mt_insert id [5] t = Some (0, t') \<and> root t' = Some [5]"
proof -
  obtain t where "with_capacity 1 = Some t" "mt_inv id t []" using with_capacity_inv [of 1 id] by auto
  with merkle_tree_refines_list [of id t "[]" "[5]"] show ?thesis by (auto simp: mroot_def)
qed

end
