(* ===== verification/Program.thy ===== *)
theory Program
  imports Derivations
begin

text \<open>
  The program interface (\<open>lee/state_machine/core/src/program.rs\<close>): chained calls, claims,
  post states, validity windows, program outputs, the wide balance sum, and
  \<open>validate_execution\<close>, the rules every program output is held to.
\<close>

section \<open>Calls, claims and outputs\<close>

type_synonym instruction_data = "u32 list"

definition MAX_NUMBER_CHAINED_CALLS :: nat where
  "MAX_NUMBER_CHAINED_CALLS = 10"

record chained_call =
  cc_program_id :: program_id
  cc_pre_states :: "account_meta list"
  cc_instruction_data :: instruction_data
  cc_pda_seeds :: "pda_seed list"

text \<open>\<open>enc\<close> is the serialiser of the instruction type (\<open>risc0_zkvm::serde::to_vec\<close>).\<close>

definition chained_call_new ::
  "('i \<Rightarrow> instruction_data) \<Rightarrow> program_id \<Rightarrow> account_meta list \<Rightarrow> 'i \<Rightarrow> chained_call" where
  "chained_call_new enc pid pres instr =
     \<lparr> cc_program_id = pid, cc_pre_states = pres, cc_instruction_data = enc instr, cc_pda_seeds = [] \<rparr>"

definition with_pda_seeds :: "chained_call \<Rightarrow> pda_seed list \<Rightarrow> chained_call" where
  "with_pda_seeds c seeds = c\<lparr> cc_pda_seeds := seeds \<rparr>"

datatype claim = Claim_Authorized | Claim_Pda pda_seed

record post_state =
  ps_account :: account
  ps_claim :: "claim option"

definition post_new :: "account \<Rightarrow> post_state" where
  "post_new a = \<lparr> ps_account = a, ps_claim = None \<rparr>"

definition new_claimed :: "account \<Rightarrow> claim \<Rightarrow> post_state" where
  "new_claimed a c = \<lparr> ps_account = a, ps_claim = Some c \<rparr>"

definition new_claimed_if_default :: "account \<Rightarrow> claim \<Rightarrow> post_state" where
  "new_claimed_if_default a c =
     (let is_default_owner = (program_owner a = DEFAULT_PROGRAM_ID) in
      \<lparr> ps_account = a, ps_claim = (if is_default_owner then Some c else None) \<rparr>)"

section \<open>Validity windows\<close>

record validity_window =
  vw_from :: "u64 option"
  vw_to :: "u64 option"

datatype invalid_window = InvalidWindow

definition new_unbounded :: validity_window where
  "new_unbounded = \<lparr> vw_from = None, vw_to = None \<rparr>"

definition is_valid_for :: "validity_window \<Rightarrow> u64 \<Rightarrow> bool" where
  "is_valid_for w v \<longleftrightarrow>
     (case vw_from w of None \<Rightarrow> True | Some start \<Rightarrow> v \<ge> start)
   \<and> (case vw_to w of None \<Rightarrow> True | Some end \<Rightarrow> v < end)"

definition check_window :: "validity_window \<Rightarrow> (invalid_window, unit) result" where
  "check_window w =
     (case (vw_from w, vw_to w) of
        (Some f, Some t) \<Rightarrow> (if f \<ge> t then Inl InvalidWindow else Inr ())
      | _ \<Rightarrow> Inr ())"

definition window_try_from ::
  "u64 option \<times> u64 option \<Rightarrow> (invalid_window, validity_window) result" where
  "window_try_from v =
     (let this = \<lparr> vw_from = fst v, vw_to = snd v \<rparr> in
      rbind (check_window this) (\<lambda>_. Inr this))"

definition window_of_range :: "u64 \<Rightarrow> u64 \<Rightarrow> (invalid_window, validity_window) result" where
  "window_of_range start end = window_try_from (Some start, Some end)"

definition window_of_range_from :: "u64 \<Rightarrow> validity_window" where
  "window_of_range_from start = \<lparr> vw_from = Some start, vw_to = None \<rparr>"

definition window_of_range_to :: "u64 \<Rightarrow> validity_window" where
  "window_of_range_to end = \<lparr> vw_from = None, vw_to = Some end \<rparr>"

record program_output =
  self_program_id :: program_id
  caller_program_id :: "program_id option"
  instruction_data :: instruction_data
  pre_states :: "account_meta list"
  post_states :: "post_state list"
  chained_calls :: "chained_call list"
  block_validity_window :: validity_window
  timestamp_validity_window :: validity_window

definition program_output_new ::
  "program_id \<Rightarrow> program_id option \<Rightarrow> instruction_data \<Rightarrow> account_meta list \<Rightarrow> post_state list
   \<Rightarrow> program_output" where
  "program_output_new self caller instr pres posts =
     \<lparr> self_program_id = self, caller_program_id = caller, instruction_data = instr,
       pre_states = pres, post_states = posts, chained_calls = [],
       block_validity_window = new_unbounded, timestamp_validity_window = new_unbounded \<rparr>"

definition with_chained_calls :: "program_output \<Rightarrow> chained_call list \<Rightarrow> program_output" where
  "with_chained_calls p cs = p\<lparr> chained_calls := cs \<rparr>"

definition try_with_block_validity_window ::
  "program_output \<Rightarrow> u64 option \<times> u64 option \<Rightarrow> (invalid_window, program_output) result" where
  "try_with_block_validity_window p w =
     rbind (window_try_from w) (\<lambda>win. Inr (p\<lparr> block_validity_window := win \<rparr>))"

definition valid_from_timestamp ::
  "program_output \<Rightarrow> u64 option \<Rightarrow> (invalid_window, program_output) result" where
  "valid_from_timestamp p ts =
     rbind (window_try_from (ts, vw_to (timestamp_validity_window p))) (\<lambda>win.
     Inr (p\<lparr> timestamp_validity_window := win \<rparr>))"

definition valid_until_timestamp ::
  "program_output \<Rightarrow> u64 option \<Rightarrow> (invalid_window, program_output) result" where
  "valid_until_timestamp p ts =
     rbind (window_try_from (vw_from (timestamp_validity_window p), ts)) (\<lambda>win.
     Inr (p\<lparr> timestamp_validity_window := win \<rparr>))"

section \<open>Wide balance sums\<close>

record wrapped_balance_sum =
  wbs_lo :: u128
  wbs_hi :: u128

fun from_balances_loop :: "u128 list \<Rightarrow> wrapped_balance_sum \<Rightarrow> wrapped_balance_sum option" where
  "from_balances_loop [] wrapped = Some wrapped"
| "from_balances_loop (b # bs) wrapped =
     (let (new_sum, did_overflow) = overflowing_add (wbs_lo wrapped) b in
      if did_overflow then
        (case checked_add (wbs_hi wrapped) 1 of
           None \<Rightarrow> None
         | Some h \<Rightarrow> from_balances_loop bs (wrapped\<lparr> wbs_hi := h, wbs_lo := new_sum \<rparr>))
      else from_balances_loop bs (wrapped\<lparr> wbs_lo := new_sum \<rparr>))"

definition from_balances :: "u128 list \<Rightarrow> wrapped_balance_sum option" where
  "from_balances bs = from_balances_loop bs \<lparr> wbs_lo = 0, wbs_hi = 0 \<rparr>"

section \<open>Validation of an execution\<close>

datatype execution_validation_error =
    PreStateAccountIdsNotUnique
  | MismatchedPreStatePostStateLength nat nat
  | ModifiedNonce account_id
  | ModifiedProgramOwner account_id
  | UnauthorizedBalanceDecrease account_id program_id program_id
  | UnauthorizedDataModification account_id program_id
  | NonDefaultAccountWithDefaultOwner account_id
  | BalanceSumOverflow
  | MismatchedTotalBalance wrapped_balance_sum wrapped_balance_sum

definition compute_public_authorized_pdas ::
  "hash_fn \<Rightarrow> program_id option \<Rightarrow> pda_seed list \<Rightarrow> account_id set" where
  "compute_public_authorized_pdas H caller seeds =
     (case caller of
        None \<Rightarrow> {}
      | Some c \<Rightarrow> set (map (for_public_pda H c) seeds))"

definition validate_uniqueness_of_account_ids :: "account_meta list \<Rightarrow> bool" where
  "validate_uniqueness_of_account_ids pres \<longleftrightarrow> length pres = n_distinct (map account_id pres)"

text \<open>The body of the loop over the pairs of pre and post states (checks 3 to 7).\<close>

definition validate_pair ::
  "program_id \<Rightarrow> account_meta \<Rightarrow> post_state \<Rightarrow> (execution_validation_error, unit) result" where
  "validate_pair executing pre post =
     (let a = account pre; b = ps_account post; owner = program_owner a in
      ensure (\<not> nonce a \<noteq> nonce b) (ModifiedNonce (account_id pre)) (
      ensure (\<not> program_owner a \<noteq> program_owner b) (ModifiedProgramOwner (account_id pre)) (
      ensure (\<not> (balance b < balance a \<and> owner \<noteq> executing))
        (UnauthorizedBalanceDecrease (account_id pre) owner executing) (
      ensure (\<not> (data a \<noteq> data b \<and> a \<noteq> default_account \<and> owner \<noteq> executing))
        (UnauthorizedDataModification (account_id pre) executing) (
      ensure (\<not> (program_owner b = DEFAULT_PROGRAM_ID \<and> a \<noteq> default_account))
        (NonDefaultAccountWithDefaultOwner (account_id pre)) (
      Inr ()))))))"

definition validate_execution ::
  "account_meta list \<Rightarrow> post_state list \<Rightarrow> program_id \<Rightarrow> (execution_validation_error, unit) result" where
  "validate_execution pres posts executing =
     ensure (validate_uniqueness_of_account_ids pres) PreStateAccountIdsNotUnique (
     ensure (\<not> length pres \<noteq> length posts)
       (MismatchedPreStatePostStateLength (length pres) (length posts)) (
     rbind (for_each (\<lambda>(pre, post). validate_pair executing pre post) (zip pres posts)) (\<lambda>_.
     expect (from_balances (map (balance \<circ> account) pres)) BalanceSumOverflow (\<lambda>total_pre.
     expect (from_balances (map (balance \<circ> ps_account) posts)) BalanceSumOverflow (\<lambda>total_post.
     ensure (\<not> total_pre \<noteq> total_post) (MismatchedTotalBalance total_pre total_post) (
     Inr ()))))))"

section \<open>Specification\<close>

text \<open>
  What the checks promise, without reference to their order or to the two word
  representation of sums.
\<close>

definition pair_ok :: "program_id \<Rightarrow> account \<Rightarrow> account \<Rightarrow> bool" where
  "pair_ok pid a b \<longleftrightarrow>
     nonce b = nonce a \<and> program_owner b = program_owner a
   \<and> (unat (balance b) < unat (balance a) \<longrightarrow> program_owner a = pid)
   \<and> (data b \<noteq> data a \<longrightarrow> a = default_account \<or> program_owner a = pid)
   \<and> (program_owner a = DEFAULT_PROGRAM_ID \<longrightarrow> a = default_account)"

definition total :: "account list \<Rightarrow> nat" where
  "total as = sum_list (map (unat \<circ> balance) as)"

definition well_behaved :: "program_id \<Rightarrow> account_meta list \<Rightarrow> post_state list \<Rightarrow> bool" where
  "well_behaved pid pres posts \<longleftrightarrow>
     distinct (map account_id pres)
   \<and> list_all2 (pair_ok pid) (map account pres) (map ps_account posts)
   \<and> total (map account pres) = total (map ps_account posts)
   \<and> total (map account pres) < 2 ^ 256"

section \<open>Lemmas\<close>

lemma post_sel [simp]:
  "ps_account (post_new a) = a" "ps_claim (post_new a) = None"
  "ps_account (new_claimed a c) = a" "ps_claim (new_claimed a c) = Some c"
  "ps_account (new_claimed_if_default a c) = a"
  by (simp_all add: post_new_def new_claimed_def new_claimed_if_default_def)

lemma program_output_new_sel [simp]:
  "pre_states (program_output_new s c i p q) = p"
  "post_states (program_output_new s c i p q) = q"
  "chained_calls (program_output_new s c i p q) = []"
  "self_program_id (program_output_new s c i p q) = s"
  "caller_program_id (program_output_new s c i p q) = c"
  "instruction_data (program_output_new s c i p q) = i"
  "block_validity_window (program_output_new s c i p q) = new_unbounded"
  "timestamp_validity_window (program_output_new s c i p q) = new_unbounded"
  by (simp_all add: program_output_new_def)

lemma with_chained_calls_sel [simp]:
  "pre_states (with_chained_calls p cs) = pre_states p"
  "post_states (with_chained_calls p cs) = post_states p"
  "chained_calls (with_chained_calls p cs) = cs"
  "self_program_id (with_chained_calls p cs) = self_program_id p"
  "caller_program_id (with_chained_calls p cs) = caller_program_id p"
  by (simp_all add: with_chained_calls_def)

lemma is_valid_for_unbounded [simp]: "is_valid_for new_unbounded v"
  by (simp add: is_valid_for_def new_unbounded_def)

text \<open>A window that passes its check is never empty, and conversely.\<close>

lemma window_try_from_Inr:
  "(\<exists>w. window_try_from v = Inr w \<and> vw_from w = fst v \<and> vw_to w = snd v) \<longleftrightarrow>
   (\<exists>x. is_valid_for \<lparr> vw_from = fst v, vw_to = snd v \<rparr> x) \<or>
   (fst v = None \<and> snd v = Some 0)"
proof -
  have nz: "(\<exists>x. x < b) \<longleftrightarrow> b \<noteq> 0" for b :: u64
    by (metis word_gt_0 word_not_simps(1))
  show ?thesis
    by (cases "fst v"; cases "snd v")
      (auto simp: window_try_from_def check_window_def is_valid_for_def Let_def nz not_le
        intro: order.strict_trans1)
qed

definition wbs_val :: "wrapped_balance_sum \<Rightarrow> nat" where
  "wbs_val w = unat (wbs_lo w) + 2 ^ 128 * unat (wbs_hi w)"

lemma wbs_val_inj: "wbs_val v = wbs_val w \<longleftrightarrow> v = w"
proof
  assume eq: "wbs_val v = wbs_val w"
  have l: "unat (wbs_lo v) < 2 ^ 128" "unat (wbs_lo w) < 2 ^ 128"
    using unat_lt2p [of "wbs_lo v"] unat_lt2p [of "wbs_lo w"] by simp_all
  have "wbs_val v mod 2 ^ 128 = unat (wbs_lo v)" "wbs_val v div 2 ^ 128 = unat (wbs_hi v)"
    "wbs_val w mod 2 ^ 128 = unat (wbs_lo w)" "wbs_val w div 2 ^ 128 = unat (wbs_hi w)"
    unfolding wbs_val_def using l by simp_all
  with eq have "unat (wbs_lo v) = unat (wbs_lo w)" "unat (wbs_hi v) = unat (wbs_hi w)" by simp_all
  then show "v = w" by (simp add: word_unat_eq_iff)
qed simp

lemma wbs_val_bound: "wbs_val w < 2 ^ 256"
  using unat_lt2p [of "wbs_lo w"] unat_lt2p [of "wbs_hi w"] by (simp add: wbs_val_def)

text \<open>Adding one balance is addition of the represented value, and fails only beyond 256 bits.\<close>

lemma from_balances_loop_Some:
  "from_balances_loop bs w = Some v \<longleftrightarrow> wbs_val v = wbs_val w + sum_list (map unat bs)"
proof (induction bs w rule: from_balances_loop.induct)
  case (1 w)
  then show ?case using wbs_val_inj [of v w] by auto
next
  case (2 b bs w)
  show ?case
  proof (cases "2 ^ 128 \<le> unat (wbs_lo w) + unat b")
    case ov: True
    have lo: "unat (wbs_lo w + b) + 2 ^ 128 = unat (wbs_lo w) + unat b"
      using ov unat_lt2p [of "wbs_lo w"] unat_lt2p [of b]
      by (simp add: unat_word_ariths le_mod_geq)
    show ?thesis
    proof (cases "checked_add (wbs_hi w) 1")
      case None
      then have hi: "2 ^ 128 \<le> unat (wbs_hi w) + 1"
        by (simp add: checked_add_def split: if_splits)
      then have "2 ^ 128 * 2 ^ 128 \<le> 2 ^ 128 * (unat (wbs_hi w) + 1)" by (rule mult_le_mono2)
      then have "2 ^ 256 \<le> wbs_val w + unat b" using ov by (simp add: wbs_val_def)
      then have "wbs_val v \<noteq> wbs_val w + sum_list (map unat (b # bs))"
        using wbs_val_bound [of v] by simp
      with None ov show ?thesis by (simp add: overflowing_add_def)
    next
      case (Some h)
      have "wbs_val (w\<lparr>wbs_hi := h, wbs_lo := wbs_lo w + b\<rparr>) = wbs_val w + unat b"
        using Some lo by (simp add: wbs_val_def arith_simps)
      with 2 Some ov show ?thesis by (simp add: overflowing_add_def add.assoc)
    qed
  next
    case False
    then have "wbs_val (w\<lparr>wbs_lo := wbs_lo w + b\<rparr>) = wbs_val w + unat b"
      by (simp add: wbs_val_def unat_add_no_wrap)
    with 2 False show ?thesis by (simp add: overflowing_add_def add.assoc)
  qed
qed

lemma from_balances_Some:
  "from_balances bs = Some v \<longleftrightarrow> wbs_val v = sum_list (map unat bs)"
  by (simp add: from_balances_def from_balances_loop_Some) (simp add: wbs_val_def)

lemma wbs_val_surj: "n < 2 ^ 256 \<Longrightarrow> \<exists>v. wbs_val v = n"
proof -
  assume "n < 2 ^ 256"
  then have "n div 2 ^ 128 < 2 ^ 128" by (simp add: less_mult_imp_div_less)
  then have "wbs_val \<lparr> wbs_lo = word_of_nat (n mod 2 ^ 128), wbs_hi = word_of_nat (n div 2 ^ 128) \<rparr> = n"
    by (simp add: wbs_val_def unat_of_nat)
  then show ?thesis by blast
qed

lemma validate_pair_Inr:
  "validate_pair pid pre post = Inr () \<longleftrightarrow> pair_ok pid (account pre) (ps_account post)"
  by (auto simp: validate_pair_def pair_ok_def Let_def res_simps word_less_nat_alt)

lemma for_each_validate_pair:
  assumes "length pres = length posts"
  shows "for_each (\<lambda>(pre, post). validate_pair pid pre post) (zip pres posts) = Inr () \<longleftrightarrow>
    list_all2 (pair_ok pid) (map account pres) (map ps_account posts)"
  using assms
proof (induction pres posts rule: list_induct2)
  case (Cons a as b bs)
  then show ?case by (auto simp: res_simps validate_pair_Inr)
qed simp

lemma total_map: "total (map f xs) = sum_list (map unat (map (balance \<circ> f) xs))"
  by (simp add: total_def comp_assoc)

lemma validate_execution_Inr:
  "validate_execution pres posts pid = Inr () \<longleftrightarrow> well_behaved pid pres posts"
proof (cases "distinct (map account_id pres) \<and> length pres = length posts")
  case False
  then show ?thesis
    by (auto simp: validate_execution_def well_behaved_def validate_uniqueness_of_account_ids_def
        res_simps dest: list_all2_lengthD) (metis length_eq_n_distinct length_map)+
next
  case True
  let ?u = "sum_list (map unat (map (balance \<circ> account) pres))"
  let ?v = "sum_list (map unat (map (balance \<circ> ps_account) posts))"
  have sums: "(\<exists>x. from_balances (map (balance \<circ> account) pres) = Some x \<and>
      from_balances (map (balance \<circ> ps_account) posts) = Some x) \<longleftrightarrow> ?u = ?v \<and> ?u < 2 ^ 256"
    unfolding from_balances_Some using wbs_val_bound wbs_val_surj by metis
  have uniq: "validate_uniqueness_of_account_ids pres"
    using True by (metis length_eq_n_distinct length_map validate_uniqueness_of_account_ids_def)
  have "validate_execution pres posts pid = Inr () \<longleftrightarrow>
      list_all2 (pair_ok pid) (map account pres) (map ps_account posts) \<and> ?u = ?v \<and> ?u < 2 ^ 256"
    unfolding sums [symmetric] using True uniq for_each_validate_pair [of pres posts pid]
    by (auto simp: validate_execution_def res_simps)
  then show ?thesis using True by (auto simp: well_behaved_def total_map)
qed

text \<open>What a program can do to one account, read off the accepted output.\<close>

lemma well_behaved_nth:
  assumes "well_behaved pid pres posts" and "i < length pres"
  shows "pair_ok pid (account (pres ! i)) (ps_account (posts ! i))"
  using assms by (auto simp: well_behaved_def list_all2_conv_all_nth)

lemma well_behaved_length: "well_behaved pid pres posts \<Longrightarrow> length posts = length pres"
  by (auto simp: well_behaved_def dest: list_all2_lengthD)

section \<open>Properties\<close>

text \<open>
  \<open>WrappedBalanceSum::from_balances\<close> is exact: it returns \<open>Some\<close> of two words if and only if
  \<open>lo + hi * 2^128\<close> is the true sum of the balances, so it fails only on sums beyond 256 bits and
  never wraps.
\<close>

lemma from_balances_exact:
  "from_balances bs = Some w \<longleftrightarrow>
     unat (wbs_lo w) + 2 ^ 128 * unat (wbs_hi w) = sum_list (map unat bs)"
  by (simp add: from_balances_Some wbs_val_def)

end
