(* ===== verification/Guest.thy ===== *)
theory Guest
  imports Program
begin

text \<open>
  The contract of a guest program: what it reads (\<open>read_lee_inputs\<close>), how it fails (a panic,
  \<open>Inl\<close> with its message) and what it commits (a program output).  The locales state the laws the
  state machine relies on when it runs a guest, and derive from them that the output is
  accepted by \<open>validate_execution\<close>.
\<close>

section \<open>Inputs and results\<close>

type_synonym panic = string
type_synonym guest = "program_id \<Rightarrow> program_id option \<Rightarrow> account_meta list \<Rightarrow> instruction_data
  \<Rightarrow> (panic, program_output) result"

text \<open>The \<open>unwrap\<close> on the deserialised instruction; the deserialiser is a parameter.\<close>

definition DECODE_PANIC :: panic where
  "DECODE_PANIC = ''called Result::unwrap() on an Err value''"

definition read_lee_inputs ::
  "(instruction_data \<Rightarrow> 'i option) \<Rightarrow> instruction_data \<Rightarrow> ('i \<Rightarrow> (panic, 'b) result) \<Rightarrow> (panic, 'b) result" where
  "read_lee_inputs dec words k = expect (dec words) DECODE_PANIC k"

text \<open>\<open>try_into\<close> an array of fixed length, with the message of the \<open>expect\<close>.\<close>

definition with1 :: "panic \<Rightarrow> 'a list \<Rightarrow> ('a \<Rightarrow> (panic, 'b) result) \<Rightarrow> (panic, 'b) result" where
  "with1 msg xs k = (case xs of [a] \<Rightarrow> k a | _ \<Rightarrow> Inl msg)"

definition with2 :: "panic \<Rightarrow> 'a list \<Rightarrow> ('a \<Rightarrow> 'a \<Rightarrow> (panic, 'b) result) \<Rightarrow> (panic, 'b) result" where
  "with2 msg xs k = (case xs of [a, b] \<Rightarrow> k a b | _ \<Rightarrow> Inl msg)"

definition with3 :: "panic \<Rightarrow> 'a list \<Rightarrow> ('a \<Rightarrow> 'a \<Rightarrow> 'a \<Rightarrow> (panic, 'b) result) \<Rightarrow> (panic, 'b) result" where
  "with3 msg xs k = (case xs of [a, b, c] \<Rightarrow> k a b c | _ \<Rightarrow> Inl msg)"

text \<open>A guest that returns without writing leaves an empty journal, which the host cannot decode.\<close>

definition NO_OUTPUT :: panic where
  "NO_OUTPUT = ''no program output in the journal''"

definition unchanged_post_states :: "account_meta list \<Rightarrow> post_state list" where
  "unchanged_post_states pres = map (\<lambda>pre. post_new (account pre)) pres"

text \<open>Bytes into account data, \<open>try_into().expect(msg)\<close>.\<close>

definition into_data :: "panic \<Rightarrow> bytes \<Rightarrow> (bytes \<Rightarrow> (panic, 'b) result) \<Rightarrow> (panic, 'b) result" where
  "into_data msg d k = rbind (map_err (\<lambda>_. msg) (data_try_from d)) k"

lemma read_lee_inputs_Inr [res_simps]:
  "read_lee_inputs dec words k = Inr x \<longleftrightarrow> (\<exists>i. dec words = Some i \<and> k i = Inr x)"
  by (simp add: read_lee_inputs_def res_simps)

lemma with_Inr [res_simps]:
  "with1 msg xs k1 = Inr x \<longleftrightarrow> (\<exists>a. xs = [a] \<and> k1 a = Inr x)"
  "with2 msg xs k2 = Inr x \<longleftrightarrow> (\<exists>a b. xs = [a, b] \<and> k2 a b = Inr x)"
  "with3 msg xs k3 = Inr x \<longleftrightarrow> (\<exists>a b c. xs = [a, b, c] \<and> k3 a b c = Inr x)"
  by (auto simp: with1_def with2_def with3_def split: list.splits)

lemma with_simps [simp]:
  "with1 msg [a] k1 = k1 a" "with2 msg [a, b] k2 = k2 a b" "with3 msg [a, b, c] k3 = k3 a b c"
  by (simp_all add: with1_def with2_def with3_def)

lemma into_data_Inr [res_simps]:
  "into_data msg d k = Inr x \<longleftrightarrow> length d \<le> DATA_MAX_LENGTH \<and> k d = Inr x"
  by (auto simp: into_data_def data_try_from_def res_simps split: if_splits)

lemma unchanged_sel [simp]:
  "map ps_account (unchanged_post_states pres) = map account pres"
  "length (unchanged_post_states pres) = length pres"
  by (simp_all add: unchanged_post_states_def comp_def)

section \<open>The contract\<close>

text \<open>A post state that keeps the owner and the nonce of the pre state.\<close>

definition frame_ok :: "account \<Rightarrow> account \<Rightarrow> bool" where
  "frame_ok a b \<longleftrightarrow> nonce b = nonce a \<and> program_owner b = program_owner a"

definition echoes :: "program_id \<Rightarrow> program_id option \<Rightarrow> account_meta list \<Rightarrow> instruction_data
    \<Rightarrow> program_output \<Rightarrow> bool" where
  "echoes self caller pres words out \<longleftrightarrow>
     self_program_id out = self \<and> caller_program_id out = caller
   \<and> pre_states out = pres \<and> instruction_data out = words"

locale guest_program =
  fixes run :: guest
  assumes echo: "run self caller pres words = Inr out \<Longrightarrow> echoes self caller pres words out"
    and frame: "run self caller pres words = Inr out \<Longrightarrow>
      list_all2 frame_ok (map account pres) (map ps_account (post_states out))"
    and conserve: "run self caller pres words = Inr out \<Longrightarrow>
      total (map ps_account (post_states out)) = total (map account pres)"
begin

lemma same_length: "run self caller pres words = Inr out \<Longrightarrow> length (post_states out) = length pres"
  using frame [of self caller pres words out] by (auto dest: list_all2_lengthD)

text \<open>
  Acceptance: what is left to check for an output of a program that honours the contract is the
  part that depends on who owns the accounts.
\<close>

lemma accepted_iff:
  assumes run: "run self caller pres words = Inr out"
  shows "validate_execution (pre_states out) (post_states out) self = Inr () \<longleftrightarrow>
    distinct (map account_id pres) \<and> total (map account pres) < 2 ^ 256 \<and>
    list_all2 (\<lambda>a b. (unat (balance b) < unat (balance a) \<longrightarrow> program_owner a = self) \<and>
       (data b \<noteq> data a \<longrightarrow> a = default_account \<or> program_owner a = self) \<and>
       (program_owner a = DEFAULT_PROGRAM_ID \<longrightarrow> a = default_account))
     (map account pres) (map ps_account (post_states out))"
proof -
  have p: "pre_states out = pres" using echo [OF run] by (simp add: echoes_def)
  show ?thesis
    unfolding p validate_execution_Inr well_behaved_def
    using frame [OF run] conserve [OF run]
    by (auto simp: list_all2_conv_all_nth pair_ok_def frame_ok_def)
qed

end

text \<open>A program that moves no balance itself (it may still ask others to, by chained calls).\<close>

locale balance_neutral_guest =
  fixes run :: guest
  assumes neutral_echo: "run self caller pres words = Inr out \<Longrightarrow> echoes self caller pres words out"
    and neutral: "run self caller pres words = Inr out \<Longrightarrow>
      list_all2 (\<lambda>a b. frame_ok a b \<and> balance b = balance a)
        (map account pres) (map ps_account (post_states out))"

lemma neutral_total:
  "list_all2 (\<lambda>a b. P a b \<and> balance b = balance a) as bs \<Longrightarrow> total bs = total as"
  by (induction rule: list_all2_induct) (simp_all add: total_def)

sublocale balance_neutral_guest \<subseteq> guest_program run
proof
  show "echoes self caller pres words out" if "run self caller pres words = Inr out"
    for self caller pres words out using that by (rule neutral_echo)
  show "list_all2 frame_ok (map account pres) (map ps_account (post_states out))"
    if "run self caller pres words = Inr out" for self caller pres words out
    using neutral [OF that] by (rule list_all2_mono) simp
  show "total (map ps_account (post_states out)) = total (map account pres)"
    if "run self caller pres words = Inr out" for self caller pres words out
    using neutral [OF that] by (rule neutral_total)
qed

lemma neutral_unchanged:
  "list_all2 (\<lambda>a b. frame_ok a b \<and> balance b = balance a) (map account pres) (map account pres)"
  by (rule list_all2_refl) (simp add: frame_ok_def)

lemma neutral_data:
  "frame_ok a (a\<lparr> data := d \<rparr>)" "balance (a\<lparr> data := d \<rparr>) = balance a" "frame_ok a a"
  by (simp_all add: frame_ok_def)

lemma echoes_new [simp]:
  "echoes self caller pres words (program_output_new self caller words pres posts)"
  "echoes self caller pres words (with_chained_calls (program_output_new self caller words pres posts) cs)"
  by (simp_all add: echoes_def with_chained_calls_def)

end
