(* ===== verification/System_Programs.thy ===== *)
theory System_Programs
  imports Guest
begin

text \<open>
  The system guests: authenticated transfer, vault, faucet, bridge and clock
  (\<open>program_methods/guest/src/bin\<close> and the matching \<open>programs/*/core\<close> crates).  Instruction
  codecs are parameters.
\<close>

section \<open>Authenticated transfer\<close>

datatype auth_transfer_instruction = AT_Transfer u128 | AT_Initialize

definition at_initialize_account :: "account_meta \<Rightarrow> (panic, post_state) result" where
  "at_initialize_account pre =
     (let account_to_claim = new_claimed (account pre) Claim_Authorized in
      ensure (ps_account account_to_claim = default_account) ''Account must be uninitialized'' (
      Inr account_to_claim))"

definition at_transfer ::
  "account_meta \<Rightarrow> account_meta \<Rightarrow> u128 \<Rightarrow> (panic, post_state list) result" where
  "at_transfer sender recipient balance_to_move =
     ensure (is_authorized sender) ''Sender must be authorized'' (
     expect (checked_sub (balance (account sender)) balance_to_move)
       ''Sender has insufficient balance'' (\<lambda>sb.
     expect (checked_add (balance (account recipient)) balance_to_move)
       ''Recipient balance overflow'' (\<lambda>rb.
     let sender_post = post_new ((account sender)\<lparr> balance := sb \<rparr>);
         recipient_post_account = (account recipient)\<lparr> balance := rb \<rparr>;
         recipient_post =
           (if program_owner recipient_post_account = DEFAULT_PROGRAM_ID
            then new_claimed recipient_post_account Claim_Authorized
            else post_new recipient_post_account)
     in Inr [sender_post, recipient_post])))"

definition at_main :: "(instruction_data \<Rightarrow> auth_transfer_instruction option) \<Rightarrow> guest" where
  "at_main dec self caller pres words =
     read_lee_inputs dec words (\<lambda>instr.
     rbind (case instr of
              AT_Initialize \<Rightarrow>
                with1 ''Initialize requires exactly 1 account'' pres (\<lambda>account_to_claim.
                rbind (at_initialize_account account_to_claim) (\<lambda>p. Inr [p]))
            | AT_Transfer balance_to_move \<Rightarrow>
                with2 ''Transfer requires exactly 2 accounts'' pres (\<lambda>sender recipient.
                at_transfer sender recipient balance_to_move)) (\<lambda>posts.
     Inr (program_output_new self caller words pres posts)))"

section \<open>Vault\<close>

datatype vault_instruction = Vault_Transfer account_id u128 | Vault_Claim u128

definition VAULT_SEED_DOMAIN_SEPARATOR :: bytes where
  "VAULT_SEED_DOMAIN_SEPARATOR = ascii ''/LEZ/v0.3/VaultSeed/00000000000/''"

definition compute_vault_seed :: "hash_fn \<Rightarrow> account_id \<Rightarrow> pda_seed" where
  "compute_vault_seed H owner_id = H (VAULT_SEED_DOMAIN_SEPARATOR @ owner_id)"

definition compute_vault_account_id :: "hash_fn \<Rightarrow> program_id \<Rightarrow> account_id \<Rightarrow> account_id" where
  "compute_vault_account_id H vault_program owner_id =
     for_public_pda H vault_program (compute_vault_seed H owner_id)"

definition vault_main ::
  "hash_fn \<Rightarrow> (instruction_data \<Rightarrow> vault_instruction option)
   \<Rightarrow> (auth_transfer_instruction \<Rightarrow> instruction_data) \<Rightarrow> guest" where
  "vault_main H dec enc_at self caller pres words =
     read_lee_inputs dec words (\<lambda>instr.
     let posts = unchanged_post_states pres in
     rbind (case instr of
              Vault_Transfer recipient_id amount \<Rightarrow>
                with2 ''Transfer requires exactly 2 accounts'' pres (\<lambda>sender recipient_vault.
                let seed = compute_vault_seed H recipient_id;
                    recipient_vault_for_callee = recipient_vault\<lparr> is_authorized := True \<rparr>
                in Inr [with_pda_seeds
                          (chained_call_new enc_at (program_owner (account sender))
                             [sender, recipient_vault_for_callee] (AT_Transfer amount)) [seed]])
            | Vault_Claim amount \<Rightarrow>
                with2 ''Claim requires exactly 2 accounts'' pres (\<lambda>owner owner_vault.
                ensure (is_authorized owner) ''Owner must be authorized to claim from the vault'' (
                let seed = compute_vault_seed H (account_id owner);
                    owner_vault_for_callee = owner_vault\<lparr> is_authorized := True \<rparr>
                in Inr [with_pda_seeds
                          (chained_call_new enc_at (program_owner (account owner_vault_for_callee))
                             [owner_vault_for_callee, owner] (AT_Transfer amount)) [seed]]))) (\<lambda>calls.
     Inr (with_chained_calls (program_output_new self caller words pres posts) calls)))"

section \<open>Faucet\<close>

datatype faucet_instruction =
    GenesisTransferVault program_id account_id u128
  | GenesisTransferDirect u128

definition compute_faucet_seed :: pda_seed where
  "compute_faucet_seed = ascii ''/LEZ/v0.3/FaucetSeed/0000000000/''"

definition compute_faucet_account_id :: "hash_fn \<Rightarrow> program_id \<Rightarrow> account_id" where
  "compute_faucet_account_id H faucet_program = for_public_pda H faucet_program compute_faucet_seed"

definition faucet_main ::
  "hash_fn \<Rightarrow> (instruction_data \<Rightarrow> faucet_instruction option)
   \<Rightarrow> (auth_transfer_instruction \<Rightarrow> instruction_data) \<Rightarrow> (vault_instruction \<Rightarrow> instruction_data)
   \<Rightarrow> guest" where
  "faucet_main H dec enc_at enc_vault self caller pres words =
     read_lee_inputs dec words (\<lambda>instr.
     ensure (caller = None) ''Faucet cannot be invoked through chain calls'' (
     let posts = unchanged_post_states pres in
     rbind (case instr of
              GenesisTransferVault vault_program recipient_id amount \<Rightarrow>
                with2 ''Transfer requires exactly 2 accounts'' pres (\<lambda>faucet recipient_vault.
                ensure (account_id faucet = compute_faucet_account_id H self)
                  ''First account must be faucet PDA'' (
                let faucet_for_vault = faucet\<lparr> is_authorized := True \<rparr>
                in Inr [with_pda_seeds
                          (chained_call_new enc_vault vault_program
                             [faucet_for_vault, recipient_vault] (Vault_Transfer recipient_id amount))
                          [compute_faucet_seed]]))
            | GenesisTransferDirect amount \<Rightarrow>
                with2 ''TransferDirect requires exactly 2 accounts'' pres (\<lambda>faucet recipient.
                ensure (account_id faucet = compute_faucet_account_id H self)
                  ''First account must be faucet PDA'' (
                let faucet_for_transfer = faucet\<lparr> is_authorized := True \<rparr>
                in Inr [with_pda_seeds
                          (chained_call_new enc_at (program_owner (account faucet_for_transfer))
                             [faucet_for_transfer, recipient] (AT_Transfer amount))
                          [compute_faucet_seed]]))) (\<lambda>calls.
     Inr (with_chained_calls (program_output_new self caller words pres posts) calls))))"

section \<open>Bridge\<close>

datatype bridge_instruction =
    Bridge_Deposit bytes program_id account_id u64
  | Bridge_Withdraw u64 bytes

definition compute_bridge_seed :: pda_seed where
  "compute_bridge_seed = ascii ''/LEZ/v0.3/BridgeSeed/0000000000/''"

definition compute_bridge_account_id :: "hash_fn \<Rightarrow> program_id \<Rightarrow> account_id" where
  "compute_bridge_account_id H bridge_program = for_public_pda H bridge_program compute_bridge_seed"

definition bridge_main ::
  "hash_fn \<Rightarrow> (instruction_data \<Rightarrow> bridge_instruction option)
   \<Rightarrow> (auth_transfer_instruction \<Rightarrow> instruction_data) \<Rightarrow> (vault_instruction \<Rightarrow> instruction_data)
   \<Rightarrow> guest" where
  "bridge_main H dec enc_at enc_vault self caller pres words =
     read_lee_inputs dec words (\<lambda>instr.
     ensure (caller = None) ''Bridge cannot be invoked through chain calls'' (
     let posts = unchanged_post_states pres in
     rbind (case instr of
              Bridge_Deposit l1_deposit_op_id vault_program recipient_id amount \<Rightarrow>
                with2 ''Deposit requires exactly 2 accounts'' pres (\<lambda>bridge recipient_vault.
                ensure (account_id bridge = compute_bridge_account_id H self)
                  ''First account must be bridge PDA'' (
                ensure (account_id recipient_vault = compute_vault_account_id H vault_program recipient_id)
                  ''Second account must be recipient vault PDA'' (
                let bridge_for_vault = bridge\<lparr> is_authorized := True \<rparr>
                in Inr [with_pda_seeds
                          (chained_call_new enc_vault vault_program
                             [bridge_for_vault, recipient_vault]
                             (Vault_Transfer recipient_id (ucast amount)))
                          [compute_bridge_seed]])))
            | Bridge_Withdraw amount bedrock_account_pk \<Rightarrow>
                with2 ''Withdraw requires exactly 2 accounts'' pres (\<lambda>sender bridge.
                ensure (account_id bridge = compute_bridge_account_id H self)
                  ''Second account must be bridge PDA'' (
                let auth_transfer_program = program_owner (account bridge) in
                ensure (program_owner (account sender) = auth_transfer_program)
                  ''Sender account must be owned by the authenticated transfer program'' (
                Inr [chained_call_new enc_at auth_transfer_program [sender, bridge]
                       (AT_Transfer (ucast amount))])))) (\<lambda>calls.
     Inr (with_chained_calls (program_output_new self caller words pres posts) calls))))"

section \<open>Clock\<close>

definition CLOCK_01_PROGRAM_ACCOUNT_ID :: account_id where
  "CLOCK_01_PROGRAM_ACCOUNT_ID = ascii ''/LEZ/ClockProgramAccount/0000001''"

definition CLOCK_10_PROGRAM_ACCOUNT_ID :: account_id where
  "CLOCK_10_PROGRAM_ACCOUNT_ID = ascii ''/LEZ/ClockProgramAccount/0000010''"

definition CLOCK_50_PROGRAM_ACCOUNT_ID :: account_id where
  "CLOCK_50_PROGRAM_ACCOUNT_ID = ascii ''/LEZ/ClockProgramAccount/0000050''"

definition CLOCK_PROGRAM_ACCOUNT_IDS :: "account_id list" where
  "CLOCK_PROGRAM_ACCOUNT_IDS =
     [CLOCK_01_PROGRAM_ACCOUNT_ID, CLOCK_10_PROGRAM_ACCOUNT_ID, CLOCK_50_PROGRAM_ACCOUNT_ID]"

record clock_account_data =
  cad_block_id :: u64
  cad_timestamp :: u64

text \<open>Borsh: the two integers in order, little-endian; \<open>from_slice\<close> wants the whole slice.\<close>

definition clock_to_bytes :: "clock_account_data \<Rightarrow> bytes" where
  "clock_to_bytes d = to_le_bytes (cad_block_id d) @ to_le_bytes (cad_timestamp d)"

definition clock_from_bytes :: "bytes \<Rightarrow> clock_account_data option" where
  "clock_from_bytes bs =
     (if length bs = 16
      then Some \<lparr> cad_block_id = from_le_bytes (take 8 bs), cad_timestamp = from_le_bytes (drop 8 bs) \<rparr>
      else None)"

definition update_if_multiple ::
  "account_meta \<Rightarrow> u64 \<Rightarrow> u64 \<Rightarrow> bytes \<Rightarrow> (panic, account_meta \<times> post_state) result" where
  "update_if_multiple pre divisor current_block_id updated_data =
     (if unat current_block_id mod unat divisor = 0 then
        (case data_try_from updated_data of
           Inl _ \<Rightarrow> Inl ''Clock account data should fit in account data''
         | Inr d \<Rightarrow> Inr (pre, post_new ((account pre)\<lparr> data := d \<rparr>)))
      else Inr (pre, post_new (account pre)))"

definition clock_main :: "(instruction_data \<Rightarrow> u64 option) \<Rightarrow> guest" where
  "clock_main dec self caller pres words =
     read_lee_inputs dec words (\<lambda>timestamp.
     with3 ''Invalid number of input accounts'' pres (\<lambda>pre_01 pre_10 pre_50.
     ensure (\<not> (account_id pre_01 \<noteq> CLOCK_01_PROGRAM_ACCOUNT_ID
               \<or> account_id pre_10 \<noteq> CLOCK_10_PROGRAM_ACCOUNT_ID
               \<or> account_id pre_50 \<noteq> CLOCK_50_PROGRAM_ACCOUNT_ID)) ''Invalid input accounts'' (
     ensure (\<not> (program_owner (account pre_01) \<noteq> self \<or> program_owner (account pre_10) \<noteq> self
               \<or> program_owner (account pre_50) \<noteq> self))
       ''Clock accounts must be owned by the clock program'' (
     expect (clock_from_bytes (data (account pre_01)))
       ''ClockAccountData deserialization should not fail'' (\<lambda>prev_data.
     expect (checked_add (cad_block_id prev_data) 1)
       ''Next block id should be within u64 boundaries'' (\<lambda>current_block_id.
     let updated_data = clock_to_bytes \<lparr> cad_block_id = current_block_id, cad_timestamp = timestamp \<rparr> in
     rbind (update_if_multiple pre_01 1 current_block_id updated_data) (\<lambda>(pre_01, post_01).
     rbind (update_if_multiple pre_10 10 current_block_id updated_data) (\<lambda>(pre_10, post_10).
     rbind (update_if_multiple pre_50 50 current_block_id updated_data) (\<lambda>(pre_50, post_50).
     Inr (program_output_new self caller words [pre_01, pre_10, pre_50] [post_01, post_10, post_50]))))))))))"

section \<open>Contracts\<close>

lemma at_transfer_Inr:
  "at_transfer s r n = Inr posts \<longleftrightarrow>
     is_authorized s \<and> unat n \<le> unat (balance (account s)) \<and>
     unat (balance (account r)) + unat n < 2 ^ 128 \<and>
     posts = [post_new ((account s)\<lparr> balance := balance (account s) - n \<rparr>),
              \<lparr> ps_account = (account r)\<lparr> balance := balance (account r) + n \<rparr>,
                ps_claim = (if program_owner (account r) = DEFAULT_PROGRAM_ID
                            then Some Claim_Authorized else None) \<rparr>]"
  by (auto simp: at_transfer_def checked_sub_def checked_add_def res_simps Let_def
      new_claimed_def post_new_def)

lemma at_main_Inr:
  "at_main dec self caller pres words = Inr out \<longleftrightarrow>
     (\<exists>posts. out = program_output_new self caller words pres posts \<and>
        ((dec words = Some AT_Initialize \<and>
            (\<exists>a. pres = [a] \<and> account a = default_account \<and> posts = [new_claimed (account a) Claim_Authorized]))
         \<or> (\<exists>n s r. dec words = Some (AT_Transfer n) \<and> pres = [s, r] \<and> at_transfer s r n = Inr posts)))"
proof (cases "dec words")
  case None
  then show ?thesis by (simp add: at_main_def res_simps)
next
  case (Some i)
  then show ?thesis
    by (cases i) (auto simp: at_main_def at_initialize_account_def res_simps Let_def)
qed

interpretation at: guest_program "at_main dec" for dec
proof
  fix self caller pres words out
  assume run: "at_main dec self caller pres words = Inr out"
  then show "echoes self caller pres words out" by (auto simp: at_main_Inr)
  from run show "list_all2 frame_ok (map account pres) (map ps_account (post_states out))"
    by (auto simp: at_main_Inr at_transfer_Inr frame_ok_def)
  from run show "total (map ps_account (post_states out)) = total (map account pres)"
    by (auto simp: at_main_Inr at_transfer_Inr total_def unat_add_no_wrap unat_sub_no_wrap)
qed

interpretation vault: balance_neutral_guest "vault_main H dec enc_at" for H dec enc_at
proof
  fix self caller pres words out
  assume run: "vault_main H dec enc_at self caller pres words = Inr out"
  then show "echoes self caller pres words out"
    by (auto simp: vault_main_def Let_def res_simps)
  from run show "list_all2 (\<lambda>a b. frame_ok a b \<and> balance b = balance a)
      (map account pres) (map ps_account (post_states out))"
    by (auto simp: vault_main_def Let_def res_simps neutral_unchanged)
qed

interpretation faucet: balance_neutral_guest "faucet_main H dec enc_at enc_vault" for H dec enc_at enc_vault
proof
  fix self caller pres words out
  assume run: "faucet_main H dec enc_at enc_vault self caller pres words = Inr out"
  then show "echoes self caller pres words out"
    by (auto simp: faucet_main_def Let_def res_simps)
  from run show "list_all2 (\<lambda>a b. frame_ok a b \<and> balance b = balance a)
      (map account pres) (map ps_account (post_states out))"
    by (auto simp: faucet_main_def Let_def res_simps neutral_unchanged)
qed

interpretation bridge: balance_neutral_guest "bridge_main H dec enc_at enc_vault" for H dec enc_at enc_vault
proof
  fix self caller pres words out
  assume run: "bridge_main H dec enc_at enc_vault self caller pres words = Inr out"
  then show "echoes self caller pres words out"
    by (auto simp: bridge_main_def Let_def res_simps)
  from run show "list_all2 (\<lambda>a b. frame_ok a b \<and> balance b = balance a)
      (map account pres) (map ps_account (post_states out))"
    by (auto simp: bridge_main_def Let_def res_simps neutral_unchanged)
qed

section \<open>Clock lemmas\<close>

lemma clock_roundtrip [simp]: "clock_from_bytes (clock_to_bytes d) = Some d"
  by (simp add: clock_from_bytes_def clock_to_bytes_def)

lemma length_clock_to_bytes [simp]: "length (clock_to_bytes d) = 16"
  by (simp add: clock_to_bytes_def)

text \<open>The account of period \<open>m\<close> after block \<open>b\<close>.\<close>

definition clock_post :: "nat \<Rightarrow> u64 \<Rightarrow> u64 \<Rightarrow> account \<Rightarrow> account" where
  "clock_post m b ts a =
     (if unat b mod m = 0
      then a\<lparr> data := clock_to_bytes \<lparr> cad_block_id = b, cad_timestamp = ts \<rparr> \<rparr> else a)"

lemma update_if_multiple_eq:
  "update_if_multiple pre divisor b (clock_to_bytes \<lparr> cad_block_id = b, cad_timestamp = ts \<rparr>) =
     Inr (pre, post_new (clock_post (unat divisor) b ts (account pre)))"
  by (simp add: update_if_multiple_def clock_post_def data_try_from_def DATA_MAX_LENGTH_def)

definition clock_accounts :: "program_id \<Rightarrow> account_meta list \<Rightarrow> bool" where
  "clock_accounts self pres \<longleftrightarrow>
     map account_id pres = CLOCK_PROGRAM_ACCOUNT_IDS \<and> (\<forall>p \<in> set pres. program_owner (account p) = self)"

lemma clock_main_eq:
  assumes "dec words = Some ts" "pres = [p01, p10, p50]" "clock_accounts self pres"
    "clock_from_bytes (data (account p01)) = Some prev" "checked_add (cad_block_id prev) 1 = Some b"
  shows "clock_main dec self caller pres words =
    Inr (program_output_new self caller words pres
      [post_new (clock_post 1 b ts (account p01)), post_new (clock_post 10 b ts (account p10)),
       post_new (clock_post 50 b ts (account p50))])"
  using assms
  by (simp add: clock_main_def read_lee_inputs_def clock_accounts_def CLOCK_PROGRAM_ACCOUNT_IDS_def
      Let_def update_if_multiple_eq)

lemma clock_main_Inr:
  assumes "clock_main dec self caller pres words = Inr out"
  obtains ts p01 p10 p50 prev b where "dec words = Some ts" "pres = [p01, p10, p50]"
    "clock_accounts self pres" "clock_from_bytes (data (account p01)) = Some prev"
    "checked_add (cad_block_id prev) 1 = Some b"
    "out = program_output_new self caller words pres
      [post_new (clock_post 1 b ts (account p01)), post_new (clock_post 10 b ts (account p10)),
       post_new (clock_post 50 b ts (account p50))]"
proof -
  obtain ts p01 p10 p50 prev b where *: "dec words = Some ts" "pres = [p01, p10, p50]"
    "account_id p01 = CLOCK_01_PROGRAM_ACCOUNT_ID" "account_id p10 = CLOCK_10_PROGRAM_ACCOUNT_ID"
    "account_id p50 = CLOCK_50_PROGRAM_ACCOUNT_ID" "program_owner (account p01) = self"
    "program_owner (account p10) = self" "program_owner (account p50) = self"
    "clock_from_bytes (data (account p01)) = Some prev" "checked_add (cad_block_id prev) 1 = Some b"
    using assms unfolding clock_main_def res_simps by blast
  have "clock_accounts self pres"
    using * by (simp add: clock_accounts_def CLOCK_PROGRAM_ACCOUNT_IDS_def)
  with * clock_main_eq [of dec words ts pres p01 p10 p50 self prev b caller] assms that show thesis
    by simp
qed

interpretation clock: balance_neutral_guest "clock_main dec" for dec
proof
  fix self caller pres words out
  assume run: "clock_main dec self caller pres words = Inr out"
  then show "echoes self caller pres words out" by (elim clock_main_Inr) simp
  from run show "list_all2 (\<lambda>a b. frame_ok a b \<and> balance b = balance a)
      (map account pres) (map ps_account (post_states out))"
    by (elim clock_main_Inr) (simp add: clock_post_def frame_ok_def)
qed

section \<open>What the system programs do\<close>

text \<open>
  Authenticated transfer is exact.  The guest succeeds precisely on an initialisation of one
  default account, or on a transfer between two accounts whose sender is authorized and has the
  amount, and whose recipient has room for it; it then moves exactly the amount, keeps everything
  else, and claims a recipient that has no owner.
\<close>

lemma at_main_characterised:
  "at_main dec self caller pres words = Inr out \<longleftrightarrow>
     (\<exists>posts. out = program_output_new self caller words pres posts \<and>
       ((\<exists>a. dec words = Some AT_Initialize \<and> pres = [a] \<and> account a = default_account
          \<and> posts = [new_claimed default_account Claim_Authorized])
       \<or> (\<exists>n s r. dec words = Some (AT_Transfer n) \<and> pres = [s, r] \<and> is_authorized s
          \<and> unat n \<le> unat (balance (account s)) \<and> unat (balance (account r)) + unat n < 2 ^ 128
          \<and> posts = [post_new ((account s)\<lparr> balance := balance (account s) - n \<rparr>),
              \<lparr> ps_account = (account r)\<lparr> balance := balance (account r) + n \<rparr>,
                ps_claim = (if program_owner (account r) = DEFAULT_PROGRAM_ID then Some Claim_Authorized else None) \<rparr>])))"
  unfolding at_main_Inr at_transfer_Inr by fastforce

text \<open>
  The clock.  On the three clock accounts, owned by the clock and with a readable previous block
  number below the maximum, the guest succeeds; the block number grows by one, and exactly the
  accounts whose period divides it are rewritten with it and the timestamp.
\<close>

lemma clock_ticks:
  assumes "dec words = Some ts" and "clock_accounts self [p01, p10, p50]"
    and "clock_from_bytes (data (account p01)) = Some prev"
    and "unat (cad_block_id prev) + 1 < 2 ^ 64"
  shows "clock_main dec self caller [p01, p10, p50] words =
    Inr (program_output_new self caller words [p01, p10, p50]
      (map post_new [clock_post 1 (cad_block_id prev + 1) ts (account p01),
        clock_post 10 (cad_block_id prev + 1) ts (account p10), clock_post 50 (cad_block_id prev + 1) ts (account p50)]))"
  using clock_main_eq [of dec words ts "[p01, p10, p50]" p01 p10 p50 self prev "cad_block_id prev + 1" caller] assms
  by (simp add: checked_add_def)

text \<open>
  The faucet and the bridge cannot be reached through chained calls: with a caller, both panic
  on every input, so that no other program can spend from their accounts in their name.
\<close>

lemma faucet_bridge_unchained:
  "\<not> is_ok (faucet_main H dec enc_at enc_vault self (Some c) pres words)
    \<and> \<not> is_ok (bridge_main H dec' enc_at enc_vault self (Some c) pres words)"
  by (cases "dec words"; cases "dec' words")
    (simp_all add: faucet_main_def bridge_main_def read_lee_inputs_def is_ok_def)

end
