(* ===== verification/State.thy ===== *)
theory State
  imports Merkle_Tree System_Programs
begin

text \<open>
  The state of the ledger (\<open>lee/state_machine/src/state.rs\<close>): public accounts, the set of
  commitments with its Merkle tree and root history, the set of nullifiers, the deployed
  programs; the genesis states and the application of a validated diff.  \<open>None\<close> is a panic
  (a nonce at its maximum, or a commitment tree at its maximal capacity).
\<close>

section \<open>Errors\<close>

datatype invalid_program_behavior =
    InconsistentAccountPreState account_id account account
  | InvalidAccountAuthorization account_id
  | AuthorizedAccountMarkedAsNotAuthorized account_id
  | MismatchedProgramId program_id program_id
  | MismatchedCallerProgramId "program_id option" "program_id option"
  | ExecutionValidationFailed execution_validation_error
  | ClaimedNonDefaultAccount account_id
  | ClaimedUnauthorizedAccount account_id
  | MismatchedPdaClaim account_id account_id
  | DefaultAccountModifiedWithoutClaim account_id
  | UndeclaredProgramDependency program_id

datatype lee_error =
    InvalidInput string
  | InvalidProgramBehavior invalid_program_behavior
  | ProgramWriteInputFailed string
  | ProgramExecutionFailed string
  | ProgramProveFailed string
  | ProgramOutputDeserializationError string
  | CircuitOutputDeserializationError string
  | InvalidPrivacyPreservingProof
  | CircuitProvingError string
  | InvalidProgramBytecode
  | ProgramAlreadyExists
  | MaxChainedCallsDepthExceeded
  | OutOfValidityWindow

section \<open>Commitments and nullifiers\<close>

record commitment_set =
  cs_tree :: merkle_tree
  cs_commitments :: "(commitment, nat) fmap"
  cs_root_history :: "digest fset"

definition cs_digest :: "commitment_set \<Rightarrow> digest option" where
  "cs_digest cs = root (cs_tree cs)"

text \<open>The outer option is the panic of the tree, the inner one the result.\<close>

definition get_proof_for :: "commitment_set \<Rightarrow> commitment \<Rightarrow> membership_proof option option" where
  "get_proof_for cs c =
     (case fmlookup (cs_commitments cs) c of
        None \<Rightarrow> Some None
      | Some index \<Rightarrow>
          map_option (map_option (\<lambda>path. (index, path))) (get_authentication_path_for (cs_tree cs) index))"

fun insert_commitments :: "hash_fn \<Rightarrow> commitment list \<Rightarrow> commitment_set \<Rightarrow> commitment_set option" where
  "insert_commitments H [] cs = Some cs"
| "insert_commitments H (c # rest) cs =
     (case mt_insert H c (cs_tree cs) of
        None \<Rightarrow> None
      | Some (index, tree) \<Rightarrow>
          insert_commitments H rest
            (cs\<lparr> cs_tree := tree, cs_commitments := fmupd c index (cs_commitments cs) \<rparr>))"

definition cs_extend :: "hash_fn \<Rightarrow> commitment list \<Rightarrow> commitment_set \<Rightarrow> commitment_set option" where
  "cs_extend H new cs =
     (case insert_commitments H new cs of
        None \<Rightarrow> None
      | Some cs \<Rightarrow>
          (case cs_digest cs of
             None \<Rightarrow> None
           | Some d \<Rightarrow> Some (cs\<lparr> cs_root_history := finsert d (cs_root_history cs) \<rparr>)))"

definition cs_contains :: "commitment_set \<Rightarrow> commitment \<Rightarrow> bool" where
  "cs_contains cs c \<longleftrightarrow> fmlookup (cs_commitments cs) c \<noteq> None"

definition cs_with_capacity :: "nat \<Rightarrow> commitment_set option" where
  "cs_with_capacity cap =
     map_option (\<lambda>t. \<lparr> cs_tree = t, cs_commitments = fmempty, cs_root_history = {||} \<rparr>) (with_capacity cap)"

definition ns_extend :: "nullifier list \<Rightarrow> nullifier fset \<Rightarrow> nullifier fset" where
  "ns_extend new ns = ns |\<union>| fset_of_list new"

text \<open>Reading a nullifier set back rejects duplicates (\<open>deserialize_reader\<close>).\<close>

fun ns_from_vec :: "nullifier list \<Rightarrow> nullifier fset \<Rightarrow> nullifier fset option" where
  "ns_from_vec [] s = Some s"
| "ns_from_vec (n # ns) s = (if n |\<in>| s then None else ns_from_vec ns (finsert n s))"

section \<open>The state\<close>

record program =
  prog_id :: program_id
  prog_elf :: bytes

record v03_state =
  public_state :: "(account_id, account) fmap"
  commitment_state :: commitment_set
  nullifier_state :: "nullifier fset"
  programs :: "(program_id, program) fmap"

text \<open>The programs compiled into the node (generated by the build).\<close>

record builtins =
  bi_authenticated_transfer :: program
  bi_token :: program
  bi_amm :: program
  bi_ata :: program
  bi_clock :: program
  bi_vault :: program
  bi_faucet :: program
  bi_bridge :: program
  bi_pinata :: program
  bi_pinata_token :: program

definition get_account_by_id :: "v03_state \<Rightarrow> account_id \<Rightarrow> account" where
  "get_account_by_id s i =
     (case fmlookup (public_state s) i of Some a \<Rightarrow> a | None \<Rightarrow> default_account)"

definition insert_program :: "program \<Rightarrow> v03_state \<Rightarrow> v03_state" where
  "insert_program p s = s\<lparr> programs := fmupd (prog_id p) p (programs s) \<rparr>"

definition system_faucet_account :: "builtins \<Rightarrow> account" where
  "system_faucet_account bi =
     default_account\<lparr> program_owner := prog_id (bi_authenticated_transfer bi), balance := u128_MAX \<rparr>"

definition system_bridge_account :: "builtins \<Rightarrow> account" where
  "system_bridge_account bi =
     default_account\<lparr> program_owner := prog_id (bi_authenticated_transfer bi) \<rparr>"

definition system_faucet_account_id :: "hash_fn \<Rightarrow> builtins \<Rightarrow> account_id" where
  "system_faucet_account_id H bi = compute_faucet_account_id H (prog_id (bi_faucet bi))"

definition system_bridge_account_id :: "hash_fn \<Rightarrow> builtins \<Rightarrow> account_id" where
  "system_bridge_account_id H bi = compute_bridge_account_id H (prog_id (bi_bridge bi))"

definition default_state :: "hash_fn \<Rightarrow> builtins \<Rightarrow> v03_state option" where
  "default_state H bi =
     map_option (\<lambda>cs.
       \<lparr> public_state =
           fmupd (system_bridge_account_id H bi) (system_bridge_account bi)
             (fmupd (system_faucet_account_id H bi) (system_faucet_account bi) fmempty),
         commitment_state = cs, nullifier_state = {||}, programs = fmempty \<rparr>)
     (cs_with_capacity 32)"

definition insert_clock_accounts :: "builtins \<Rightarrow> u64 \<Rightarrow> v03_state \<Rightarrow> v03_state" where
  "insert_clock_accounts bi genesis_timestamp s =
     (let d = clock_to_bytes \<lparr> cad_block_id = 0, cad_timestamp = genesis_timestamp \<rparr> in
      s\<lparr> public_state :=
           fold (\<lambda>i m. fmupd i (default_account\<lparr> program_owner := prog_id (bi_clock bi), data := d \<rparr>) m)
             CLOCK_PROGRAM_ACCOUNT_IDS (public_state s) \<rparr>)"

definition new_with_genesis_accounts ::
  "hash_fn \<Rightarrow> builtins \<Rightarrow> (account_id \<times> u128) list \<Rightarrow> (commitment \<times> nullifier) list \<Rightarrow> u64
   \<Rightarrow> v03_state option" where
  "new_with_genesis_accounts H bi initial_data initial_private genesis_timestamp =
     (let accounts =
        fold (\<lambda>(i, b) m. fmupd i (default_account\<lparr> balance := b,
                program_owner := prog_id (bi_authenticated_transfer bi) \<rparr>) m) initial_data fmempty;
        accounts = fmupd (system_faucet_account_id H bi) (system_faucet_account bi) accounts;
        accounts = fmupd (system_bridge_account_id H bi) (system_bridge_account bi) accounts
      in Option.bind (cs_with_capacity 32) (\<lambda>cs.
         Option.bind (cs_extend H [DUMMY_COMMITMENT] cs) (\<lambda>cs.
         Option.bind (cs_extend H (map fst initial_private) cs) (\<lambda>cs.
         let this = \<lparr> public_state = accounts, commitment_state = cs,
                      nullifier_state = ns_extend (map snd initial_private) {||}, programs = fmempty \<rparr>;
             this = insert_program (bi_clock bi) this;
             this = insert_clock_accounts bi genesis_timestamp this
         in Some (fold insert_program
                    [bi_authenticated_transfer bi, bi_token bi, bi_amm bi, bi_ata bi, bi_vault bi,
                     bi_faucet bi, bi_bridge bi] this)))))"

definition add_pinata_program :: "builtins \<Rightarrow> account_id \<Rightarrow> v03_state \<Rightarrow> v03_state" where
  "add_pinata_program bi i s =
     (let s = insert_program (bi_pinata bi) s in
      s\<lparr> public_state := fmupd i \<lparr> program_owner = prog_id (bi_pinata bi), balance = 1500000,
                                   data = replicate 33 3, nonce = 0 \<rparr> (public_state s) \<rparr>)"

definition add_pinata_token_program :: "builtins \<Rightarrow> account_id \<Rightarrow> v03_state \<Rightarrow> v03_state" where
  "add_pinata_token_program bi i s =
     (let s = insert_program (bi_pinata_token bi) s in
      s\<lparr> public_state := fmupd i (default_account\<lparr> program_owner := prog_id (bi_pinata_token bi),
                                                   data := replicate 33 3 \<rparr>) (public_state s) \<rparr>)"

section \<open>Checks on private data\<close>

definition check_commitments_are_new :: "v03_state \<Rightarrow> commitment list \<Rightarrow> (lee_error, unit) result" where
  "check_commitments_are_new s new =
     for_each (\<lambda>c. ensure (\<not> cs_contains (commitment_state s) c)
                     (InvalidInput ''Commitment already seen'') (Inr ())) new"

definition check_nullifiers_are_valid ::
  "v03_state \<Rightarrow> (nullifier \<times> digest) list \<Rightarrow> (lee_error, unit) result" where
  "check_nullifiers_are_valid s new =
     for_each (\<lambda>(n, d).
       ensure (\<not> n |\<in>| nullifier_state s) (InvalidInput ''Nullifier already seen'') (
       ensure (d |\<in>| cs_root_history (commitment_state s))
         (InvalidInput ''Unrecognized commitment set digest'') (Inr ()))) new"

section \<open>Applying a diff\<close>

record state_diff =
  sd_signer_account_ids :: "account_id list"
  sd_public_diff :: "(account_id, account) fmap"
  sd_new_commitments :: "commitment list"
  sd_new_nullifiers :: "nullifier list"
  sd_program :: "program option"

fun increment_nonces ::
  "account_id list \<Rightarrow> (account_id, account) fmap \<Rightarrow> (account_id, account) fmap option" where
  "increment_nonces [] m = Some m"
| "increment_nonces (i # rest) m =
     (let a = (case fmlookup m i of Some a \<Rightarrow> a | None \<Rightarrow> default_account) in
      case public_account_nonce_increment (nonce a) of
        None \<Rightarrow> None
      | Some n \<Rightarrow> increment_nonces rest (fmupd i (a\<lparr> nonce := n \<rparr>) m))"

definition apply_state_diff :: "hash_fn \<Rightarrow> state_diff \<Rightarrow> v03_state \<Rightarrow> v03_state option" where
  "apply_state_diff H d s =
     Option.bind (increment_nonces (sd_signer_account_ids d) (fmadd (public_state s) (sd_public_diff d)))
       (\<lambda>pub.
     Option.bind (cs_extend H (sd_new_commitments d) (commitment_state s)) (\<lambda>cs.
     let s = s\<lparr> public_state := pub, commitment_state := cs,
                nullifier_state := ns_extend (sd_new_nullifiers d) (nullifier_state s) \<rparr>
     in Some (case sd_program d of None \<Rightarrow> s | Some p \<Rightarrow> insert_program p s)))"

section \<open>The commitment set as a list of commitments\<close>

text \<open>
  \<open>cs_inv H cs vs\<close>: the set holds the commitments \<open>vs\<close> in order of insertion; the index map
  points every one of them to a leaf that carries it; every recorded root is the root of an
  initial segment.
\<close>

definition cs_inv :: "hash_fn \<Rightarrow> commitment_set \<Rightarrow> commitment list \<Rightarrow> bool" where
  "cs_inv H cs vs \<longleftrightarrow>
     mt_inv H (cs_tree cs) vs
   \<and> (\<forall>c i. fmlookup (cs_commitments cs) c = Some i \<longrightarrow> i < length vs \<and> vs ! i = c)
   \<and> (\<forall>c. fmlookup (cs_commitments cs) c = None \<longrightarrow> c \<notin> set vs)
   \<and> (\<forall>d. d |\<in>| cs_root_history cs \<longrightarrow> (\<exists>k \<le> length vs. d = mroot H (take k vs)))"

lemma cs_invD:
  assumes "cs_inv H cs vs"
  shows "mt_inv H (cs_tree cs) vs"
    "fmlookup (cs_commitments cs) c = Some i \<Longrightarrow> i < length vs \<and> vs ! i = c"
    "fmlookup (cs_commitments cs) c = None \<Longrightarrow> c \<notin> set vs"
    "d |\<in>| cs_root_history cs \<Longrightarrow> \<exists>k \<le> length vs. d = mroot H (take k vs)"
  using assms unfolding cs_inv_def by blast+

lemma cs_inv_contains: "cs_inv H cs vs \<Longrightarrow> cs_contains cs c \<longleftrightarrow> c \<in> set vs"
  unfolding cs_contains_def using cs_invD(2,3) by (metis not_Some_eq nth_mem)

lemma insert_commitments_inv:
  assumes "cs_inv H cs vs" "length vs + length new \<le> 2 ^ 31"
  shows "\<exists>cs'. insert_commitments H new cs = Some cs' \<and> cs_inv H cs' (vs @ new)
    \<and> cs_root_history cs' = cs_root_history cs"
  using assms
proof (induction new arbitrary: cs vs)
  case (Cons c new)
  have tree: "mt_inv H (cs_tree cs) vs" using Cons.prems(1) by (simp add: cs_inv_def)
  obtain t where t: "mt_insert H c (cs_tree cs) = Some (length vs, t)" "mt_inv H t (vs @ [c])"
    using mt.insert_repr [OF tree, of c] Cons.prems(2) by auto
  let ?cs = "cs\<lparr> cs_tree := t, cs_commitments := fmupd c (length vs) (cs_commitments cs) \<rparr>"
  have "cs_inv H ?cs (vs @ [c])"
    unfolding cs_inv_def
  proof (intro conjI allI impI)
    fix x i assume "fmlookup (cs_commitments ?cs) x = Some i"
    then show "i < length (vs @ [c])" "(vs @ [c]) ! i = x"
      using cs_invD(2) [OF Cons.prems(1), of x i] by (auto simp: nth_append split: if_splits)
  next
    fix x assume "fmlookup (cs_commitments ?cs) x = None"
    then show "x \<notin> set (vs @ [c])"
      using cs_invD(3) [OF Cons.prems(1), of x] by (auto split: if_splits)
  next
    fix d assume "d |\<in>| cs_root_history ?cs"
    then obtain k where "k \<le> length vs" "d = mroot H (take k vs)"
      using cs_invD(4) [OF Cons.prems(1)] by auto
    then show "\<exists>k \<le> length (vs @ [c]). d = mroot H (take k (vs @ [c]))"
      by (intro exI [of _ k]) simp
  qed (use t(2) in simp)
  from Cons.IH [OF this] Cons.prems(2) t(1) show ?case by auto
qed simp

lemma cs_extend_inv:
  assumes "cs_inv H cs vs" "length vs + length new \<le> 2 ^ 31"
  obtains cs' where "cs_extend H new cs = Some cs'" "cs_inv H cs' (vs @ new)"
    "cs_root_history cs' = finsert (mroot H (vs @ new)) (cs_root_history cs)"
proof -
  obtain cs1 where 1: "insert_commitments H new cs = Some cs1" "cs_inv H cs1 (vs @ new)"
    "cs_root_history cs1 = cs_root_history cs"
    using insert_commitments_inv [OF assms] by blast
  have r: "cs_digest cs1 = Some (mroot H (vs @ new))"
    using 1(2) mt.root_repr by (auto simp: cs_digest_def cs_inv_def)
  let ?cs = "cs1\<lparr> cs_root_history := finsert (mroot H (vs @ new)) (cs_root_history cs1) \<rparr>"
  have "\<exists>k \<le> length (vs @ new). d = mroot H (take k (vs @ new))"
    if "d |\<in>| cs_root_history ?cs" for d
    using that cs_invD(4) [OF 1(2), of d] by (auto intro: exI [of _ "length (vs @ new)"])
  then have "cs_inv H ?cs (vs @ new)" using 1(2) by (simp add: cs_inv_def)
  with that [of ?cs] 1 r show thesis by (simp add: cs_extend_def)
qed

lemma cs_with_capacity_inv:
  obtains cs where "cs_with_capacity 32 = Some cs" "cs_inv H cs []" "cs_root_history cs = {||}"
proof -
  have "clog 32 < 32" using clog_le_iff [of 32 5] by simp
  from with_capacity_inv [OF this] obtain t where "with_capacity 32 = Some t" "mt_inv H t []" .
  then show thesis
    using that [of "\<lparr> cs_tree = t, cs_commitments = fmempty, cs_root_history = {||} \<rparr>"]
    by (simp add: cs_with_capacity_def cs_inv_def)
qed

lemma get_proof_for_Some:
  assumes "cs_inv H cs vs" "c \<in> set vs"
  obtains mp where "get_proof_for cs c = Some (Some mp)"
    "cs_digest cs = Some (compute_digest_for_path H c mp)"
proof -
  obtain i where i: "fmlookup (cs_commitments cs) c = Some i" "i < length vs" "vs ! i = c"
    using cs_invD(2,3) [OF assms(1)] assms(2) by (metis not_Some_eq)
  have tree: "mt_inv H (cs_tree cs) vs" using assms(1) by (simp add: cs_inv_def)
  obtain p where "get_authentication_path_for (cs_tree cs) i = Some (Some p)"
    "compute_digest_for_path H c (i, p) = mroot H vs"
    using mt.path_repr [OF tree i(2)] i(3) by auto
  with that [of "(i, p)"] i(1) mt.root_repr [OF tree] show thesis
    by (simp add: get_proof_for_def cs_digest_def)
qed

lemma get_proof_for_None:
  "cs_inv H cs vs \<Longrightarrow> c \<notin> set vs \<Longrightarrow> get_proof_for cs c = Some None"
  using cs_invD(2) [of H cs vs c] by (auto simp: get_proof_for_def split: option.splits)

section \<open>Nonces and balances under a diff\<close>

definition acct :: "(account_id, account) fmap \<Rightarrow> account_id \<Rightarrow> account" where
  "acct m i = (case fmlookup m i of Some a \<Rightarrow> a | None \<Rightarrow> default_account)"

lemma get_account_acct: "get_account_by_id s i = acct (public_state s) i"
  by (simp add: get_account_by_id_def acct_def)

lemma acct_upd [simp]: "acct (fmupd k a m) i = (if i = k then a else acct m i)"
  by (simp add: acct_def)

lemma acct_add: "acct (fmadd m d) i = (case fmlookup d i of Some a \<Rightarrow> a | None \<Rightarrow> acct m i)"
  by (auto simp: acct_def split: option.splits dest: fmdomI)

definition total_supply :: "(account_id, account) fmap \<Rightarrow> nat" where
  "total_supply m = fm_sum (unat \<circ> balance) m"

lemma total_supply_upd: "total_supply (fmupd k a m) + unat (balance (acct m k)) = total_supply m + unat (balance a)"
  using fm_sum_upd [of "unat \<circ> balance" k a m]
  by (auto simp: total_supply_def acct_def split: option.splits)

lemma increment_nonces_acct:
  "increment_nonces is m = Some m' \<Longrightarrow>
     (let a = acct m i; b = acct m' i in
      program_owner b = program_owner a \<and> balance b = balance a \<and> data b = data a
      \<and> unat (nonce b) = unat (nonce a) + count_list is i)"
proof (induction "is" arbitrary: m)
  case (Cons j js)
  then obtain n where n: "unat n = unat (nonce (acct m j)) + 1"
    and r: "increment_nonces js (fmupd j ((acct m j)\<lparr> nonce := n \<rparr>) m) = Some m'"
    by (auto simp: Let_def acct_def arith_simps split: option.splits)
  show ?case using Cons.IH [OF r] n by (auto simp: Let_def)
qed (simp add: Let_def)

lemma increment_nonces_supply: "increment_nonces is m = Some m' \<Longrightarrow> total_supply m' = total_supply m"
proof (induction "is" arbitrary: m)
  case (Cons j js)
  then obtain n where r: "increment_nonces js (fmupd j ((acct m j)\<lparr> nonce := n \<rparr>) m) = Some m'"
    by (auto simp: Let_def acct_def split: option.splits)
  show ?case using Cons.IH [OF r] total_supply_upd [of j "(acct m j)\<lparr> nonce := n \<rparr>" m] by simp
qed simp

lemma apply_state_diff_Some:
  assumes "apply_state_diff H d s = Some s'"
  obtains pub cs where
    "increment_nonces (sd_signer_account_ids d) (fmadd (public_state s) (sd_public_diff d)) = Some pub"
    "cs_extend H (sd_new_commitments d) (commitment_state s) = Some cs"
    "public_state s' = pub" "commitment_state s' = cs"
    "nullifier_state s' = nullifier_state s |\<union>| fset_of_list (sd_new_nullifiers d)"
    "programs s' = (case sd_program d of None \<Rightarrow> programs s | Some p \<Rightarrow> fmupd (prog_id p) p (programs s))"
  using assms
  by (cases "sd_program d")
    (auto simp: apply_state_diff_def bind_eq_Some_conv Let_def ns_extend_def insert_program_def)

lemma check_commitments_Inr [res_simps]:
  "check_commitments_are_new s new = Inr u \<longleftrightarrow> (\<forall>c \<in> set new. \<not> cs_contains (commitment_state s) c)"
  by (simp add: check_commitments_are_new_def res_simps)

lemma check_nullifiers_Inr [res_simps]:
  "check_nullifiers_are_valid s new = Inr u \<longleftrightarrow>
     (\<forall>(n, d) \<in> set new. n |\<notin>| nullifier_state s \<and> d |\<in>| cs_root_history (commitment_state s))"
  by (auto simp: check_nullifiers_are_valid_def res_simps)

end
