(* ===== verification/Membership.thy ===== *)
theory Membership
  imports State
begin

text \<open>
  Membership proofs cannot be forged: a proof that folds to a recorded digest of the commitment
  set is for a commitment of the set, unless the hash collides, or has a preimage of the empty
  leaf, among the strings that were hashed.  The circuit does not check the length of a proof;
  none is needed, because leaves hash 32 bytes and inner nodes 64.
\<close>

section \<open>Hashed strings\<close>

text \<open>The strings hashed while a membership proof is folded.\<close>

fun loop_inputs :: "hash_fn \<Rightarrow> bytes \<Rightarrow> nat \<Rightarrow> bytes list \<Rightarrow> bytes set" where
  "loop_inputs H r i [] = {}"
| "loop_inputs H r i (n # path) =
     (let x = (if even i then r @ n else n @ r)
      in insert x (loop_inputs H (H x) (i div 2) path))"

definition proof_inputs :: "hash_fn \<Rightarrow> commitment \<Rightarrow> membership_proof \<Rightarrow> bytes set" where
  "proof_inputs H c mp = insert c (loop_inputs H (H c) (fst mp) (snd mp))"

text \<open>The strings hashed in the tree over a list of values.\<close>

primrec node_inputs :: "hash_fn \<Rightarrow> bytes list \<Rightarrow> nat \<Rightarrow> nat \<Rightarrow> bytes set" where
  "node_inputs H vs 0 p = (if p < length vs then {vs ! p} else {})"
| "node_inputs H vs (Suc h) p =
     insert (padded_node H vs h (2 * p) @ padded_node H vs h (2 * p + 1))
       (node_inputs H vs h (2 * p) \<union> node_inputs H vs h (2 * p + 1))"

definition tree_inputs :: "hash_fn \<Rightarrow> bytes list \<Rightarrow> bytes set" where
  "tree_inputs H vs = node_inputs H vs (clog (length vs)) 0"

text \<open>
  No collision within \<open>D\<close>, no preimage of the empty leaf in \<open>D\<close>, 32 byte digests, and the table of
  defaults is the one the hash generates.
\<close>

definition hash_ok :: "hash_fn \<Rightarrow> bytes set \<Rightarrow> bool" where
  "hash_ok H D \<longleftrightarrow> inj_on H D \<and> replicate 32 0 \<notin> H ` D \<and> (\<forall>x. length (H x) = 32) \<and> default_chain H"

section \<open>Soundness\<close>

lemma loop_inputs_append:
  "loop_inputs H r i (p @ q) = loop_inputs H r i p \<union> loop_inputs H (digest_loop H r i p) (i div 2 ^ length p) q"
  by (induction p arbitrary: r i) (auto simp: Let_def div_mult2_eq)

lemma length_digest_loop:
  "(\<And>x. length (H x) = 32) \<Longrightarrow> length r = 32 \<Longrightarrow> length (digest_loop H r i p) = 32"
  by (induction p arbitrary: r i) simp_all

lemma length_padded_node: "(\<And>x. length (H x) = 32) \<Longrightarrow> length (padded_node H vs h p) = 32"
  by (cases h) simp_all

text \<open>A proof that folds to a node of the tree folds from a leaf below it.\<close>

lemma fold_to_node:
  assumes D: "inj_on H D" "replicate 32 0 \<notin> H ` D" and len: "\<And>x. length (H x) = 32"
    and vs: "\<forall>v \<in> set vs. length v \<noteq> 64" and c: "length c \<noteq> 64" "c \<in> D"
    and q: "\<forall>n \<in> set q. length n = 32" "loop_inputs H (H c) i q \<subseteq> D" "node_inputs H vs h p \<subseteq> D"
    and eq: "digest_loop H (H c) i q = padded_node H vs h p"
  shows "c \<in> set vs"
  using q eq
proof (induction q arbitrary: h p rule: rev_induct)
  case Nil
  then have e: "H c = padded_node H vs h p" by simp
  show ?case
  proof (cases h)
    case 0
    with e c(2) D(2) have p: "p < length vs" by (metis imageI padded_node.simps(1))
    with 0 e have "c = vs ! p" using inj_onD [OF D(1), of c "vs ! p"] c(2) Nil.prems(3) by simp
    with p show ?thesis by simp
  next
    case (Suc k)
    let ?x = "padded_node H vs k (2 * p) @ padded_node H vs k (2 * p + 1)"
    have "c = ?x" using inj_onD [OF D(1), of c ?x] e c(2) Nil.prems(3) Suc by simp
    then have "length c = 64" by (simp add: length_padded_node [OF len])
    with c(1) show ?thesis by simp
  qed
next
  case (snoc n q)
  let ?r = "digest_loop H (H c) i q"
  have lr: "length ?r = 32" "length n = 32" using length_digest_loop [OF len] len snoc.prems(1) by simp_all
  define x where "x = (if even (i div 2 ^ length q) then ?r @ n else n @ ?r)"
  have x: "x \<in> D" and sub: "loop_inputs H (H c) i q \<subseteq> D"
    using snoc.prems(2) by (auto simp: loop_inputs_append Let_def x_def)
  have e: "H x = padded_node H vs h p"
    using snoc.prems(4) by (simp add: digest_loop_append x_def split: if_splits)
  have split: "x = ?r @ n \<or> x = n @ ?r" by (simp add: x_def)
  show ?case
  proof (cases h)
    case 0
    with e x D(2) have p: "p < length vs" by (metis imageI padded_node.simps(1))
    with 0 e have "x = vs ! p" using inj_onD [OF D(1), of x "vs ! p"] x snoc.prems(3) by simp
    then have "length (vs ! p) = 64" using split lr by auto
    with vs p show ?thesis by simp
  next
    case (Suc k)
    let ?l = "padded_node H vs k (2 * p)" and ?m = "padded_node H vs k (2 * p + 1)"
    have "x = ?l @ ?m" using inj_onD [OF D(1), of x "?l @ ?m"] x snoc.prems(3) e Suc by simp
    then have "?r = ?l \<or> ?r = ?m" using split lr by (auto simp: length_padded_node [OF len])
    then show ?thesis
      using snoc.IH [of k "2 * p"] snoc.IH [of k "2 * p + 1"] snoc.prems(1,3) sub Suc by auto
  qed
qed

lemma membership_sound:
  assumes ok: "hash_ok H D" and vs: "\<forall>v \<in> set vs. length v = 32" "length vs \<le> 2 ^ 31"
    and c: "length c = 32" "\<forall>n \<in> set (snd mp). length n = 32"
    and D: "proof_inputs H c mp \<subseteq> D" "tree_inputs H vs \<subseteq> D"
    and eq: "compute_digest_for_path H c mp = mroot H vs"
  shows "c \<in> set vs"
proof -
  have "clog (length vs) < 32" using clog_le_iff [of "length vs" 31] vs(2) by simp
  then have root: "mroot H vs = padded_node H vs (clog (length vs)) 0"
    using ok by (simp add: mroot_def hash_ok_def mnode_padded)
  show ?thesis
    by (rule fold_to_node [of H D vs c "snd mp" "fst mp" "clog (length vs)" 0])
      (use assms root in \<open>auto simp: hash_ok_def proof_inputs_def tree_inputs_def compute_digest_for_path_def\<close>)
qed

text \<open>The same for the digests a commitment set has recorded.\<close>

definition set_inputs :: "hash_fn \<Rightarrow> commitment list \<Rightarrow> bytes set" where
  "set_inputs H vs = (\<Union>k \<in> {..length vs}. tree_inputs H (take k vs))"

lemma recorded_sound:
  assumes "cs_inv H cs vs" "r |\<in>| cs_root_history cs" "hash_ok H D"
    and "\<forall>v \<in> set vs. length v = 32" "length vs \<le> 2 ^ 31"
    and "length c = 32" "\<forall>n \<in> set (snd mp). length n = 32"
    and "proof_inputs H c mp \<subseteq> D" "set_inputs H vs \<subseteq> D"
    and "compute_digest_for_path H c mp = r"
  shows "c \<in> set vs"
proof -
  obtain k where k: "k \<le> length vs" "r = mroot H (take k vs)" using cs_invD(4) [OF assms(1,2)] by blast
  have "c \<in> set (take k vs)"
    by (rule membership_sound [OF assms(3), of "take k vs" c mp])
      (use assms k in \<open>auto simp: set_inputs_def dest: in_set_takeD\<close>)
  then show ?thesis by (rule in_set_takeD)
qed

end
