(* ===== verification/Circuit.thy ===== *)
theory Circuit
  imports State
begin

text \<open>
  The privacy preserving circuit (\<open>lee/state_machine/core/src/circuit_io.rs\<close> and
  \<open>program_methods/guest/src/bin/privacy_preserving_circuit\<close>): it replays the outputs of a chain
  of program calls, checks them against each other, and emits the public states, the new
  commitments, the nullifiers and the encrypted notes.  A failed assertion is \<open>Inl\<close> with its
  message (the parts of a message that print a value are left out).

  Parameters: the hash \<open>H\<close>, the note cipher \<open>keystream\<close>, and \<open>verify\<close>, the check
  \<open>env::verify\<close> that a receipt of the given program with the given journal is at hand.
\<close>

section \<open>Inputs and outputs\<close>

type_synonym epk = bytes
type_synonym shared_secret = bytes

datatype input_account_identity =
    Public
  | PrivateAuthorizedInit epk u8 shared_secret nullifier_secret_key account_ident
  | PrivateAuthorizedUpdate epk u8 shared_secret nullifier_secret_key membership_proof account_ident
  | PrivateUnauthorized epk u8 nullifier_public_key shared_secret account_ident
  | PrivatePdaInit epk u8 nullifier_public_key shared_secret account_ident "(pda_seed \<times> program_id) option"
  | PrivatePdaUpdate epk u8 shared_secret nullifier_secret_key membership_proof account_ident
      "(pda_seed \<times> program_id) option"

record circuit_input =
  ci_program_outputs :: "program_output list"
  ci_account_identities :: "input_account_identity list"
  ci_program_id :: program_id

record encrypted_account_data =
  ead_ciphertext :: bytes
  ead_epk :: epk
  ead_view_tag :: u8

record circuit_output =
  co_public_pre_states :: "account_meta list"
  co_public_post_states :: "account list"
  co_encrypted_private_post_states :: "encrypted_account_data list"
  co_new_commitments :: "commitment list"
  co_new_nullifiers :: "(nullifier \<times> digest) list"
  co_block_validity_window :: validity_window
  co_timestamp_validity_window :: validity_window

definition is_public :: "input_account_identity \<Rightarrow> bool" where
  "is_public ident \<longleftrightarrow> (case ident of Public \<Rightarrow> True | _ \<Rightarrow> False)"

definition is_private_pda :: "input_account_identity \<Rightarrow> bool" where
  "is_private_pda ident \<longleftrightarrow>
     (case ident of PrivatePdaInit _ _ _ _ _ _ \<Rightarrow> True | PrivatePdaUpdate _ _ _ _ _ _ _ \<Rightarrow> True | _ \<Rightarrow> False)"

definition npk_if_private_pda ::
  "hash_fn \<Rightarrow> input_account_identity \<Rightarrow> (nullifier_public_key \<times> account_ident) option" where
  "npk_if_private_pda H ident =
     (case ident of
        PrivatePdaInit _ _ npk _ i _ \<Rightarrow> Some (npk, i)
      | PrivatePdaUpdate _ _ _ nsk _ i _ \<Rightarrow> Some (npk_of_nsk H nsk, i)
      | _ \<Rightarrow> None)"

section \<open>Execution state\<close>

type_synonym cpanic = string

record execution_state =
  es_pre_states :: "account_meta list"
  es_post_states :: "(account_id, account) fmap"
  es_block_validity_window :: validity_window
  es_timestamp_validity_window :: validity_window
  es_private_pda_bound_positions :: "(nat, program_id \<times> pda_seed) fmap"
  es_pda_family_binding :: "(program_id \<times> pda_seed, account_id) fmap"
  es_private_pda_npk_by_position :: "(nat, nullifier_public_key \<times> account_ident) fmap"
  es_authorized_accounts :: "account_id set"

definition assert_family_binding ::
  "program_id \<Rightarrow> pda_seed \<Rightarrow> account_id \<Rightarrow> execution_state \<Rightarrow> (cpanic, execution_state) result" where
  "assert_family_binding pid seed i es =
     (case fmlookup (es_pda_family_binding es) (pid, seed) of
        None \<Rightarrow> Inr (es\<lparr> es_pda_family_binding := fmupd (pid, seed) i (es_pda_family_binding es) \<rparr>)
      | Some j \<Rightarrow>
          ensure (j = i)
            ''Two different accounts resolved under the same (program, seed) in one transaction'' (Inr es))"

definition bind_private_pda_position ::
  "nat \<Rightarrow> program_id \<Rightarrow> pda_seed \<Rightarrow> execution_state \<Rightarrow> (cpanic, execution_state) result" where
  "bind_private_pda_position position pid seed es =
     (case fmlookup (es_private_pda_bound_positions es) position of
        Some b \<Rightarrow> ensure (b = (pid, seed)) ''Duplicate binding at position'' (Inr es)
      | None \<Rightarrow>
          Inr (es\<lparr> es_private_pda_bound_positions :=
                     fmupd position (pid, seed) (es_private_pda_bound_positions es) \<rparr>))"

text \<open>\<open>find_map\<close> over the caller's seeds: the first seed that derives the account, and its form.\<close>

fun match_caller_seed ::
  "hash_fn \<Rightarrow> program_id \<Rightarrow> account_id \<Rightarrow> (nullifier_public_key \<times> account_ident) option
   \<Rightarrow> pda_seed list \<Rightarrow> (pda_seed \<times> bool \<times> program_id) option" where
  "match_caller_seed H caller i npk [] = None"
| "match_caller_seed H caller i npk (seed # seeds) =
     (if for_public_pda H caller seed = i then Some (seed, False, caller)
      else if (case npk of None \<Rightarrow> False
                         | Some (npk, ident) \<Rightarrow> for_private_pda H caller seed npk ident = i)
           then Some (seed, True, caller)
      else match_caller_seed H caller i npk seeds)"

definition resolve_authorization_and_record_bindings ::
  "hash_fn \<Rightarrow> account_id \<Rightarrow> nat \<Rightarrow> program_id option \<Rightarrow> pda_seed list \<Rightarrow> bool \<Rightarrow> execution_state
   \<Rightarrow> (cpanic, bool \<times> execution_state) result" where
  "resolve_authorization_and_record_bindings H i position caller seeds previous_is_authorized es =
     (let matched = (case caller of
            None \<Rightarrow> None
          | Some c \<Rightarrow> match_caller_seed H c i (fmlookup (es_private_pda_npk_by_position es) position) seeds)
      in rbind (case matched of
             None \<Rightarrow> Inr es
           | Some (seed, is_private_form, c) \<Rightarrow>
               rbind (assert_family_binding c seed i es) (\<lambda>es.
               if is_private_form then bind_private_pda_position position c seed es else Inr es)) (\<lambda>es.
      if i \<in> es_authorized_accounts es then Inr (True, es)
      else let authorized = previous_is_authorized \<or> matched \<noteq> None in
           Inr (authorized,
                if authorized then es\<lparr> es_authorized_accounts := insert i (es_authorized_accounts es) \<rparr> else es)))"

fun find_pre :: "account_id \<Rightarrow> nat \<Rightarrow> account_meta list \<Rightarrow> (nat \<times> account_meta) option" where
  "find_pre i n [] = None"
| "find_pre i n (a # as) = (if account_id a = i then Some (n, a) else find_pre i (Suc n) as)"

text \<open>\<open>Entry::Occupied\<close>: the account was seen in an earlier call of the chain.\<close>

definition sync_seen ::
  "hash_fn \<Rightarrow> program_id option \<Rightarrow> pda_seed list \<Rightarrow> account_meta \<Rightarrow> account \<Rightarrow> execution_state
   \<Rightarrow> (cpanic, execution_state) result" where
  "sync_seen H caller seeds pre known es =
     ensure (known = account pre) ''Inconsistent pre state for account'' (
     expect (find_pre (account_id pre) 0 (es_pre_states es))
       ''Pre state must exist in execution state for account'' (\<lambda>(position, acc).
     rbind (resolve_authorization_and_record_bindings H (account_id pre) position caller seeds
              (is_authorized acc) es) (\<lambda>(is_auth, es).
     ensure (is_authorized pre = is_auth) ''Inconsistent authorization for account'' (Inr es))))"

text \<open>The external seed of a private PDA, checked the first time the account is seen.\<close>

definition external_seed ::
  "hash_fn \<Rightarrow> account_id \<Rightarrow> input_account_identity option \<Rightarrow> (cpanic, (pda_seed \<times> program_id) option) result" where
  "external_seed H i ident =
     (case ident of
        Some (PrivatePdaInit _ _ npk _ identifier' (Some (seed, authority))) \<Rightarrow>
          ensure (i = for_private_pda H authority seed npk identifier')
            ''External seed mismatch for PrivatePdaInit'' (Inr (Some (seed, authority)))
      | Some (PrivatePdaUpdate _ _ _ nsk _ identifier' (Some (seed, authority))) \<Rightarrow>
          ensure (i = for_private_pda H authority seed (npk_of_nsk H nsk) identifier')
            ''External seed mismatch for PrivatePdaUpdate'' (Inr (Some (seed, authority)))
      | _ \<Rightarrow> Inr None)"

definition nth_opt :: "'a list \<Rightarrow> nat \<Rightarrow> 'a option" where
  "nth_opt xs n = (if n < length xs then Some (xs ! n) else None)"

text \<open>\<open>Entry::Vacant\<close>: the account is seen for the first time.\<close>

definition sync_new ::
  "hash_fn \<Rightarrow> input_account_identity list \<Rightarrow> account_meta \<Rightarrow> execution_state
   \<Rightarrow> (cpanic, execution_state) result" where
  "sync_new H idents pre es =
     (let position = length (es_pre_states es) in
      rbind (external_seed H (account_id pre) (nth_opt idents position)) (\<lambda>ext.
      rbind (case ext of
               None \<Rightarrow> Inr es
             | Some (seed, authority) \<Rightarrow>
                 ensure (\<not> is_authorized pre)
                   ''Private PDA with externally-provided seed must not be authorized'' (
                 rbind (bind_private_pda_position position authority seed es) (\<lambda>es.
                 assert_family_binding authority seed (account_id pre) es))) (\<lambda>es.
      Inr (es\<lparr> es_pre_states := es_pre_states es @ [pre] \<rparr>))))"

definition sync_claim ::
  "hash_fn \<Rightarrow> input_account_identity list \<Rightarrow> program_id \<Rightarrow> account_meta \<Rightarrow> post_state \<Rightarrow> execution_state
   \<Rightarrow> (cpanic, account \<times> execution_state) result" where
  "sync_claim H idents pid pre post es =
     (case ps_claim post of
        None \<Rightarrow> Inr (ps_account post, es)
      | Some claim \<Rightarrow>
          ensure (program_owner (ps_account post) = DEFAULT_PROGRAM_ID) ''Cannot claim an initialized account'' (
          expect (find_pre (account_id pre) 0 (es_pre_states es)) ''Pre state must exist at this point'' (\<lambda>(position, _).
          expect (nth_opt idents position) ''index out of bounds'' (\<lambda>ident.
          rbind (if is_public ident then
                   (case claim of
                      Claim_Authorized \<Rightarrow>
                        ensure (is_authorized pre) ''Cannot claim unauthorized account'' (Inr es)
                    | Claim_Pda seed \<Rightarrow>
                        ensure (account_id pre = for_public_pda H pid seed) ''Invalid PDA claim for account'' (
                        assert_family_binding pid seed (account_id pre) es))
                 else
                   (case claim of
                      Claim_Authorized \<Rightarrow> Inr es
                    | Claim_Pda seed \<Rightarrow>
                        expect (fmlookup (es_private_pda_npk_by_position es) position)
                          ''private PDA pre_state must have an npk in the position map'' (\<lambda>(npk, identifier').
                        ensure (account_id pre = for_private_pda H pid seed npk identifier')
                          ''Invalid private PDA claim for account'' (
                        rbind (bind_private_pda_position position pid seed es) (\<lambda>es.
                        assert_family_binding pid seed (account_id pre) es))))) (\<lambda>es.
          Inr ((ps_account post)\<lparr> program_owner := pid \<rparr>, es))))))"

text \<open>One iteration of the loop of \<open>validate_and_sync_states\<close>.\<close>

definition sync_pair ::
  "hash_fn \<Rightarrow> input_account_identity list \<Rightarrow> program_id \<Rightarrow> program_id option \<Rightarrow> pda_seed list
   \<Rightarrow> account_meta \<times> post_state \<Rightarrow> execution_state \<Rightarrow> (cpanic, execution_state) result" where
  "sync_pair H idents pid caller seeds pp es =
     (case pp of (pre, post) \<Rightarrow>
      rbind (case fmlookup (es_post_states es) (account_id pre) of
               Some known \<Rightarrow> sync_seen H caller seeds pre known es
             | None \<Rightarrow> sync_new H idents pre es) (\<lambda>es.
      rbind (sync_claim H idents pid pre post es) (\<lambda>(a, es).
      Inr (es\<lparr> es_post_states := fmupd (account_id pre) a (es_post_states es) \<rparr>))))"

definition validate_and_sync_states ::
  "hash_fn \<Rightarrow> input_account_identity list \<Rightarrow> program_id \<Rightarrow> program_id option \<Rightarrow> pda_seed list
   \<Rightarrow> account_meta list \<Rightarrow> post_state list \<Rightarrow> execution_state \<Rightarrow> (cpanic, execution_state) result" where
  "validate_and_sync_states H idents pid caller seeds pres posts es =
     fold_res (sync_pair H idents pid caller seeds) (zip pres posts) es"

section \<open>Deriving the execution state\<close>

definition max_opt :: "u64 list \<Rightarrow> u64 option" where
  "max_opt xs = (case xs of [] \<Rightarrow> None | y # ys \<Rightarrow> Some (fold max ys y))"

definition min_opt :: "u64 list \<Rightarrow> u64 option" where
  "min_opt xs = (case xs of [] \<Rightarrow> None | y # ys \<Rightarrow> Some (fold min ys y))"

definition intersect_windows :: "validity_window list \<Rightarrow> (invalid_window, validity_window) result" where
  "intersect_windows ws =
     window_try_from (max_opt (List.map_filter vw_from ws), min_opt (List.map_filter vw_to ws))"

fun npk_map :: "hash_fn \<Rightarrow> nat \<Rightarrow> input_account_identity list \<Rightarrow> (nat, nullifier_public_key \<times> account_ident) fmap
   \<Rightarrow> (nat, nullifier_public_key \<times> account_ident) fmap" where
  "npk_map H n [] m = m"
| "npk_map H n (ident # idents) m =
     npk_map H (Suc n) idents (case npk_if_private_pda H ident of None \<Rightarrow> m | Some x \<Rightarrow> fmupd n x m)"

fun circuit_loop ::
  "hash_fn \<Rightarrow> (program_id \<Rightarrow> program_output \<Rightarrow> bool) \<Rightarrow> input_account_identity list \<Rightarrow> nat
   \<Rightarrow> (chained_call \<times> program_id option) list \<Rightarrow> program_output list \<Rightarrow> execution_state
   \<Rightarrow> (cpanic, execution_state) result" where
  "circuit_loop H verify idents counter [] outputs es =
     ensure (outputs = []) ''Inner call without a chained call found'' (Inr es)"
| "circuit_loop H verify idents counter ((call, caller) # queue) [] es =
     ensure (counter \<le> MAX_NUMBER_CHAINED_CALLS) ''Max chained calls depth is exceeded'' (
     Inl ''Insufficient program outputs for chained calls'')"
| "circuit_loop H verify idents counter ((call, caller) # queue) (out # outputs) es =
     ensure (counter \<le> MAX_NUMBER_CHAINED_CALLS) ''Max chained calls depth is exceeded'' (
     ensure (cc_instruction_data call = instruction_data out)
       ''Mismatched instruction data between chained call and program output'' (
     ensure (verify (cc_program_id call) out) ''no receipt for the program output'' (
     ensure (self_program_id out = cc_program_id call)
       ''Program output self_program_id does not match chained call program_id'' (
     ensure (caller_program_id out = caller)
       ''Program output caller_program_id does not match actual caller'' (
     rbind (map_err (\<lambda>_. ''Invalid program behavior'')
              (validate_execution (pre_states out) (post_states out) (cc_program_id call))) (\<lambda>_.
     rbind (validate_and_sync_states H idents (cc_program_id call) caller (cc_pda_seeds call)
              (pre_states out) (post_states out) es) (\<lambda>es.
     circuit_loop H verify idents (counter + 1)
       (map (\<lambda>c. (c, Some (cc_program_id call))) (chained_calls out) @ queue) outputs es)))))))"

definition check_bound_positions ::
  "input_account_identity list \<Rightarrow> execution_state \<Rightarrow> (cpanic, unit) result" where
  "check_bound_positions idents es =
     for_each (\<lambda>(pos, ident). ensure (is_private_pda ident \<longrightarrow> pos |\<in>| fmdom (es_private_pda_bound_positions es))
                 ''private PDA pre_state has no proven (seed, npk) binding via Claim::Pda or caller pda_seeds''
                 (Inr ())) (List.enumerate 0 idents)"

definition check_modified_claimed :: "execution_state \<Rightarrow> (cpanic, unit) result" where
  "check_modified_claimed es =
     for_each (\<lambda>pre.
       expect (fmlookup (es_post_states es) (account_id pre)) ''Post state must exist for pre state'' (\<lambda>post.
       ensure (account pre \<noteq> post \<longrightarrow> program_owner post \<noteq> DEFAULT_PROGRAM_ID)
         ''Account was modified but not claimed'' (Inr ())))
       (filter (\<lambda>a. program_owner (account a) = DEFAULT_PROGRAM_ID) (es_pre_states es))"

definition derive_from_outputs ::
  "hash_fn \<Rightarrow> (program_id \<Rightarrow> program_output \<Rightarrow> bool) \<Rightarrow> input_account_identity list \<Rightarrow> program_id
   \<Rightarrow> program_output list \<Rightarrow> (cpanic, execution_state) result" where
  "derive_from_outputs H verify idents pid outputs =
     rbind (map_err (\<lambda>_. ''There should be non empty intersection in the program output block validity windows'')
              (intersect_windows (map block_validity_window outputs))) (\<lambda>bw.
     rbind (map_err (\<lambda>_. ''There should be non empty intersection in the program output timestamp validity windows'')
              (intersect_windows (map timestamp_validity_window outputs))) (\<lambda>tw.
     let es = \<lparr> es_pre_states = [], es_post_states = fmempty, es_block_validity_window = bw,
                es_timestamp_validity_window = tw, es_private_pda_bound_positions = fmempty,
                es_pda_family_binding = fmempty,
                es_private_pda_npk_by_position = npk_map H 0 idents fmempty,
                es_authorized_accounts = {} \<rparr>
     in case outputs of
          [] \<Rightarrow> Inl ''No program outputs provided''
        | first_output # _ \<Rightarrow>
            let initial_call = \<lparr> cc_program_id = pid, cc_pre_states = pre_states first_output,
                  cc_instruction_data = instruction_data first_output, cc_pda_seeds = [] \<rparr>
            in rbind (circuit_loop H verify idents 0 [(initial_call, None)] outputs es) (\<lambda>es.
               rbind (check_bound_positions idents es) (\<lambda>_.
               rbind (check_modified_claimed es) (\<lambda>_.
               Inr es)))))"

section \<open>Circuit output\<close>

fun into_states ::
  "account_meta list \<Rightarrow> (account_id, account) fmap \<Rightarrow> (cpanic, (account_meta \<times> account) list) result" where
  "into_states [] posts = Inr []"
| "into_states (pre # pres) posts =
     expect (fmlookup posts (account_id pre)) ''Account from pre states should exist in state diff'' (\<lambda>post.
     rbind (into_states pres (fmdrop (account_id pre) posts)) (\<lambda>rest.
     Inr ((pre, post) # rest)))"

text \<open>The output under construction and the index of the next note.\<close>

type_synonym out_state = "circuit_output \<times> u32"

definition emit_private_output ::
  "hash_fn \<Rightarrow> (bytes \<Rightarrow> bytes \<Rightarrow> bytes) \<Rightarrow> account \<Rightarrow> account_id \<Rightarrow> private_account_kind \<Rightarrow> shared_secret
   \<Rightarrow> epk \<Rightarrow> u8 \<Rightarrow> nullifier \<times> digest \<Rightarrow> u128 \<Rightarrow> out_state \<Rightarrow> (cpanic, out_state) result" where
  "emit_private_output H keystream post i kind ssk epk' view_tag new_nullifier new_nonce st =
     (case st of (co, output_index) \<Rightarrow>
      let post_with_updated_nonce = post\<lparr> nonce := new_nonce \<rparr>;
          commitment_post = commitment_new H i post_with_updated_nonce
      in expect (encrypt H keystream post_with_updated_nonce kind ssk commitment_post output_index)
           ''Invalid u32'' (\<lambda>ct.
         expect (checked_add output_index 1) ''Too many private accounts, output index overflow'' (\<lambda>idx.
         Inr (co\<lparr> co_new_nullifiers := co_new_nullifiers co @ [new_nullifier],
                  co_new_commitments := co_new_commitments co @ [commitment_post],
                  co_encrypted_private_post_states := co_encrypted_private_post_states co
                    @ [\<lparr> ead_ciphertext = ct, ead_epk = epk', ead_view_tag = view_tag \<rparr>] \<rparr>, idx))))"

definition compute_update_nullifier_and_set_digest ::
  "hash_fn \<Rightarrow> membership_proof \<Rightarrow> account \<Rightarrow> account_id \<Rightarrow> nullifier_secret_key \<Rightarrow> nullifier \<times> digest" where
  "compute_update_nullifier_and_set_digest H mp pre_account i nsk =
     (let commitment_pre = commitment_new H i pre_account;
          set_digest = compute_digest_for_path H commitment_pre mp
      in (for_account_update H commitment_pre nsk, set_digest))"

definition output_step ::
  "hash_fn \<Rightarrow> (bytes \<Rightarrow> bytes \<Rightarrow> bytes) \<Rightarrow> (nat, program_id \<times> pda_seed) fmap
   \<Rightarrow> nat \<times> input_account_identity \<times> account_meta \<times> account \<Rightarrow> out_state \<Rightarrow> (cpanic, out_state) result" where
  "output_step H keystream pda_seed_by_position item st =
     (case item of (pos, ident, pre, post) \<Rightarrow>
      (case ident of
        Public \<Rightarrow>
          (case st of (co, idx) \<Rightarrow>
           Inr (co\<lparr> co_public_pre_states := co_public_pre_states co @ [pre],
                    co_public_post_states := co_public_post_states co @ [post] \<rparr>, idx))
      | PrivateAuthorizedInit epk' view_tag ssk nsk ident' \<Rightarrow>
          (let i = for_regular_private_account H (npk_of_nsk H nsk) ident' in
           ensure (i = account_id pre) ''AccountId mismatch'' (
           ensure (is_authorized pre) ''Pre-state not authorized for authenticated private account'' (
           ensure (account pre = default_account) ''Found new private account with non default values'' (
           emit_private_output H keystream post i (Regular ident') ssk epk' view_tag
             (for_account_initialization H i, DUMMY_COMMITMENT_HASH) (private_account_nonce_init H i) st))))
      | PrivateAuthorizedUpdate epk' view_tag ssk nsk mp ident' \<Rightarrow>
          (let i = for_regular_private_account H (npk_of_nsk H nsk) ident' in
           ensure (i = account_id pre) ''AccountId mismatch'' (
           ensure (is_authorized pre) ''Pre-state not authorized for authenticated private account'' (
           emit_private_output H keystream post i (Regular ident') ssk epk' view_tag
             (compute_update_nullifier_and_set_digest H mp (account pre) i nsk)
             (private_account_nonce_increment H (nonce (account pre)) nsk) st)))
      | PrivateUnauthorized epk' view_tag npk ssk ident' \<Rightarrow>
          (let i = for_regular_private_account H npk ident' in
           ensure (i = account_id pre) ''AccountId mismatch'' (
           ensure (account pre = default_account) ''Found new private account with non default values'' (
           ensure (\<not> is_authorized pre) ''Found new private account marked as authorized.'' (
           emit_private_output H keystream post i (Regular ident') ssk epk' view_tag
             (for_account_initialization H i, DUMMY_COMMITMENT_HASH) (private_account_nonce_init H i) st))))
      | PrivatePdaInit epk' view_tag npk ssk ident' seed \<Rightarrow>
          ensure (\<not> is_authorized pre) ''PrivatePdaInit requires unauthorized pre_state'' (
          ensure (account pre = default_account) ''New private PDA must be default'' (
          let i = account_id pre in
          expect (fmlookup pda_seed_by_position pos)
            ''PrivatePdaInit position must be in pda_seed_by_position'' (\<lambda>(authority, seed').
          emit_private_output H keystream post i (Pda authority seed' ident') ssk epk' view_tag
            (for_account_initialization H i, DUMMY_COMMITMENT_HASH) (private_account_nonce_init H i) st)))
      | PrivatePdaUpdate epk' view_tag ssk nsk mp ident' ext_seed \<Rightarrow>
          ensure (is_authorized pre \<noteq> (ext_seed \<noteq> None))
            ''PrivatePdaUpdate requires authorized pre_state or external seed'' (
          let i = account_id pre in
          expect (fmlookup pda_seed_by_position pos)
            ''PrivatePdaUpdate position must be in pda_seed_by_position'' (\<lambda>(authority, seed').
          emit_private_output H keystream post i (Pda authority seed' ident') ssk epk' view_tag
            (compute_update_nullifier_and_set_digest H mp (account pre) i nsk)
            (private_account_nonce_increment H (nonce (account pre)) nsk) st))))"

definition empty_output :: "execution_state \<Rightarrow> circuit_output" where
  "empty_output es =
     \<lparr> co_public_pre_states = [], co_public_post_states = [], co_encrypted_private_post_states = [],
       co_new_commitments = [], co_new_nullifiers = [],
       co_block_validity_window = es_block_validity_window es,
       co_timestamp_validity_window = es_timestamp_validity_window es \<rparr>"

definition compute_circuit_output ::
  "hash_fn \<Rightarrow> (bytes \<Rightarrow> bytes \<Rightarrow> bytes) \<Rightarrow> execution_state \<Rightarrow> input_account_identity list
   \<Rightarrow> (cpanic, circuit_output) result" where
  "compute_circuit_output H keystream es idents =
     ensure (length idents = length (es_pre_states es)) ''Invalid account_identities length'' (
     rbind (into_states (es_pre_states es) (es_post_states es)) (\<lambda>states.
     rbind (fold_res (output_step H keystream (es_private_pda_bound_positions es))
              (List.enumerate 0 (zip idents states)) (empty_output es, 0)) (\<lambda>(co, _).
     Inr co)))"

definition circuit_main ::
  "hash_fn \<Rightarrow> (bytes \<Rightarrow> bytes \<Rightarrow> bytes) \<Rightarrow> (program_id \<Rightarrow> program_output \<Rightarrow> bool) \<Rightarrow> circuit_input
   \<Rightarrow> (cpanic, circuit_output) result" where
  "circuit_main H keystream verify input =
     rbind (derive_from_outputs H verify (ci_account_identities input) (ci_program_id input)
              (ci_program_outputs input)) (\<lambda>es.
     compute_circuit_output H keystream es (ci_account_identities input))"

end
