(* ===== verification/Transactions.thy ===== *)
theory Transactions
  imports Circuit
begin

text \<open>
  Public and privacy preserving transactions (\<open>lee/state_machine/src/public_transaction\<close>,
  \<open>privacy_preserving_transaction\<close>): messages, witness sets, message hashes, signers.

  What is not in the sources is gathered in a \<open>runtime\<close>: the hash, the zkVM (\<open>Program::execute\<close>
  up to the decoding of the journal, and proving), signature verification, the Borsh encoding of
  messages, receipt verification and the image id of a binary.
\<close>

section \<open>Messages\<close>

record public_message =
  pm_program_id :: program_id
  pm_account_ids :: "account_id list"
  pm_nonces :: "u128 list"
  pm_instruction_data :: instruction_data

type_synonym signature = bytes
type_synonym public_key = bytes
type_synonym zk_proof = bytes

record public_transaction =
  pt_message :: public_message
  pt_witness_set :: "(signature \<times> public_key) list"

record privacy_message =
  vm_public_account_ids :: "account_id list"
  vm_nonces :: "u128 list"
  vm_public_post_states :: "account list"
  vm_encrypted_private_post_states :: "encrypted_account_data list"
  vm_new_commitments :: "commitment list"
  vm_new_nullifiers :: "(nullifier \<times> digest) list"
  vm_block_validity_window :: validity_window
  vm_timestamp_validity_window :: validity_window

record privacy_witness_set =
  vw_signatures_and_public_keys :: "(signature \<times> public_key) list"
  vw_proof :: zk_proof

record privacy_transaction =
  vt_message :: privacy_message
  vt_witness_set :: privacy_witness_set

section \<open>The runtime\<close>

record runtime =
  rt_hash :: hash_fn
  rt_execute :: "program \<Rightarrow> program_id option \<Rightarrow> account_meta list \<Rightarrow> instruction_data
    \<Rightarrow> (lee_error, program_output) result"
  rt_signature_valid :: "signature \<Rightarrow> bytes \<Rightarrow> public_key \<Rightarrow> bool"
  rt_public_bytes :: "public_message \<Rightarrow> bytes"
  rt_privacy_bytes :: "privacy_message \<Rightarrow> bytes"
  rt_image_id :: "bytes \<Rightarrow> program_id option"
  rt_proof_valid :: "zk_proof \<Rightarrow> circuit_output \<Rightarrow> bool"
  rt_prove_program :: "program \<Rightarrow> program_id option \<Rightarrow> account_meta list \<Rightarrow> instruction_data
    \<Rightarrow> (lee_error, program_output) result"
  rt_prove_circuit :: "circuit_input \<Rightarrow> (lee_error, circuit_output \<times> zk_proof) result"

section \<open>Hashes, signatures and signers\<close>

definition PUBLIC_MESSAGE_PREFIX :: bytes where
  "PUBLIC_MESSAGE_PREFIX = ascii ''/LEE/v0.3/Message/Public/'' @ replicate 7 0"

definition public_message_hash :: "runtime \<Rightarrow> public_message \<Rightarrow> bytes" where
  "public_message_hash rt m = rt_hash rt (PUBLIC_MESSAGE_PREFIX @ rt_public_bytes rt m)"

definition PRIVACY_MESSAGE_PREFIX :: bytes where
  "PRIVACY_MESSAGE_PREFIX = ascii ''/LEE/v0.3/Message/Privacy/'' @ replicate 6 0"

definition privacy_message_hash :: "runtime \<Rightarrow> privacy_message \<Rightarrow> bytes" where
  "privacy_message_hash rt m = rt_hash rt (PRIVACY_MESSAGE_PREFIX @ rt_privacy_bytes rt m)"

definition witness_is_valid_for ::
  "runtime \<Rightarrow> (signature \<times> public_key) list \<Rightarrow> bytes \<Rightarrow> bool" where
  "witness_is_valid_for rt ws h = list_all (\<lambda>(sg, pk). rt_signature_valid rt sg h pk) ws"

definition signatures_are_valid_for ::
  "runtime \<Rightarrow> privacy_witness_set \<Rightarrow> privacy_message \<Rightarrow> bool" where
  "signatures_are_valid_for rt ws m =
     (let message_hash = privacy_message_hash rt m in
      list_all (\<lambda>(sg, pk). rt_signature_valid rt sg message_hash pk) (vw_signatures_and_public_keys ws))"

definition signer_account_ids :: "runtime \<Rightarrow> (signature \<times> public_key) list \<Rightarrow> account_id list" where
  "signer_account_ids rt ws = map (\<lambda>(_, pk). account_id_of_public_key (rt_hash rt) pk) ws"

definition affected_public_account_ids :: "runtime \<Rightarrow> public_transaction \<Rightarrow> account_id set" where
  "affected_public_account_ids rt tx =
     set (signer_account_ids rt (pt_witness_set tx)) \<union> set (pm_account_ids (pt_message tx))"

definition privacy_affected_public_account_ids :: "runtime \<Rightarrow> privacy_transaction \<Rightarrow> account_id set" where
  "privacy_affected_public_account_ids rt tx =
     set (signer_account_ids rt (vw_signatures_and_public_keys (vt_witness_set tx)))
     \<union> set (vm_public_account_ids (vt_message tx))"

definition try_from_circuit_output ::
  "account_id list \<Rightarrow> u128 list \<Rightarrow> circuit_output \<Rightarrow> privacy_message" where
  "try_from_circuit_output ids nonces co =
     \<lparr> vm_public_account_ids = ids, vm_nonces = nonces, vm_public_post_states = co_public_post_states co,
       vm_encrypted_private_post_states = co_encrypted_private_post_states co,
       vm_new_commitments = co_new_commitments co, vm_new_nullifiers = co_new_nullifiers co,
       vm_block_validity_window = co_block_validity_window co,
       vm_timestamp_validity_window = co_timestamp_validity_window co \<rparr>"

text \<open>The two domain tags keep the hashes of public and privacy messages apart.\<close>

lemma message_prefixes_differ:
  "PUBLIC_MESSAGE_PREFIX @ xs \<noteq> PRIVACY_MESSAGE_PREFIX @ ys"
  by (simp add: PUBLIC_MESSAGE_PREFIX_def PRIVACY_MESSAGE_PREFIX_def ascii_def of_char_def)

end
