(* ===== verification/Public_Execution.thy ===== *)
theory Public_Execution
  imports Transactions
begin

text \<open>
  Validation of public transactions (\<open>ValidatedStateDiff::from_public_transaction\<close> in
  \<open>lee/state_machine/src/validated_state_diff.rs\<close>): the checks on the message, then the loop over
  the chain of program calls; program deployment; and the transitions of the state.  The theorems
  hold for every runtime, so for every, even hostile, program.
\<close>

section \<open>One call of the chain\<close>

record caller_data =
  cd_program_id :: "program_id option"
  cd_authorized_accounts :: "account_id set"

type_synonym diff_map = "(account_id, account) fmap"

definition expected_pre :: "v03_state \<Rightarrow> diff_map \<Rightarrow> account_id \<Rightarrow> account" where
  "expected_pre s diff i = (case fmlookup diff i of Some a \<Rightarrow> a | None \<Rightarrow> get_account_by_id s i)"

definition check_pre_state ::
  "v03_state \<Rightarrow> diff_map \<Rightarrow> (account_id \<Rightarrow> bool) \<Rightarrow> account_meta \<Rightarrow> (lee_error, unit) result" where
  "check_pre_state s diff is_auth pre =
     (let i = account_id pre; expected = expected_pre s diff i; is_indeed_authorized = is_auth i in
      ensure (account pre = expected)
        (InvalidProgramBehavior (InconsistentAccountPreState i expected (account pre))) (
      ensure (\<not> is_authorized pre \<or> is_indeed_authorized)
        (InvalidProgramBehavior (InvalidAccountAuthorization i)) (
      ensure (is_authorized pre \<or> \<not> is_indeed_authorized)
        (InvalidProgramBehavior (AuthorizedAccountMarkedAsNotAuthorized i)) (
      Inr ()))))"

text \<open>The claim of one post state, which on success becomes owned by the executing program.\<close>

definition apply_claim ::
  "hash_fn \<Rightarrow> program_id \<Rightarrow> account_meta \<Rightarrow> post_state \<Rightarrow> (lee_error, post_state) result" where
  "apply_claim H pid pre post =
     (case ps_claim post of
        None \<Rightarrow> Inr post
      | Some claim \<Rightarrow>
          let i = account_id pre;
              claimed = post\<lparr> ps_account := (ps_account post)\<lparr> program_owner := pid \<rparr> \<rparr> in
          ensure (program_owner (ps_account post) = DEFAULT_PROGRAM_ID)
            (InvalidProgramBehavior (ClaimedNonDefaultAccount i)) (
          case claim of
            Claim_Authorized \<Rightarrow>
              ensure (is_authorized pre) (InvalidProgramBehavior (ClaimedUnauthorizedAccount i)) (Inr claimed)
          | Claim_Pda seed \<Rightarrow>
              let pda = for_public_pda H pid seed in
              ensure (i = pda) (InvalidProgramBehavior (MismatchedPdaClaim pda i)) (Inr claimed)))"

fun apply_claims ::
  "hash_fn \<Rightarrow> program_id \<Rightarrow> (account_meta \<times> post_state) list \<Rightarrow> (lee_error, post_state list) result" where
  "apply_claims H pid [] = Inr []"
| "apply_claims H pid ((pre, post) # rest) =
     rbind (apply_claim H pid pre post) (\<lambda>post'.
     rbind (apply_claims H pid rest) (\<lambda>posts.
     Inr (post' # posts)))"

definition update_diff :: "account_meta list \<Rightarrow> post_state list \<Rightarrow> diff_map \<Rightarrow> diff_map" where
  "update_diff pres posts diff =
     fold (\<lambda>(pre, post) d. fmupd (account_id pre) (ps_account post) d) (zip pres posts) diff"

definition authorized_after :: "caller_data \<Rightarrow> program_output \<Rightarrow> account_id set" where
  "authorized_after caller out =
     cd_authorized_accounts caller \<union> set (map account_id (filter is_authorized (pre_states out)))"

text \<open>
  The body of the loop for one popped call: the program output and the new diff.  The chained
  calls of the output are pushed in front of the queue by \<open>next_calls\<close>.
\<close>

definition process_call ::
  "runtime \<Rightarrow> v03_state \<Rightarrow> u64 \<Rightarrow> u64 \<Rightarrow> chained_call \<Rightarrow> caller_data \<Rightarrow> diff_map
   \<Rightarrow> (lee_error, program_output \<times> diff_map) result" where
  "process_call rt s block_id timestamp call caller diff =
     expect (fmlookup (programs s) (cc_program_id call)) (InvalidInput ''Unknown program'') (\<lambda>prog.
     rbind (rt_execute rt prog (cd_program_id caller) (cc_pre_states call) (cc_instruction_data call)) (\<lambda>out.
     let authorized_pdas =
           compute_public_authorized_pdas (rt_hash rt) (cd_program_id caller) (cc_pda_seeds call);
         is_auth = (\<lambda>i. i \<in> authorized_pdas \<or> i \<in> cd_authorized_accounts caller)
     in rbind (for_each (check_pre_state s diff is_auth) (pre_states out)) (\<lambda>_.
     ensure (self_program_id out = cc_program_id call)
       (InvalidProgramBehavior (MismatchedProgramId (cc_program_id call) (self_program_id out))) (
     ensure (caller_program_id out = cd_program_id caller)
       (InvalidProgramBehavior (MismatchedCallerProgramId (cd_program_id caller) (caller_program_id out))) (
     rbind (map_err (\<lambda>e. InvalidProgramBehavior (ExecutionValidationFailed e))
              (validate_execution (pre_states out) (post_states out) (cc_program_id call))) (\<lambda>_.
     ensure (is_valid_for (block_validity_window out) block_id
             \<and> is_valid_for (timestamp_validity_window out) timestamp) OutOfValidityWindow (
     rbind (apply_claims (rt_hash rt) (cc_program_id call) (zip (pre_states out) (post_states out))) (\<lambda>posts.
     Inr (out, update_diff (pre_states out) posts diff)))))))))"

definition next_calls ::
  "chained_call \<Rightarrow> caller_data \<Rightarrow> program_output \<Rightarrow> (chained_call \<times> caller_data) list" where
  "next_calls call caller out =
     map (\<lambda>c. (c, \<lparr> cd_program_id = Some (cc_program_id call),
                    cd_authorized_accounts = authorized_after caller out \<rparr>)) (chained_calls out)"

section \<open>The loop\<close>

function run_calls ::
  "runtime \<Rightarrow> v03_state \<Rightarrow> u64 \<Rightarrow> u64 \<Rightarrow> nat \<Rightarrow> (chained_call \<times> caller_data) list \<Rightarrow> diff_map
   \<Rightarrow> (lee_error, diff_map) result" where
  "run_calls rt s b ts counter [] diff = Inr diff"
| "run_calls rt s b ts counter ((call, caller) # queue) diff =
     (if counter \<le> MAX_NUMBER_CHAINED_CALLS then
        (case process_call rt s b ts call caller diff of
           Inl e \<Rightarrow> Inl e
         | Inr (out, diff') \<Rightarrow>
             run_calls rt s b ts (counter + 1) (next_calls call caller out @ queue) diff')
      else Inl MaxChainedCallsDepthExceeded)"
  by pat_completeness auto
termination
  by (relation "measure (\<lambda>(rt, s, b, ts, counter, queue, diff). Suc MAX_NUMBER_CHAINED_CALLS - counter)") auto

text \<open>
  The final check.  The iteration order over the map is unspecified in the source and only
  decides which offending account is named; here it is the order of the identifiers.
\<close>

definition unclaimed :: "v03_state \<Rightarrow> diff_map \<Rightarrow> account_id \<Rightarrow> bool" where
  "unclaimed s diff i \<longleftrightarrow>
     (let pre = get_account_by_id s i; post = expected_pre s diff i in
      program_owner pre = DEFAULT_PROGRAM_ID \<and> pre \<noteq> post \<and> program_owner post = DEFAULT_PROGRAM_ID)"

definition check_claimed :: "v03_state \<Rightarrow> diff_map \<Rightarrow> (lee_error, unit) result" where
  "check_claimed s diff =
     for_each (\<lambda>i. ensure (\<not> unclaimed s diff i)
                     (InvalidProgramBehavior (DefaultAccountModifiedWithoutClaim i)) (Inr ()))
       (sorted_list_of_fset (fmdom diff))"

definition check_nonces ::
  "v03_state \<Rightarrow> account_id list \<Rightarrow> u128 list \<Rightarrow> (lee_error, unit) result" where
  "check_nonces s signers nonces =
     for_each (\<lambda>(i, n). ensure (nonce (get_account_by_id s i) = n) (InvalidInput ''Nonce mismatch'') (Inr ()))
       (zip signers nonces)"

definition input_pre_states ::
  "v03_state \<Rightarrow> account_id list \<Rightarrow> account_id list \<Rightarrow> account_meta list" where
  "input_pre_states s signers ids =
     map (\<lambda>i. new_account_meta (get_account_by_id s i) (i \<in> set signers) i) ids"

definition initial_queue ::
  "v03_state \<Rightarrow> account_id list \<Rightarrow> public_message \<Rightarrow> (chained_call \<times> caller_data) list" where
  "initial_queue s signers m =
     [(\<lparr> cc_program_id = pm_program_id m,
         cc_pre_states = input_pre_states s signers (pm_account_ids m),
         cc_instruction_data = pm_instruction_data m, cc_pda_seeds = [] \<rparr>,
       \<lparr> cd_program_id = None, cd_authorized_accounts = set signers \<rparr>)]"

definition from_public_transaction ::
  "runtime \<Rightarrow> public_transaction \<Rightarrow> v03_state \<Rightarrow> u64 \<Rightarrow> u64 \<Rightarrow> (lee_error, state_diff) result" where
  "from_public_transaction rt tx s block_id timestamp =
     (let m = pt_message tx; ws = pt_witness_set tx in
      ensure (n_distinct (pm_account_ids m) = length (pm_account_ids m))
        (InvalidInput ''Duplicate account_ids found in message'') (
      ensure (length (pm_nonces m) = length ws)
        (InvalidInput ''Mismatch between number of nonces and signatures/public keys'') (
      ensure (witness_is_valid_for rt ws (public_message_hash rt m))
        (InvalidInput ''Invalid signature for given message and public key'') (
      let signers = signer_account_ids rt ws in
      rbind (check_nonces s signers (pm_nonces m)) (\<lambda>_.
      rbind (run_calls rt s block_id timestamp 0 (initial_queue s signers m) fmempty) (\<lambda>diff.
      rbind (check_claimed s diff) (\<lambda>_.
      Inr \<lparr> sd_signer_account_ids = signers, sd_public_diff = diff, sd_new_commitments = [],
            sd_new_nullifiers = [], sd_program = None \<rparr>)))))))"

definition program_new :: "runtime \<Rightarrow> bytes \<Rightarrow> (lee_error, program) result" where
  "program_new rt bytecode =
     expect (rt_image_id rt bytecode) InvalidProgramBytecode (\<lambda>i.
     Inr \<lparr> prog_id = i, prog_elf = bytecode \<rparr>)"

definition from_program_deployment_transaction ::
  "runtime \<Rightarrow> bytes \<Rightarrow> v03_state \<Rightarrow> (lee_error, state_diff) result" where
  "from_program_deployment_transaction rt bytecode s =
     rbind (program_new rt bytecode) (\<lambda>p.
     if prog_id p |\<in>| fmdom (programs s) then Inl ProgramAlreadyExists
     else Inr \<lparr> sd_signer_account_ids = [], sd_public_diff = fmempty, sd_new_commitments = [],
                sd_new_nullifiers = [], sd_program = Some p \<rparr>)"

section \<open>Transitions\<close>

text \<open>
  \<open>Inl\<close>: the transaction is refused and the state kept; \<open>Inr None\<close>: applying the accepted diff
  panics; \<open>Inr (Some s')\<close>: the new state.
\<close>

definition transition_from_public_transaction ::
  "runtime \<Rightarrow> public_transaction \<Rightarrow> v03_state \<Rightarrow> u64 \<Rightarrow> u64 \<Rightarrow> (lee_error, v03_state option) result" where
  "transition_from_public_transaction rt tx s block_id timestamp =
     rbind (from_public_transaction rt tx s block_id timestamp) (\<lambda>diff.
     Inr (apply_state_diff (rt_hash rt) diff s))"

definition transition_from_program_deployment_transaction ::
  "runtime \<Rightarrow> bytes \<Rightarrow> v03_state \<Rightarrow> (lee_error, v03_state option) result" where
  "transition_from_program_deployment_transaction rt bytecode s =
     rbind (from_program_deployment_transaction rt bytecode s) (\<lambda>diff.
     Inr (apply_state_diff (rt_hash rt) diff s))"

section \<open>The chain of calls as a labelled transition system\<close>

type_synonym call_conf = "nat \<times> (chained_call \<times> caller_data) list \<times> diff_map"
type_synonym call_label = "chained_call \<times> caller_data \<times> program_output"

inductive call_step ::
  "runtime \<Rightarrow> v03_state \<Rightarrow> u64 \<Rightarrow> u64 \<Rightarrow> call_conf \<Rightarrow> call_label \<Rightarrow> call_conf \<Rightarrow> bool"
  for rt s b ts where
  do_call: "counter \<le> MAX_NUMBER_CHAINED_CALLS \<Longrightarrow>
    process_call rt s b ts call caller diff = Inr (out, diff') \<Longrightarrow>
    call_step rt s b ts (counter, (call, caller) # queue, diff) (call, caller, out)
      (counter + 1, next_calls call caller out @ queue, diff')"

inductive call_trace ::
  "runtime \<Rightarrow> v03_state \<Rightarrow> u64 \<Rightarrow> u64 \<Rightarrow> call_conf \<Rightarrow> call_label list \<Rightarrow> call_conf \<Rightarrow> bool"
  for rt s b ts where
  trace_nil: "call_trace rt s b ts c [] c"
| trace_cons: "call_step rt s b ts c l c' \<Longrightarrow> call_trace rt s b ts c' tr c'' \<Longrightarrow>
    call_trace rt s b ts c (l # tr) c''"

inductive_cases call_stepE: "call_step rt s b ts c l c'"
inductive_cases call_trace_NilE: "call_trace rt s b ts c [] c'"
inductive_cases call_trace_ConsE: "call_trace rt s b ts c (l # tr) c'"

lemma run_calls_trace:
  "run_calls rt s b ts n q d = Inr d' \<Longrightarrow> \<exists>tr n'. call_trace rt s b ts (n, q, d) tr (n', [], d')"
proof (induction rt s b ts n q d rule: run_calls.induct)
  case (1 rt s b ts n d)
  then show ?case by (auto intro: call_trace.trace_nil)
next
  case (2 rt s b ts n call caller q d)
  then obtain out d1 where n: "n \<le> MAX_NUMBER_CHAINED_CALLS"
    and p: "process_call rt s b ts call caller d = Inr (out, d1)"
    and r: "run_calls rt s b ts (n + 1) (next_calls call caller out @ q) d1 = Inr d'"
    by (auto split: if_splits sum.splits prod.splits)
  from 2(1) [OF n p refl r] show ?case
    using call_step.do_call [OF n p] call_trace.trace_cons by blast
qed

lemma call_trace_length:
  "call_trace rt s b ts c tr c' \<Longrightarrow>
     fst c' = fst c + length tr \<and> (tr \<noteq> [] \<longrightarrow> fst c' \<le> Suc MAX_NUMBER_CHAINED_CALLS)"
proof (induction rule: call_trace.induct)
  case (trace_cons c l c' tr c'')
  then show ?case by (cases tr) (auto elim!: call_stepE call_trace_NilE)
qed simp

section \<open>Effect of one call\<close>

definition upd_all :: "('k \<times> 'v) list \<Rightarrow> ('k, 'v) fmap \<Rightarrow> ('k, 'v) fmap" where
  "upd_all kvs m = fold (\<lambda>(k, v). fmupd k v) kvs m"

lemma upd_all_simps [simp]:
  "upd_all [] m = m" "upd_all ((k, v) # kvs) m = upd_all kvs (fmupd k v m)"
  by (simp_all add: upd_all_def)

lemma fmadd_fmupd: "fmadd m (fmupd k v d) = fmupd k v (fmadd m d)"
  by (rule fmap_ext) auto

lemma fmadd_upd_all: "fmadd m (upd_all kvs d) = upd_all kvs (fmadd m d)"
  by (induction kvs arbitrary: d) (auto simp: fmadd_fmupd)

lemma acct_upd_all:
  "distinct (map fst kvs) \<Longrightarrow>
     acct (upd_all kvs m) i = (case map_of kvs i of Some a \<Rightarrow> a | None \<Rightarrow> acct m i)"
proof (induction kvs arbitrary: m)
  case (Cons kv kvs)
  obtain k v where kv: "kv = (k, v)" by force
  show ?case
  proof (cases "i = k")
    case True
    with Cons.prems kv have "map_of kvs i = None" by (simp add: map_of_eq_None_iff)
    with Cons True kv show ?thesis by simp
  next
    case False
    with Cons kv show ?thesis by (auto split: option.splits)
  qed
qed simp

lemma upd_all_supply:
  "distinct (map fst kvs) \<Longrightarrow>
     total_supply (upd_all kvs m) + sum_list (map (\<lambda>(k, _). unat (balance (acct m k))) kvs)
     = total_supply m + sum_list (map (\<lambda>(_, a). unat (balance a)) kvs)"
proof (induction kvs arbitrary: m)
  case (Cons kv kvs)
  obtain k v where kv: "kv = (k, v)" by force
  have same: "map (\<lambda>(j, _). unat (balance (acct (fmupd k v m) j))) kvs
      = map (\<lambda>(j, _). unat (balance (acct m j))) kvs"
    using Cons.prems kv by (auto simp: image_iff)
  show ?case
    using Cons.IH [of "fmupd k v m"] Cons.prems kv total_supply_upd [of k v m] unfolding same by auto
qed simp

text \<open>The map of accounts a chain of calls works on: the state overlaid with the diff.\<close>

definition view :: "v03_state \<Rightarrow> diff_map \<Rightarrow> diff_map" where
  "view s diff = fmadd (public_state s) diff"

lemma expected_pre_view: "expected_pre s diff i = acct (view s diff) i"
  by (simp add: expected_pre_def view_def acct_add get_account_acct split: option.split)

lemma update_diff_upd_all:
  "update_diff pres posts diff = upd_all (zip (map account_id pres) (map ps_account posts)) diff"
proof -
  have "fold (\<lambda>(pre, post). fmupd (account_id pre) (ps_account post)) (zip pres posts) diff
      = fold (\<lambda>(k, v). fmupd k v) (zip (map account_id pres) (map ps_account posts)) diff"
    by (induction pres posts arbitrary: diff rule: list_induct2') auto
  then show ?thesis by (simp add: update_diff_def upd_all_def)
qed

text \<open>What a claim may change, and who may make it.\<close>

definition claim_ok :: "hash_fn \<Rightarrow> program_id \<Rightarrow> account_meta \<Rightarrow> post_state \<Rightarrow> account \<Rightarrow> bool" where
  "claim_ok H pid pre post b \<longleftrightarrow>
     (case ps_claim post of
        None \<Rightarrow> b = ps_account post
      | Some c \<Rightarrow>
          program_owner (ps_account post) = DEFAULT_PROGRAM_ID
        \<and> b = (ps_account post)\<lparr> program_owner := pid \<rparr>
        \<and> (case c of Claim_Authorized \<Rightarrow> is_authorized pre
                   | Claim_Pda seed \<Rightarrow> account_id pre = for_public_pda H pid seed))"

lemma apply_claim_Inr:
  "apply_claim H pid pre post = Inr post' \<Longrightarrow> claim_ok H pid pre post (ps_account post')"
  by (auto simp: apply_claim_def claim_ok_def Let_def ensure_Inr split: option.splits claim.splits)

lemma apply_claims_Inr:
  "length pres = length posts \<Longrightarrow> apply_claims H pid (zip pres posts) = Inr posts' \<Longrightarrow>
     length posts' = length posts
   \<and> (\<forall>j < length pres. claim_ok H pid (pres ! j) (posts ! j) (ps_account (posts' ! j)))"
proof (induction pres posts arbitrary: posts' rule: list_induct2)
  case (Cons pre pres post posts)
  then obtain p ps where p: "apply_claim H pid pre post = Inr p" "posts' = p # ps"
    and ps: "apply_claims H pid (zip pres posts) = Inr ps"
    by (auto simp: rbind_Inr)
  show ?case using Cons.IH [OF ps] apply_claim_Inr [OF p(1)] p(2) by (auto simp: nth_Cons split: nat.split)
qed simp

text \<open>What one accepted call of program \<open>pid\<close> may do to an account.\<close>

definition acct_step :: "program_id \<Rightarrow> account \<Rightarrow> account \<Rightarrow> bool" where
  "acct_step pid a b \<longleftrightarrow>
     nonce b = nonce a
   \<and> (program_owner b = program_owner a \<or> a = default_account \<and> program_owner b = pid)
   \<and> (unat (balance b) < unat (balance a) \<longrightarrow> program_owner a = pid)
   \<and> (data b \<noteq> data a \<longrightarrow> a = default_account \<or> program_owner a = pid)"

lemma acct_step_refl [simp]: "acct_step pid a a"
  by (simp add: acct_step_def)

lemma claim_pair_step: "pair_ok pid a (ps_account post) \<Longrightarrow> claim_ok H pid pre post b \<Longrightarrow> acct_step pid a b"
  by (auto simp: pair_ok_def claim_ok_def acct_step_def split: option.splits)

lemma claim_balance: "claim_ok H pid pre post b \<Longrightarrow> balance b = balance (ps_account post)"
  by (auto simp: claim_ok_def split: option.splits)

text \<open>Everything an accepted call satisfies, in one elimination rule.\<close>

lemma process_call_Inr:
  assumes "process_call rt s b ts call caller diff = Inr (out, diff')"
  obtains prog posts where
    "fmlookup (programs s) (cc_program_id call) = Some prog"
    "rt_execute rt prog (cd_program_id caller) (cc_pre_states call) (cc_instruction_data call) = Inr out"
    "\<And>pre. pre \<in> set (pre_states out) \<Longrightarrow> account pre = acct (view s diff) (account_id pre)"
    "\<And>pre. pre \<in> set (pre_states out) \<Longrightarrow> is_authorized pre \<longleftrightarrow>
      account_id pre \<in> compute_public_authorized_pdas (rt_hash rt) (cd_program_id caller) (cc_pda_seeds call)
      \<or> account_id pre \<in> cd_authorized_accounts caller"
    "self_program_id out = cc_program_id call" "caller_program_id out = cd_program_id caller"
    "well_behaved (cc_program_id call) (pre_states out) (post_states out)"
    "is_valid_for (block_validity_window out) b" "is_valid_for (timestamp_validity_window out) ts"
    "length posts = length (pre_states out)"
    "\<And>j. j < length (pre_states out) \<Longrightarrow>
      claim_ok (rt_hash rt) (cc_program_id call) (pre_states out ! j) (post_states out ! j) (ps_account (posts ! j))"
    "diff' = update_diff (pre_states out) posts diff"
proof -
  let ?auth = "\<lambda>i. i \<in> compute_public_authorized_pdas (rt_hash rt) (cd_program_id caller) (cc_pda_seeds call)
      \<or> i \<in> cd_authorized_accounts caller"
  obtain prog posts where 1: "fmlookup (programs s) (cc_program_id call) = Some prog"
    "rt_execute rt prog (cd_program_id caller) (cc_pre_states call) (cc_instruction_data call) = Inr out"
    "for_each (check_pre_state s diff ?auth) (pre_states out) = Inr ()"
    "self_program_id out = cc_program_id call" "caller_program_id out = cd_program_id caller"
    "well_behaved (cc_program_id call) (pre_states out) (post_states out)"
    "is_valid_for (block_validity_window out) b" "is_valid_for (timestamp_validity_window out) ts"
    "apply_claims (rt_hash rt) (cc_program_id call) (zip (pre_states out) (post_states out)) = Inr posts"
    "diff' = update_diff (pre_states out) posts diff"
    using assms by (auto simp: process_call_def Let_def res_simps simp flip: validate_execution_Inr)
  have len: "length (pre_states out) = length (post_states out)" using 1(6) by (simp add: well_behaved_length)
  have "check_pre_state s diff ?auth pre = Inr ()" if "pre \<in> set (pre_states out)" for pre
    using 1(3) that by (simp add: for_each_Inr)
  then have pre: "account pre = acct (view s diff) (account_id pre)" "is_authorized pre \<longleftrightarrow> ?auth (account_id pre)"
    if "pre \<in> set (pre_states out)" for pre
    using that unfolding check_pre_state_def Let_def ensure_Inr expected_pre_view by blast+
  note claims = apply_claims_Inr [OF len 1(9)]
  show thesis
    by (rule that [OF 1(1,2) pre 1(4-8) _ _ 1(10)]) (use claims len in auto)
qed

lemma process_call_view:
  assumes p: "process_call rt s b ts call caller diff = Inr (out, diff')"
  shows "\<forall>i. acct_step (cc_program_id call) (acct (view s diff) i) (acct (view s diff') i)"
    and "total_supply (view s diff') = total_supply (view s diff)"
    and "\<forall>i. i \<notin> set (map account_id (pre_states out)) \<longrightarrow> acct (view s diff') i = acct (view s diff) i"
    and "\<forall>j < length (pre_states out).
      claim_ok (rt_hash rt) (cc_program_id call) (pre_states out ! j) (post_states out ! j)
        (acct (view s diff') (account_id (pre_states out ! j)))"
proof -
  obtain posts where
    pre: "\<And>pre. pre \<in> set (pre_states out) \<Longrightarrow> account pre = acct (view s diff) (account_id pre)"
    and wb: "well_behaved (cc_program_id call) (pre_states out) (post_states out)"
    and len: "length posts = length (pre_states out)"
    and claim: "\<And>j. j < length (pre_states out) \<Longrightarrow>
      claim_ok (rt_hash rt) (cc_program_id call) (pre_states out ! j) (post_states out ! j) (ps_account (posts ! j))"
    and d: "diff' = update_diff (pre_states out) posts diff"
    using process_call_Inr [OF p] by metis
  let ?ids = "map account_id (pre_states out)" and ?new = "map ps_account posts"
  have dist: "distinct ?ids" using wb by (simp add: well_behaved_def)
  have v: "view s diff' = upd_all (zip ?ids ?new) (view s diff)"
    by (simp add: view_def d update_diff_upd_all fmadd_upd_all)
  have at: "acct (view s diff') (account_id (pre_states out ! j)) = ps_account (posts ! j)"
    if "j < length (pre_states out)" for j
    using that len dist distinct_map_of_zip_nth [of ?ids ?new j] unfolding v by (simp add: acct_upd_all)
  show out: "\<forall>i. i \<notin> set ?ids \<longrightarrow> acct (view s diff') i = acct (view s diff) i"
    using dist len unfolding v by (auto simp: acct_upd_all split: option.splits dest!: map_of_SomeD set_zip_leftD)
  show "\<forall>j < length (pre_states out).
      claim_ok (rt_hash rt) (cc_program_id call) (pre_states out ! j) (post_states out ! j)
        (acct (view s diff') (account_id (pre_states out ! j)))"
    using at claim by simp
  show "\<forall>i. acct_step (cc_program_id call) (acct (view s diff) i) (acct (view s diff') i)"
  proof
    fix i
    show "acct_step (cc_program_id call) (acct (view s diff) i) (acct (view s diff') i)"
    proof (cases "i \<in> set ?ids")
      case True
      then obtain j where j: "j < length (pre_states out)" "i = account_id (pre_states out ! j)"
        by (auto simp: in_set_conv_nth)
      with claim_pair_step [OF well_behaved_nth [OF wb j(1)] claim [OF j(1)]] pre at show ?thesis by simp
    qed (use out in simp)
  qed
  have "map (\<lambda>(k, _). unat (balance (acct (view s diff) k))) (zip ?ids ?new) = map (unat \<circ> balance) (map account (pre_states out))"
    using len pre by (intro nth_equalityI) simp_all
  moreover have "map (\<lambda>(_, a). unat (balance a)) (zip ?ids ?new) = map (unat \<circ> balance) (map ps_account (post_states out))"
    using len claim_balance [OF claim] well_behaved_length [OF wb] by (intro nth_equalityI) simp_all
  moreover have "total (map account (pre_states out)) = total (map ps_account (post_states out))"
    using wb by (simp add: well_behaved_def)
  ultimately show "total_supply (view s diff') = total_supply (view s diff)"
    using upd_all_supply [of "zip ?ids ?new" "view s diff"] dist len unfolding v total_def by simp
qed

section \<open>Effect of a chain of calls\<close>

lemma call_trace_supply:
  "call_trace rt s b ts c tr c' \<Longrightarrow> total_supply (view s (snd (snd c'))) = total_supply (view s (snd (snd c)))"
  by (induction rule: call_trace.induct) (auto elim!: call_stepE dest: process_call_view(2))

lemma call_trace_nonce_owner:
  "call_trace rt s b ts c tr c' \<Longrightarrow>
     nonce (acct (view s (snd (snd c'))) i) = nonce (acct (view s (snd (snd c))) i)
   \<and> (program_owner (acct (view s (snd (snd c))) i) \<noteq> DEFAULT_PROGRAM_ID \<longrightarrow>
       program_owner (acct (view s (snd (snd c'))) i) = program_owner (acct (view s (snd (snd c))) i))"
proof (induction rule: call_trace.induct)
  case (trace_cons c l c' tr c'')
  from trace_cons.hyps(1) obtain call caller diff out diff' where
    p: "process_call rt s b ts call caller diff = Inr (out, diff')"
    and c: "snd (snd c) = diff" "snd (snd c') = diff'"
    by cases simp
  have "acct_step (cc_program_id call) (acct (view s diff) i) (acct (view s diff') i)"
    using process_call_view(1) [OF p] by simp
  with trace_cons.IH c show ?case by (auto simp: acct_step_def)
qed simp

text \<open>The accounts a transaction may present as authorized: signers, and PDAs of deployed programs.\<close>

definition authorizable :: "runtime \<Rightarrow> v03_state \<Rightarrow> account_id list \<Rightarrow> account_id set" where
  "authorizable rt s signers =
     set signers \<union> {for_public_pda (rt_hash rt) p seed | p seed. p |\<in>| fmdom (programs s)}"

definition queue_ok :: "runtime \<Rightarrow> v03_state \<Rightarrow> account_id list \<Rightarrow> (chained_call \<times> caller_data) list \<Rightarrow> bool" where
  "queue_ok rt s signers q \<longleftrightarrow>
     (\<forall>(call, caller) \<in> set q. cd_authorized_accounts caller \<subseteq> authorizable rt s signers
        \<and> (\<forall>p. cd_program_id caller = Some p \<longrightarrow> p |\<in>| fmdom (programs s)))"

lemma process_call_authorized:
  assumes p: "process_call rt s b ts call caller diff = Inr (out, diff')"
    and q: "queue_ok rt s signers ((call, caller) # queue)"
  shows "\<forall>pre \<in> set (pre_states out). is_authorized pre \<longrightarrow> account_id pre \<in> authorizable rt s signers"
    and "queue_ok rt s signers (next_calls call caller out @ queue)"
proof -
  obtain prog where prog: "fmlookup (programs s) (cc_program_id call) = Some prog"
    and auth: "\<And>pre. pre \<in> set (pre_states out) \<Longrightarrow> is_authorized pre \<longleftrightarrow>
      account_id pre \<in> compute_public_authorized_pdas (rt_hash rt) (cd_program_id caller) (cc_pda_seeds call)
      \<or> account_id pre \<in> cd_authorized_accounts caller"
    using process_call_Inr [OF p] by metis
  show a: "\<forall>pre \<in> set (pre_states out). is_authorized pre \<longrightarrow> account_id pre \<in> authorizable rt s signers"
    using auth q by (auto simp: compute_public_authorized_pdas_def queue_ok_def authorizable_def split: option.splits)
  have "cc_program_id call |\<in>| fmdom (programs s)" using prog by (simp add: fmdomI)
  moreover have "authorized_after caller out \<subseteq> authorizable rt s signers"
    using a q by (auto simp: authorized_after_def queue_ok_def)
  ultimately show "queue_ok rt s signers (next_calls call caller out @ queue)"
    using q by (auto simp: queue_ok_def next_calls_def)
qed

lemma initial_queue_ok: "queue_ok rt s signers (initial_queue s signers m)"
  by (simp add: queue_ok_def initial_queue_def authorizable_def)

text \<open>An account gets an owner only if it was presented as authorized or is a PDA of the claimant.\<close>

lemma call_claims:
  assumes p: "process_call rt s b ts call caller diff = Inr (out, diff')"
    and q: "queue_ok rt s signers ((call, caller) # queue)"
    and own: "program_owner (acct (view s diff') i) \<noteq> program_owner (acct (view s diff) i)"
  shows "i \<in> authorizable rt s signers"
proof -
  have "i \<in> set (map account_id (pre_states out))" using process_call_view(3) [OF p] own by metis
  then obtain j where j: "j < length (pre_states out)" "account_id (pre_states out ! j) = i"
    by (auto simp: in_set_conv_nth)
  obtain prog where prog: "fmlookup (programs s) (cc_program_id call) = Some prog"
    and pre: "\<And>pre. pre \<in> set (pre_states out) \<Longrightarrow> account pre = acct (view s diff) (account_id pre)"
    and wb: "well_behaved (cc_program_id call) (pre_states out) (post_states out)"
    using process_call_Inr [OF p] by metis
  have "program_owner (ps_account (post_states out ! j)) = program_owner (acct (view s diff) i)"
    using well_behaved_nth [OF wb j(1)] pre j by (simp add: pair_ok_def)
  then have "ps_claim (post_states out ! j) \<noteq> None"
    and c: "claim_ok (rt_hash rt) (cc_program_id call) (pre_states out ! j) (post_states out ! j) (acct (view s diff') i)"
    using process_call_view(4) [OF p] j own by (auto simp: claim_ok_def split: option.splits)
  then obtain claim where "ps_claim (post_states out ! j) = Some claim" by blast
  with c have "is_authorized (pre_states out ! j) \<or> (\<exists>seed. i = for_public_pda (rt_hash rt) (cc_program_id call) seed)"
    using j by (auto simp: claim_ok_def split: claim.splits)
  moreover have "cc_program_id call |\<in>| fmdom (programs s)" using prog by (simp add: fmdomI)
  ultimately show ?thesis
    using process_call_authorized(1) [OF p q] j by (auto simp: authorizable_def)
qed

lemma trace_claims:
  assumes "call_trace rt s b ts c tr c'" "queue_ok rt s signers (fst (snd c))"
    "program_owner (acct (view s (snd (snd c'))) i) \<noteq> program_owner (acct (view s (snd (snd c))) i)"
  shows "i \<in> authorizable rt s signers"
  using assms
proof (induction rule: call_trace.induct)
  case (trace_cons c l c' tr c'')
  from trace_cons.hyps(1) obtain n call caller q diff out diff' where
    pc: "process_call rt s b ts call caller diff = Inr (out, diff')"
    and c: "c = (n, (call, caller) # q, diff)" "c' = (n + 1, next_calls call caller out @ q, diff')"
    by cases
  show ?case
  proof (cases "program_owner (acct (view s diff') i) = program_owner (acct (view s diff) i)")
    case True
    with trace_cons.IH trace_cons.prems c process_call_authorized(2) [OF pc, of signers q] show ?thesis by simp
  next
    case False
    with call_claims [OF pc, of signers q] trace_cons.prems(1) c show ?thesis by simp
  qed
qed simp

text \<open>Programs are stored under their own identifier.\<close>

definition wf_programs :: "v03_state \<Rightarrow> bool" where
  "wf_programs s \<longleftrightarrow> fmpred (\<lambda>k p. prog_id p = k) (programs s)"

lemma wf_programsD: "wf_programs s \<Longrightarrow> fmlookup (programs s) k = Some p \<Longrightarrow> prog_id p = k"
  by (auto simp: wf_programs_def)

lemma from_public_transaction_Inr:
  assumes "from_public_transaction rt tx s b ts = Inr d"
  obtains diff tr n where
    "sd_signer_account_ids d = signer_account_ids rt (pt_witness_set tx)" "sd_public_diff d = diff"
    "sd_new_commitments d = []" "sd_new_nullifiers d = []" "sd_program d = None"
    "distinct (pm_account_ids (pt_message tx))"
    "length (pm_nonces (pt_message tx)) = length (pt_witness_set tx)"
    "witness_is_valid_for rt (pt_witness_set tx) (public_message_hash rt (pt_message tx))"
    "\<forall>(i, n) \<in> set (zip (signer_account_ids rt (pt_witness_set tx)) (pm_nonces (pt_message tx))).
       nonce (acct (public_state s) i) = n"
    "call_trace rt s b ts
       (0, initial_queue s (signer_account_ids rt (pt_witness_set tx)) (pt_message tx), fmempty) tr (n, [], diff)"
    "\<forall>i. i |\<in>| fmdom diff \<longrightarrow> \<not> unclaimed s diff i"
proof -
  let ?sg = "signer_account_ids rt (pt_witness_set tx)"
  obtain diff where 1: "distinct (pm_account_ids (pt_message tx))"
    "length (pm_nonces (pt_message tx)) = length (pt_witness_set tx)"
    "witness_is_valid_for rt (pt_witness_set tx) (public_message_hash rt (pt_message tx))"
    "check_nonces s ?sg (pm_nonces (pt_message tx)) = Inr ()"
    "run_calls rt s b ts 0 (initial_queue s ?sg (pt_message tx)) fmempty = Inr diff"
    "check_claimed s diff = Inr ()"
    and d: "d = \<lparr> sd_signer_account_ids = ?sg, sd_public_diff = diff, sd_new_commitments = [],
            sd_new_nullifiers = [], sd_program = None \<rparr>"
    using assms by (auto simp: from_public_transaction_def Let_def res_simps)
  obtain tr n where tr: "call_trace rt s b ts (0, initial_queue s ?sg (pt_message tx), fmempty) tr (n, [], diff)"
    using run_calls_trace [OF 1(5)] by blast
  have "\<forall>(i, n) \<in> set (zip ?sg (pm_nonces (pt_message tx))). nonce (acct (public_state s) i) = n"
    using 1(4) by (auto simp: check_nonces_def for_each_Inr ensure_Inr get_account_acct)
  moreover have "\<forall>i. i |\<in>| fmdom diff \<longrightarrow> \<not> unclaimed s diff i"
    using 1(6) by (auto simp: check_claimed_def for_each_Inr ensure_Inr)
  ultimately show thesis using that [of diff tr n] 1(1-3) d tr by simp
qed

lemma view_empty [simp]: "view s fmempty = public_state s"
  by (simp add: view_def)

text \<open>The accounts after a transition are those of the diff with the signers' nonces advanced.\<close>

lemma transition_public_Some:
  assumes "transition_from_public_transaction rt tx s b ts = Inr (Some s')"
  obtains d where "from_public_transaction rt tx s b ts = Inr d"
    "apply_state_diff (rt_hash rt) d s = Some s'"
    "increment_nonces (signer_account_ids rt (pt_witness_set tx)) (view s (sd_public_diff d)) = Some (public_state s')"
    "nullifier_state s' = nullifier_state s" "programs s' = programs s"
    "cs_extend (rt_hash rt) [] (commitment_state s) = Some (commitment_state s')"
proof -
  obtain d where d: "from_public_transaction rt tx s b ts = Inr d" "apply_state_diff (rt_hash rt) d s = Some s'"
    using assms by (auto simp: transition_from_public_transaction_def rbind_Inr)
  from from_public_transaction_Inr [OF d(1)] have e:
    "sd_signer_account_ids d = signer_account_ids rt (pt_witness_set tx)"
    "sd_new_commitments d = []" "sd_new_nullifiers d = []" "sd_program d = None" by blast+
  show thesis
    by (rule apply_state_diff_Some [OF d(2)], rule that [OF d]) (simp_all add: e view_def)
qed

section \<open>Encapsulation of accounts by their owner\<close>

text \<open>
  A program \<open>p\<close> keeps the relation \<open>R\<close> on the accounts it owns; the flag of \<open>R\<close> tells whether the
  account was presented as authorized.  \<open>R\<close> also has to allow that others credit an account.
\<close>

locale owner_contract =
  fixes rt :: runtime and p :: program_id and R :: "bool \<Rightarrow> account \<Rightarrow> account \<Rightarrow> bool"
  assumes R_refl: "R f a a"
    and R_trans: "R f a b \<Longrightarrow> R f b c \<Longrightarrow> R f a c"
    and R_mono: "R False a b \<Longrightarrow> R True a b"
    and R_credit: "unat (balance a) \<le> unat x \<Longrightarrow> R f a (a\<lparr> balance := x \<rparr>)"
    and R_run: "rt_execute rt prog caller pres words = Inr out \<Longrightarrow> prog_id prog = p \<Longrightarrow>
      self_program_id out = p \<Longrightarrow> well_behaved p (pre_states out) (post_states out) \<Longrightarrow>
      j < length (pre_states out) \<Longrightarrow> program_owner (account (pre_states out ! j)) = p \<Longrightarrow>
      R (is_authorized (pre_states out ! j)) (account (pre_states out ! j)) (ps_account (post_states out ! j))"
    and p_not_default: "p \<noteq> DEFAULT_PROGRAM_ID"
begin

lemma call_keeps:
  assumes pc: "process_call rt s b ts call caller diff = Inr (out, diff')"
    and wf: "wf_programs s" and own: "program_owner (acct (view s diff) i) = p"
    and auth: "\<forall>pre \<in> set (pre_states out). is_authorized pre \<longrightarrow> account_id pre = i \<longrightarrow> f"
  shows "R f (acct (view s diff) i) (acct (view s diff') i)"
proof (cases "i \<in> set (map account_id (pre_states out))")
  case False
  then show ?thesis using process_call_view(3) [OF pc] R_refl by simp
next
  case True
  then obtain j where j: "j < length (pre_states out)" "account_id (pre_states out ! j) = i"
    by (auto simp: in_set_conv_nth)
  obtain prog where c: "fmlookup (programs s) (cc_program_id call) = Some prog"
    "rt_execute rt prog (cd_program_id caller) (cc_pre_states call) (cc_instruction_data call) = Inr out"
    "\<And>pre. pre \<in> set (pre_states out) \<Longrightarrow> account pre = acct (view s diff) (account_id pre)"
    "self_program_id out = cc_program_id call"
    "well_behaved (cc_program_id call) (pre_states out) (post_states out)"
    using process_call_Inr [OF pc] by metis
  have a: "account (pre_states out ! j) = acct (view s diff) i" using c(3) j by simp
  have pair: "pair_ok (cc_program_id call) (acct (view s diff) i) (ps_account (post_states out ! j))"
    using well_behaved_nth [OF c(5) j(1)] a by simp
  then have b: "acct (view s diff') i = ps_account (post_states out ! j)"
    using process_call_view(4) [OF pc] j own p_not_default
    by (auto simp: claim_ok_def pair_ok_def split: option.splits)
  show ?thesis
  proof (cases "cc_program_id call = p")
    case True
    have "R (is_authorized (pre_states out ! j)) (acct (view s diff) i) (acct (view s diff') i)"
      using R_run [OF c(2) _ _ _ j(1)] wf_programsD [OF wf c(1)] True c(4,5) a b own by simp
    then show ?thesis using auth j R_mono by (metis (full_types) nth_mem)
  next
    case False
    with pair own p_not_default have "ps_account (post_states out ! j)
        = (acct (view s diff) i)\<lparr> balance := balance (ps_account (post_states out ! j)) \<rparr>"
      "unat (balance (acct (view s diff) i)) \<le> unat (balance (ps_account (post_states out ! j)))"
      by (auto simp: pair_ok_def)
    then show ?thesis using b R_credit by metis
  qed
qed

lemma trace_keeps:
  assumes "call_trace rt s b ts c tr c'" "wf_programs s" "queue_ok rt s signers (fst (snd c))"
    "program_owner (acct (view s (snd (snd c))) i) = p"
  shows "R (i \<in> authorizable rt s signers) (acct (view s (snd (snd c))) i) (acct (view s (snd (snd c'))) i)"
  using assms
proof (induction rule: call_trace.induct)
  case (trace_nil c)
  show ?case by (rule R_refl)
next
  case (trace_cons c l c' tr c'')
  from trace_cons.hyps(1) obtain n call caller q diff out diff' where
    pc: "process_call rt s b ts call caller diff = Inr (out, diff')"
    and c: "c = (n, (call, caller) # q, diff)" "c' = (n + 1, next_calls call caller out @ q, diff')"
    by cases
  note auth = process_call_authorized [OF pc, of signers q]
  have own: "program_owner (acct (view s diff) i) = p" using trace_cons.prems(3) c by simp
  have "R (i \<in> authorizable rt s signers) (acct (view s diff) i) (acct (view s diff') i)"
    using auth(1) trace_cons.prems(2) c by (intro call_keeps [OF pc trace_cons.prems(1) own]) auto
  moreover have "program_owner (acct (view s diff') i) = p"
    using process_call_view(1) [OF pc] own p_not_default by (auto simp: acct_step_def)
  ultimately show ?case
    using trace_cons.IH trace_cons.prems(1,2) auth(2) c R_trans by fastforce
qed

text \<open>The effect of a whole accepted transaction on an account owned by \<open>p\<close>.\<close>

lemma transaction_keeps:
  assumes "from_public_transaction rt tx s b ts = Inr d" "wf_programs s"
    "program_owner (get_account_by_id s i) = p"
  shows "R (i \<in> authorizable rt s (signer_account_ids rt (pt_witness_set tx)))
    (get_account_by_id s i) (acct (view s (sd_public_diff d)) i)"
proof -
  obtain tr n where "call_trace rt s b ts
      (0, initial_queue s (signer_account_ids rt (pt_witness_set tx)) (pt_message tx), fmempty) tr
      (n, [], sd_public_diff d)"
    using from_public_transaction_Inr [OF assms(1)] by metis
  from trace_keeps [OF this assms(2)] assms(3) initial_queue_ok show ?thesis
    by (simp add: get_account_acct)
qed

end

text \<open>
  A runtime in which executing the program with identifier \<open>p\<close> runs the guest \<open>g\<close>; every other
  program is left to the given runtime.
\<close>

definition install :: "program_id \<Rightarrow> guest \<Rightarrow> runtime \<Rightarrow> runtime" where
  "install p g rt = rt\<lparr> rt_execute := \<lambda>prog caller pres words.
     if prog_id prog = p then map_err ProgramExecutionFailed (g (prog_id prog) caller pres words)
     else rt_execute rt prog caller pres words \<rparr>"

lemma install_execute:
  "rt_execute (install p g rt) prog caller pres words = Inr out \<Longrightarrow> prog_id prog = p \<Longrightarrow>
     g p caller pres words = Inr out"
  by (simp add: install_def map_err_Inr)

text \<open>
  An account of the authenticated transfer program keeps its data, and loses balance only when
  authorized.
\<close>

definition at_relation :: "bool \<Rightarrow> account \<Rightarrow> account \<Rightarrow> bool" where
  "at_relation f a b \<longleftrightarrow> data b = data a \<and> (f \<or> unat (balance a) \<le> unat (balance b))"

lemma at_main_relation:
  assumes run: "at_main dec p caller pres words = Inr out" and j: "j < length (pre_states out)"
  shows "at_relation (is_authorized (pre_states out ! j)) (account (pre_states out ! j)) (ps_account (post_states out ! j))"
proof -
  from run consider (init) a where "pre_states out = [a]"
      "post_states out = [new_claimed (account a) Claim_Authorized]"
    | (transfer) n s r where "pre_states out = [s, r]" "at_transfer s r n = Inr (post_states out)"
    by (auto simp: at_main_Inr)
  then show ?thesis
  proof cases
    case init
    with j show ?thesis by (simp add: at_relation_def)
  next
    case transfer
    with j consider "j = 0" | "j = 1" by fastforce
    then show ?thesis
      by cases (use transfer in \<open>auto simp: at_transfer_Inr at_relation_def unat_add_no_wrap\<close>)
  qed
qed

lemma at_owner_contract:
  assumes "p \<noteq> DEFAULT_PROGRAM_ID"
  shows "owner_contract (install p (at_main dec) rt) p at_relation"
proof
  fix prog caller pres words out j
  assume "rt_execute (install p (at_main dec) rt) prog caller pres words = Inr out" "prog_id prog = p"
  then have run: "at_main dec p caller pres words = Inr out" by (rule install_execute)
  assume "j < length (pre_states out)"
  with run show "at_relation (is_authorized (pre_states out ! j)) (account (pre_states out ! j)) (ps_account (post_states out ! j))"
    by (rule at_main_relation)
qed (use assms in \<open>auto simp: at_relation_def\<close>)

text \<open>
  The contract for authenticated transfer, for every codec and every identifier of the program
  other than the default one (an image id is a hash; \<open>at_program_id\<close> leaves the others alone).
\<close>

definition at_program_id :: "program_id \<Rightarrow> program_id" where
  "at_program_id p = (if p = DEFAULT_PROGRAM_ID then replicate 8 1 else p)"

lemma at_program_id_not_default: "at_program_id p \<noteq> DEFAULT_PROGRAM_ID"
  by (simp add: at_program_id_def DEFAULT_PROGRAM_ID_def numeral_eq_Suc)

interpretation at_owned: owner_contract "install (at_program_id p) (at_main dec) rt" "at_program_id p" at_relation
  for p dec rt
  by (rule at_owner_contract [OF at_program_id_not_default])

lemma at_program_id_eq [simp]: "p \<noteq> DEFAULT_PROGRAM_ID \<Longrightarrow> at_program_id p = p"
  by (simp add: at_program_id_def)

end
