(* ===== verification/Circuit_Soundness.thy ===== *)
theory Circuit_Soundness
  imports Circuit "HOL-Library.Multiset"
begin

text \<open>
  What an accepted run of the privacy preserving circuit guarantees: conservation of balances
  over public and private accounts, the binding of every private PDA to one program and seed,
  the ownership of every spent note, and the form of the emitted notes.
\<close>

section \<open>Frame of the bookkeeping steps\<close>

definition same_states :: "execution_state \<Rightarrow> execution_state \<Rightarrow> bool" where
  "same_states es es' \<longleftrightarrow>
     es_pre_states es' = es_pre_states es \<and> es_post_states es' = es_post_states es
   \<and> es_block_validity_window es' = es_block_validity_window es
   \<and> es_timestamp_validity_window es' = es_timestamp_validity_window es
   \<and> es_private_pda_npk_by_position es' = es_private_pda_npk_by_position es"

lemma same_states_refl [simp]: "same_states es es"
  by (simp add: same_states_def)

lemma same_states_trans: "same_states a b \<Longrightarrow> same_states b c \<Longrightarrow> same_states a c"
  by (simp add: same_states_def)

lemma assert_family_binding_frame:
  "assert_family_binding pid seed i es = Inr es' \<Longrightarrow>
     same_states es es' \<and> es_private_pda_bound_positions es' = es_private_pda_bound_positions es
   \<and> fmlookup (es_pda_family_binding es') (pid, seed) = Some i
   \<and> (\<forall>k v. fmlookup (es_pda_family_binding es) k = Some v
            \<longrightarrow> fmlookup (es_pda_family_binding es') k = Some v)"
  by (auto simp: assert_family_binding_def same_states_def ensure_Inr
      split: option.splits if_splits)

lemma bind_private_pda_position_frame:
  "bind_private_pda_position position pid seed es = Inr es' \<Longrightarrow>
     same_states es es' \<and> es_pda_family_binding es' = es_pda_family_binding es
   \<and> es_private_pda_bound_positions es' = fmupd position (pid, seed) (es_private_pda_bound_positions es)"
  by (auto simp: bind_private_pda_position_def same_states_def ensure_Inr split: option.splits
      intro!: fmap_ext)

lemma resolve_frame:
  assumes "resolve_authorization_and_record_bindings H i position caller seeds prev es = Inr (b, es')"
  shows "same_states es es'"
proof -
  define m where "m = (case caller of None \<Rightarrow> None
    | Some c \<Rightarrow> match_caller_seed H c i (fmlookup (es_private_pda_npk_by_position es) position) seeds)"
  obtain es1 where 1: "(case m of None \<Rightarrow> Inr es
           | Some (seed, is_private_form, c) \<Rightarrow>
               rbind (assert_family_binding c seed i es) (\<lambda>es.
               if is_private_form then bind_private_pda_position position c seed es else Inr es)) = Inr es1"
    and 2: "same_states es1 es'"
    using assms unfolding resolve_authorization_and_record_bindings_def Let_def m_def [symmetric] rbind_Inr
    by (auto simp: same_states_def split: if_splits)
  have "same_states es es1"
    using 1 by (auto simp: rbind_Inr split: option.splits if_splits
        dest!: assert_family_binding_frame bind_private_pda_position_frame intro: same_states_trans)
  with 2 show ?thesis by (rule same_states_trans [rotated])
qed

lemma sync_seen_frame:
  "sync_seen H caller seeds pre known es = Inr es' \<Longrightarrow> same_states es es' \<and> known = account pre"
  by (auto simp: sync_seen_def ensure_Inr expect_Inr rbind_Inr dest: resolve_frame)

lemma sync_new_frame:
  assumes "sync_new H idents pre es = Inr es'"
  shows "es_pre_states es' = es_pre_states es @ [pre] \<and> es_post_states es' = es_post_states es"
proof -
  obtain ext es1 where 1: "(case ext of None \<Rightarrow> Inr es
             | Some (seed, authority) \<Rightarrow>
                 ensure (\<not> is_authorized pre)
                   ''Private PDA with externally-provided seed must not be authorized'' (
                 rbind (bind_private_pda_position (length (es_pre_states es)) authority seed es) (\<lambda>es.
                 assert_family_binding authority seed (account_id pre) es))) = Inr es1"
    and 2: "es' = es1\<lparr> es_pre_states := es_pre_states es1 @ [pre] \<rparr>"
    using assms by (auto simp: sync_new_def Let_def rbind_Inr)
  have "same_states es es1"
    using 1 by (auto simp: rbind_Inr ensure_Inr split: option.splits
        dest!: assert_family_binding_frame bind_private_pda_position_frame intro: same_states_trans)
  with 2 show ?thesis by (simp add: same_states_def)
qed

lemma sync_new_windows:
  assumes "sync_new H idents pre es = Inr es'"
  shows "es_block_validity_window es' = es_block_validity_window es
    \<and> es_timestamp_validity_window es' = es_timestamp_validity_window es"
  using assms
  by (auto simp: sync_new_def Let_def rbind_Inr ensure_Inr same_states_def split: option.splits
      dest!: assert_family_binding_frame bind_private_pda_position_frame)

text \<open>What a claim leaves of the post state.\<close>

definition claimed_as :: "program_id \<Rightarrow> account \<Rightarrow> account \<Rightarrow> bool" where
  "claimed_as pid b a \<longleftrightarrow> a = b \<or> program_owner b = DEFAULT_PROGRAM_ID \<and> a = b\<lparr> program_owner := pid \<rparr>"

lemma sync_claim_frame:
  assumes "sync_claim H idents pid pre post es = Inr (a, es')"
  shows "same_states es es' \<and> claimed_as pid (ps_account post) a"
proof (cases "ps_claim post")
  case None
  with assms show ?thesis by (simp add: sync_claim_def claimed_as_def)
next
  case (Some claim)
  then have own: "program_owner (ps_account post) = DEFAULT_PROGRAM_ID"
    and a: "a = (ps_account post)\<lparr> program_owner := pid \<rparr>"
    using assms by (auto simp: sync_claim_def ensure_Inr expect_Inr rbind_Inr)
  have "same_states es es'"
    using assms Some
    by (auto simp: sync_claim_def ensure_Inr expect_Inr rbind_Inr split: claim.splits if_splits
        dest!: assert_family_binding_frame bind_private_pda_position_frame intro: same_states_trans)
  with own a show ?thesis by (simp add: claimed_as_def)
qed

lemma sync_pair_effect:
  assumes "sync_pair H idents pid caller seeds (pre, post) es = Inr es'"
  obtains a where "claimed_as pid (ps_account post) a"
    "es_post_states es' = fmupd (account_id pre) a (es_post_states es)"
    "case fmlookup (es_post_states es) (account_id pre) of
       Some known \<Rightarrow> known = account pre \<and> es_pre_states es' = es_pre_states es
     | None \<Rightarrow> es_pre_states es' = es_pre_states es @ [pre]"
proof -
  obtain es1 a es2 where 1: "(case fmlookup (es_post_states es) (account_id pre) of
        Some known \<Rightarrow> sync_seen H caller seeds pre known es | None \<Rightarrow> sync_new H idents pre es) = Inr es1"
    and 2: "sync_claim H idents pid pre post es1 = Inr (a, es2)"
    and 3: "es' = es2\<lparr> es_post_states := fmupd (account_id pre) a (es_post_states es2) \<rparr>"
    using assms by (auto simp: sync_pair_def rbind_Inr)
  have s: "same_states es1 es2" "claimed_as pid (ps_account post) a" using sync_claim_frame [OF 2] by auto
  show thesis
  proof (cases "fmlookup (es_post_states es) (account_id pre)")
    case None
    with 1 have "es_pre_states es1 = es_pre_states es @ [pre]" "es_post_states es1 = es_post_states es"
      using sync_new_frame by auto
    with None s 3 that [of a] show thesis by (simp add: same_states_def)
  next
    case (Some known)
    with 1 have "same_states es es1" "known = account pre" using sync_seen_frame by auto
    with Some s 3 that [of a] show thesis by (simp add: same_states_def)
  qed
qed

section \<open>Conservation in the circuit\<close>

text \<open>
  The accounts seen so far are exactly those with a post state; along the chain an account keeps
  its nonce, and its owner once it has one.
\<close>

definition evolves :: "account \<Rightarrow> account \<Rightarrow> bool" where
  "evolves a b \<longleftrightarrow> nonce b = nonce a \<and>
     (program_owner a \<noteq> DEFAULT_PROGRAM_ID \<longrightarrow> program_owner b = program_owner a)"

definition es_ok :: "execution_state \<Rightarrow> bool" where
  "es_ok es \<longleftrightarrow>
     distinct (map account_id (es_pre_states es))
   \<and> set (map account_id (es_pre_states es)) = fset (fmdom (es_post_states es))
   \<and> (\<forall>pre \<in> set (es_pre_states es). evolves (account pre) (acct (es_post_states es) (account_id pre)))"

lemma evolves_refl [simp]: "evolves a a"
  by (simp add: evolves_def)

lemma evolves_trans: "evolves a b \<Longrightarrow> evolves b c \<Longrightarrow> evolves a c"
  by (auto simp: evolves_def)

lemma pair_ok_claimed_evolves: "pair_ok pid a b \<Longrightarrow> claimed_as pid b c \<Longrightarrow> evolves a c"
  by (auto simp: pair_ok_def claimed_as_def evolves_def)

lemma sync_pair_ok:
  assumes "sync_pair H idents pid caller seeds (pre, post) es = Inr es'"
    and ok: "es_ok es" and pair: "pair_ok pid (account pre) (ps_account post)"
  shows "es_ok es'"
    and "total_supply (es_post_states es') + total (map account (es_pre_states es)) + unat (balance (account pre))
      = total_supply (es_post_states es) + total (map account (es_pre_states es')) + unat (balance (ps_account post))"
proof -
  obtain a where a: "claimed_as pid (ps_account post) a"
    and p: "es_post_states es' = fmupd (account_id pre) a (es_post_states es)"
    and c: "case fmlookup (es_post_states es) (account_id pre) of
       Some known \<Rightarrow> known = account pre \<and> es_pre_states es' = es_pre_states es
     | None \<Rightarrow> es_pre_states es' = es_pre_states es @ [pre]"
    using sync_pair_effect [OF assms(1)] .
  have ev: "evolves (account pre) a" using pair a by (rule pair_ok_claimed_evolves)
  have bal: "balance a = balance (ps_account post)" using a by (auto simp: claimed_as_def)
  note up = total_supply_upd [of "account_id pre" a "es_post_states es"]
  show "es_ok es'"
  proof (cases "fmlookup (es_post_states es) (account_id pre)")
    case None
    then have "account_id pre \<notin> set (map account_id (es_pre_states es))"
      using ok by (simp add: es_ok_def fmdom_notI)
    then have "\<forall>q \<in> set (es_pre_states es). account_id q \<noteq> account_id pre"
      by (metis image_eqI list.set_map)
    with None ok p c ev show ?thesis by (auto simp: es_ok_def)
  next
    case (Some known)
    then have "account_id pre \<in> fset (fmdom (es_post_states es))" "acct (es_post_states es) (account_id pre) = account pre"
      using c by (simp_all add: fmdomI acct_def)
    with Some ok p c ev show ?thesis by (auto simp: es_ok_def intro: evolves_trans)
  qed
  show "total_supply (es_post_states es') + total (map account (es_pre_states es)) + unat (balance (account pre))
      = total_supply (es_post_states es) + total (map account (es_pre_states es')) + unat (balance (ps_account post))"
    using up p c bal by (cases "fmlookup (es_post_states es) (account_id pre)") (simp_all add: acct_def total_def)
qed

lemma sync_states_ok:
  assumes "fold_res (sync_pair H idents pid caller seeds) (zip pres posts) es = Inr es'"
    and "es_ok es" and "list_all2 (pair_ok pid) (map account pres) (map ps_account posts)"
  shows "es_ok es' \<and>
    total_supply (es_post_states es') + total (map account (es_pre_states es)) + total (map account pres)
    = total_supply (es_post_states es) + total (map account (es_pre_states es')) + total (map ps_account posts)"
  using assms
proof (induction pres posts arbitrary: es rule: list_induct2')
  case (4 pre pres post posts)
  then obtain es1 where s: "sync_pair H idents pid caller seeds (pre, post) es = Inr es1"
    and r: "fold_res (sync_pair H idents pid caller seeds) (zip pres posts) es1 = Inr es'"
    by (auto simp: rbind_Inr)
  have pair: "pair_ok pid (account pre) (ps_account post)" using 4(4) by simp
  note one = sync_pair_ok [OF s 4(3) pair]
  have "es_ok es' \<and>
    total_supply (es_post_states es') + total (map account (es_pre_states es1)) + total (map account pres)
    = total_supply (es_post_states es1) + total (map account (es_pre_states es')) + total (map ps_account posts)"
    using 4(4) by (intro "4.IH" [OF r one(1)]) simp
  with one(2) show ?case by (simp add: total_def)
qed (auto simp: total_def)

text \<open>After every call, what the accounts held before the chain equals what they hold now.\<close>

definition es_balanced :: "execution_state \<Rightarrow> bool" where
  "es_balanced es \<longleftrightarrow> es_ok es \<and> total_supply (es_post_states es) = total (map account (es_pre_states es))"

lemma circuit_loop_balanced:
  "circuit_loop H verify idents n q outs es = Inr es' \<Longrightarrow> es_balanced es \<Longrightarrow> es_balanced es'"
proof (induction H verify idents n q outs es rule: circuit_loop.induct)
  case (3 H verify idents n call caller q out outs es)
  then obtain es1 where wb: "well_behaved (cc_program_id call) (pre_states out) (post_states out)"
    and s: "fold_res (sync_pair H idents (cc_program_id call) caller (cc_pda_seeds call))
       (zip (pre_states out) (post_states out)) es = Inr es1"
    and r: "circuit_loop H verify idents (n + 1)
       (map (\<lambda>c. (c, Some (cc_program_id call))) (chained_calls out) @ q) outs es1 = Inr es'"
    by (auto simp: ensure_Inr rbind_Inr map_err_Inr validate_execution_Inr validate_and_sync_states_def)
  from sync_states_ok [OF s] 3(3) wb have "es_balanced es1"
    by (auto simp: es_balanced_def well_behaved_def)
  with "3.IH" r show ?case by blast
qed (auto simp: ensure_Inr)

lemma derive_from_outputs_Inr:
  assumes "derive_from_outputs H verify idents pid outs = Inr es"
  obtains bw tw first where "intersect_windows (map block_validity_window outs) = Inr bw"
    "intersect_windows (map timestamp_validity_window outs) = Inr tw"
    "outs \<noteq> []" "check_bound_positions idents es = Inr ()" "check_modified_claimed es = Inr ()"
    "circuit_loop H verify idents 0
       [(\<lparr> cc_program_id = pid, cc_pre_states = pre_states (hd outs),
           cc_instruction_data = instruction_data (hd outs), cc_pda_seeds = [] \<rparr>, None)] outs
       \<lparr> es_pre_states = [], es_post_states = fmempty, es_block_validity_window = bw,
         es_timestamp_validity_window = tw, es_private_pda_bound_positions = fmempty,
         es_pda_family_binding = fmempty, es_private_pda_npk_by_position = npk_map H 0 idents fmempty,
         es_authorized_accounts = {} \<rparr> = Inr es"
  using assms
  by (cases outs) (auto simp: derive_from_outputs_def rbind_Inr map_err_Inr Let_def)

lemma derive_balanced: "derive_from_outputs H verify idents pid outs = Inr es \<Longrightarrow> es_balanced es"
  by (elim derive_from_outputs_Inr, erule circuit_loop_balanced)
    (simp add: es_balanced_def es_ok_def total_def total_supply_def)

section \<open>Bindings of private PDAs\<close>

lemma npk_map_lookup:
  "fmlookup (npk_map H n idents m) p =
     (if n \<le> p \<and> p - n < length idents \<and> npk_if_private_pda H (idents ! (p - n)) \<noteq> None
      then npk_if_private_pda H (idents ! (p - n)) else fmlookup m p)"
proof (induction H n idents m rule: npk_map.induct)
  case (2 H n ident idents m)
  show ?case
  proof (cases "p = n")
    case True
    then show ?thesis using 2 by (auto split: option.splits)
  next
    case False
    then have "n \<le> p \<Longrightarrow> (ident # idents) ! (p - n) = idents ! (p - Suc n)" by (simp add: nth_Cons')
    with False show ?thesis using 2 by (auto split: option.splits)
  qed
qed simp

lemma find_pre_Some:
  "find_pre i n as = Some (p, a) \<Longrightarrow> n \<le> p \<and> p - n < length as \<and> as ! (p - n) = a \<and> account_id a = i"
proof (induction i n as rule: find_pre.induct)
  case (2 i n b as)
  show ?case
  proof (cases "account_id b = i")
    case False
    with 2 have "Suc n \<le> p \<and> p - Suc n < length as \<and> as ! (p - Suc n) = a \<and> account_id a = i" by simp
    then show ?thesis by (auto simp: nth_Cons')
  qed (use 2 in auto)
qed simp

text \<open>A position of the circuit bound to a program and a seed, for the account \<open>i\<close>.\<close>

definition bound_at ::
  "hash_fn \<Rightarrow> input_account_identity list \<Rightarrow> execution_state \<Rightarrow> account_id \<Rightarrow> nat \<Rightarrow> program_id \<times> pda_seed \<Rightarrow> bool" where
  "bound_at H idents es i p b \<longleftrightarrow>
     p < length idents
   \<and> (\<exists>npk ident. npk_if_private_pda H (idents ! p) = Some (npk, ident)
        \<and> i = for_private_pda H (fst b) (snd b) npk ident)
   \<and> fmlookup (es_pda_family_binding es) b = Some i"

definition bound_ok :: "hash_fn \<Rightarrow> input_account_identity list \<Rightarrow> execution_state \<Rightarrow> bool" where
  "bound_ok H idents es \<longleftrightarrow>
     es_private_pda_npk_by_position es = npk_map H 0 idents fmempty
   \<and> (\<forall>p b. fmlookup (es_private_pda_bound_positions es) p = Some b \<longrightarrow>
        p < length (es_pre_states es) \<and> bound_at H idents es (account_id (es_pre_states es ! p)) p b)"

text \<open>A step that may bind position \<open>p\<close>, which holds account \<open>i\<close>, and keeps all earlier bindings.\<close>

definition binds ::
  "hash_fn \<Rightarrow> input_account_identity list \<Rightarrow> account_id \<Rightarrow> nat \<Rightarrow> execution_state \<Rightarrow> execution_state \<Rightarrow> bool" where
  "binds H idents i p es es' \<longleftrightarrow>
     same_states es es'
   \<and> (\<forall>k v. fmlookup (es_pda_family_binding es) k = Some v
        \<longrightarrow> fmlookup (es_pda_family_binding es') k = Some v)
   \<and> (es_private_pda_bound_positions es' = es_private_pda_bound_positions es
      \<or> (\<exists>b. es_private_pda_bound_positions es' = fmupd p b (es_private_pda_bound_positions es)
          \<and> bound_at H idents es' i p b))"

lemma binds_ok:
  assumes "binds H idents i p es es'" and "bound_ok H idents es"
    and "p < length (es_pre_states es)" and "account_id (es_pre_states es ! p) = i"
  shows "bound_ok H idents es'"
  using assms by (auto simp: binds_def bound_ok_def bound_at_def same_states_def split: if_splits)

lemma binds_push:
  assumes "binds H idents (account_id pre) (length (es_pre_states es)) es es'" and "bound_ok H idents es"
  shows "bound_ok H idents (es'\<lparr> es_pre_states := es_pre_states es' @ [pre] \<rparr>)"
  using assms
  by (auto simp: binds_def bound_ok_def bound_at_def same_states_def nth_append split: if_splits
      dest: less_imp_neq)

text \<open>The two orders in which a binding is recorded.\<close>

lemma family_then_position:
  assumes "assert_family_binding pid seed i es = Inr es1"
    and "bind_private_pda_position p pid seed es1 = Inr es2"
    and "es_private_pda_npk_by_position es = npk_map H 0 idents fmempty"
    and "fmlookup (es_private_pda_npk_by_position es) p = Some (npk, ident)"
    and "i = for_private_pda H pid seed npk ident"
  shows "binds H idents i p es es2"
  using assms(3-5) assert_family_binding_frame [OF assms(1)] bind_private_pda_position_frame [OF assms(2)]
  by (auto simp: binds_def bound_at_def same_states_def npk_map_lookup split: if_splits)

lemma position_then_family:
  assumes "bind_private_pda_position p pid seed es = Inr es1"
    and "assert_family_binding pid seed i es1 = Inr es2"
    and "es_private_pda_npk_by_position es = npk_map H 0 idents fmempty"
    and "fmlookup (es_private_pda_npk_by_position es) p = Some (npk, ident)"
    and "i = for_private_pda H pid seed npk ident"
  shows "binds H idents i p es es2"
  using assms(3-5) assert_family_binding_frame [OF assms(2)] bind_private_pda_position_frame [OF assms(1)]
  by (auto simp: binds_def bound_at_def same_states_def npk_map_lookup split: if_splits)

lemma family_only: "assert_family_binding pid seed i es = Inr es' \<Longrightarrow> binds H idents j p es es'"
  using assert_family_binding_frame by (auto simp: binds_def)

lemma binds_refl [simp]: "binds H idents i p es es"
  by (simp add: binds_def)

lemma binds_authorized [simp]:
  "binds H idents i p es (es'\<lparr> es_authorized_accounts := A \<rparr>) \<longleftrightarrow> binds H idents i p es es'"
  by (simp add: binds_def bound_at_def same_states_def)

lemma match_caller_seed_private:
  "match_caller_seed H c i npk seeds = Some (seed, True, c') \<Longrightarrow>
     c' = c \<and> (\<exists>k ident. npk = Some (k, ident) \<and> i = for_private_pda H c seed k ident)"
  by (induction H c i npk seeds rule: match_caller_seed.induct) (auto split: if_splits option.splits)

lemma resolve_binds:
  assumes r: "resolve_authorization_and_record_bindings H i p caller seeds prev es = Inr (b, es')"
    and npk: "es_private_pda_npk_by_position es = npk_map H 0 idents fmempty"
  shows "binds H idents i p es es'"
proof -
  define m where "m = (case caller of None \<Rightarrow> None
    | Some c \<Rightarrow> match_caller_seed H c i (fmlookup (es_private_pda_npk_by_position es) p) seeds)"
  obtain es1 where 1: "(case m of None \<Rightarrow> Inr es
           | Some (seed, is_private_form, c) \<Rightarrow>
               rbind (assert_family_binding c seed i es) (\<lambda>es.
               if is_private_form then bind_private_pda_position p c seed es else Inr es)) = Inr es1"
    and 2: "\<exists>A. es' = es1\<lparr> es_authorized_accounts := A \<rparr>"
    using r unfolding resolve_authorization_and_record_bindings_def Let_def m_def [symmetric] rbind_Inr
    by (auto split: if_splits) (metis execution_state.surjective execution_state.update_convs(8))+
  have "binds H idents i p es es1"
  proof (cases m)
    case (Some t)
    obtain seed f c where t: "t = (seed, f, c)" by (cases t)
    show ?thesis
    proof (cases f)
      case True
      with Some t have "match_caller_seed H (the caller) i (fmlookup (es_private_pda_npk_by_position es) p) seeds
          = Some (seed, True, c)" by (auto simp: m_def split: option.splits)
      then obtain k ident where k: "fmlookup (es_private_pda_npk_by_position es) p = Some (k, ident)"
        "i = for_private_pda H c seed k ident"
        using match_caller_seed_private by blast
      from 1 Some t True show ?thesis
        by (auto simp: rbind_Inr intro: family_then_position [OF _ _ npk k])
    next
      case False
      with 1 Some t show ?thesis by (auto simp: rbind_Inr intro: family_only)
    qed
  qed (use 1 in simp)
  with 2 show ?thesis by auto
qed

lemma external_seed_Some:
  "external_seed H i (nth_opt idents p) = Inr (Some (seed, authority)) \<Longrightarrow>
     p < length idents \<and> (\<exists>npk ident. npk_if_private_pda H (idents ! p) = Some (npk, ident)
       \<and> i = for_private_pda H authority seed npk ident)"
  by (auto simp: external_seed_def nth_opt_def npk_if_private_pda_def ensure_Inr
      split: if_splits option.splits input_account_identity.splits)

lemma sync_seen_bound:
  assumes "sync_seen H caller seeds pre known es = Inr es'" and ok: "bound_ok H idents es"
  shows "bound_ok H idents es'"
proof -
  obtain p a is_auth where f: "find_pre (account_id pre) 0 (es_pre_states es) = Some (p, a)"
    and r: "resolve_authorization_and_record_bindings H (account_id pre) p caller seeds (is_authorized a) es
      = Inr (is_auth, es')"
    using assms(1) by (auto simp: sync_seen_def ensure_Inr expect_Inr rbind_Inr)
  have "binds H idents (account_id pre) p es es'"
    using ok by (intro resolve_binds [OF r]) (simp add: bound_ok_def)
  then show ?thesis using find_pre_Some [OF f] by (auto intro: binds_ok [OF _ ok])
qed

lemma sync_new_bound:
  assumes "sync_new H idents pre es = Inr es'" and ok: "bound_ok H idents es"
  shows "bound_ok H idents es'"
proof -
  let ?p = "length (es_pre_states es)"
  have npk: "es_private_pda_npk_by_position es = npk_map H 0 idents fmempty" using ok by (simp add: bound_ok_def)
  obtain ext es1 where x: "external_seed H (account_id pre) (nth_opt idents ?p) = Inr ext"
    and 1: "(case ext of None \<Rightarrow> Inr es
             | Some (seed, authority) \<Rightarrow>
                 ensure (\<not> is_authorized pre)
                   ''Private PDA with externally-provided seed must not be authorized'' (
                 rbind (bind_private_pda_position ?p authority seed es) (\<lambda>es.
                 assert_family_binding authority seed (account_id pre) es))) = Inr es1"
    and 2: "es' = es1\<lparr> es_pre_states := es_pre_states es1 @ [pre] \<rparr>"
    using assms(1) by (auto simp: sync_new_def Let_def rbind_Inr)
  have "binds H idents (account_id pre) ?p es es1"
  proof (cases ext)
    case (Some t)
    obtain seed authority where t: "t = (seed, authority)" by (cases t)
    with x Some obtain npk' ident where p: "?p < length idents"
      and k: "npk_if_private_pda H (idents ! ?p) = Some (npk', ident)"
      and i: "account_id pre = for_private_pda H authority seed npk' ident"
      using external_seed_Some by blast
    have "fmlookup (es_private_pda_npk_by_position es) ?p = Some (npk', ident)"
      using p k npk by (simp add: npk_map_lookup)
    with 1 Some t i show ?thesis by (auto simp: rbind_Inr ensure_Inr intro: position_then_family [OF _ _ npk])
  qed (use 1 in simp)
  with 2 ok show ?thesis by (simp add: binds_push)
qed

lemma sync_claim_bound:
  assumes c: "sync_claim H idents pid pre post es = Inr (a, es')" and ok: "bound_ok H idents es"
  shows "bound_ok H idents es'"
proof (cases "ps_claim post")
  case (Some claim)
  have npk: "es_private_pda_npk_by_position es = npk_map H 0 idents fmempty" using ok by (simp add: bound_ok_def)
  obtain p q where f: "find_pre (account_id pre) 0 (es_pre_states es) = Some (p, q)"
    using c Some by (auto simp: sync_claim_def ensure_Inr expect_Inr)
  have "binds H idents (account_id pre) p es es'"
    using c Some f
    by (auto simp: sync_claim_def ensure_Inr expect_Inr rbind_Inr split: claim.splits if_splits
        intro: family_only position_then_family [OF _ _ npk])
  then show ?thesis using find_pre_Some [OF f] by (auto intro: binds_ok [OF _ ok])
qed (use assms in \<open>simp add: sync_claim_def\<close>)

lemma sync_pair_bound:
  assumes "sync_pair H idents pid caller seeds pp es = Inr es'" and ok: "bound_ok H idents es"
  shows "bound_ok H idents es'"
proof -
  obtain pre post where pp: "pp = (pre, post)" by (cases pp)
  with assms(1) obtain es1 a es2 where 1: "(case fmlookup (es_post_states es) (account_id pre) of
        Some known \<Rightarrow> sync_seen H caller seeds pre known es | None \<Rightarrow> sync_new H idents pre es) = Inr es1"
    and 2: "sync_claim H idents pid pre post es1 = Inr (a, es2)"
    and 3: "es' = es2\<lparr> es_post_states := fmupd (account_id pre) a (es_post_states es2) \<rparr>"
    by (auto simp: sync_pair_def rbind_Inr)
  have "bound_ok H idents es1"
    using 1 ok by (auto split: option.splits intro: sync_seen_bound sync_new_bound)
  then have "bound_ok H idents es2" by (rule sync_claim_bound [OF 2])
  with 3 show ?thesis by (simp add: bound_ok_def bound_at_def)
qed

lemma circuit_loop_bound:
  "circuit_loop H verify idents n q outs es = Inr es' \<Longrightarrow> bound_ok H idents es \<Longrightarrow> bound_ok H idents es'"
proof (induction H verify idents n q outs es rule: circuit_loop.induct)
  case (3 H verify idents n call caller q out outs es)
  then obtain es1 where
    s: "fold_res (sync_pair H idents (cc_program_id call) caller (cc_pda_seeds call))
       (zip (pre_states out) (post_states out)) es = Inr es1"
    and r: "circuit_loop H verify idents (n + 1)
       (map (\<lambda>c. (c, Some (cc_program_id call))) (chained_calls out) @ q) outs es1 = Inr es'"
    by (auto simp: ensure_Inr rbind_Inr map_err_Inr validate_and_sync_states_def)
  have "bound_ok H idents es1" by (rule fold_res_invariant [OF s]) (use 3(3) sync_pair_bound in blast)+
  with "3.IH" r show ?case by blast
qed (auto simp: ensure_Inr)

lemma derive_bound: "derive_from_outputs H verify idents pid outs = Inr es \<Longrightarrow> bound_ok H idents es"
  by (elim derive_from_outputs_Inr, erule circuit_loop_bound) (simp add: bound_ok_def)

text \<open>No two private accounts of a transaction stand for the same program and seed.\<close>

lemma bound_inj:
  assumes "bound_ok H idents es" and "es_ok es"
    and "fmlookup (es_private_pda_bound_positions es) p = Some b"
    and "fmlookup (es_private_pda_bound_positions es) q = Some b"
  shows "p = q"
proof -
  have at: "r < length (es_pre_states es) \<and> fmlookup (es_pda_family_binding es) b = Some (account_id (es_pre_states es ! r))"
    if "fmlookup (es_private_pda_bound_positions es) r = Some b" for r
    using assms(1) that unfolding bound_ok_def bound_at_def by blast
  have "p < length (es_pre_states es)" "q < length (es_pre_states es)"
    "account_id (es_pre_states es ! p) = account_id (es_pre_states es ! q)"
    using at [OF assms(3)] at [OF assms(4)] by simp_all
  moreover have "distinct (map account_id (es_pre_states es))" using assms(2) by (simp add: es_ok_def)
  ultimately show ?thesis by (metis length_map nth_eq_iff_index_eq nth_map)
qed

section \<open>Notes\<close>

text \<open>The secret key from which a private account is derived.\<close>

definition owns_note :: "hash_fn \<Rightarrow> nullifier_secret_key \<Rightarrow> account_id \<Rightarrow> bool" where
  "owns_note H nsk i \<longleftrightarrow> (\<exists>kind. i = for_private_account H (npk_of_nsk H nsk) kind)"

text \<open>
  What the \<open>k\<close>-th private account contributes: its post state, with a fresh nonce, is committed
  and encrypted; its pre state is nullified, either as the initialisation of a default account or
  as the update of the commitment to the pre state, by the owner's secret key and with the digest
  of a commitment tree that contains it.
\<close>

definition note_ok ::
  "hash_fn \<Rightarrow> (bytes \<Rightarrow> bytes \<Rightarrow> bytes) \<Rightarrow> nat \<Rightarrow> account_meta \<times> account \<Rightarrow> commitment \<Rightarrow> nullifier \<times> digest
   \<Rightarrow> encrypted_account_data \<Rightarrow> bool" where
  "note_ok H ks k pp c nf ead \<longleftrightarrow>
     (\<exists>n. c = commitment_new H (account_id (fst pp)) ((snd pp)\<lparr> nonce := n \<rparr>)
       \<and> (\<exists>kind ssk. encrypt H ks ((snd pp)\<lparr> nonce := n \<rparr>) kind ssk c (word_of_nat k) = Some (ead_ciphertext ead))
       \<and> (account (fst pp) = default_account
            \<and> nf = (for_account_initialization H (account_id (fst pp)), DUMMY_COMMITMENT_HASH)
            \<and> n = private_account_nonce_init H (account_id (fst pp))
          \<or> (\<exists>mp nsk. owns_note H nsk (account_id (fst pp))
            \<and> nf = compute_update_nullifier_and_set_digest H mp (account (fst pp)) (account_id (fst pp)) nsk
            \<and> n = private_account_nonce_increment H (nonce (account (fst pp))) nsk)))"

definition out_ok ::
  "hash_fn \<Rightarrow> (bytes \<Rightarrow> bytes \<Rightarrow> bytes) \<Rightarrow> out_state \<Rightarrow> (account_meta \<times> account) list
   \<Rightarrow> (account_meta \<times> account) list \<Rightarrow> bool" where
  "out_ok H ks st pub priv \<longleftrightarrow>
     (case st of (co, idx) \<Rightarrow>
       co_public_pre_states co = map fst pub \<and> co_public_post_states co = map snd pub
     \<and> unat idx = length priv
     \<and> length (co_new_commitments co) = length priv \<and> length (co_new_nullifiers co) = length priv
     \<and> length (co_encrypted_private_post_states co) = length priv
     \<and> (\<forall>k < length priv. note_ok H ks k (priv ! k) (co_new_commitments co ! k) (co_new_nullifiers co ! k)
          (co_encrypted_private_post_states co ! k)))"

lemma emit_out_ok:
  assumes e: "emit_private_output H ks post i kind ssk ep v nf n (co, idx) = Inr st'"
    and ok: "out_ok H ks (co, idx) pub priv" and i: "i = account_id pre"
    and nf: "account pre = default_account \<and> nf = (for_account_initialization H i, DUMMY_COMMITMENT_HASH)
            \<and> n = private_account_nonce_init H i
          \<or> (\<exists>mp nsk. owns_note H nsk i
            \<and> nf = compute_update_nullifier_and_set_digest H mp (account pre) i nsk
            \<and> n = private_account_nonce_increment H (nonce (account pre)) nsk)"
  shows "out_ok H ks st' pub (priv @ [(pre, post)])"
proof -
  let ?c = "commitment_new H i (post\<lparr> nonce := n \<rparr>)"
  obtain ct idx' where ct: "encrypt H ks (post\<lparr> nonce := n \<rparr>) kind ssk ?c idx = Some ct"
    and idx': "unat idx' = unat idx + 1"
    and st': "st' = (co\<lparr> co_new_nullifiers := co_new_nullifiers co @ [nf],
                  co_new_commitments := co_new_commitments co @ [?c],
                  co_encrypted_private_post_states := co_encrypted_private_post_states co
                    @ [\<lparr> ead_ciphertext = ct, ead_epk = ep, ead_view_tag = v \<rparr>] \<rparr>, idx')"
    using e by (auto simp: emit_private_output_def Let_def expect_Inr checked_add_Some)
  have "unat idx = length priv" using ok by (simp add: out_ok_def)
  moreover have "idx = word_of_nat (unat idx)" by simp
  ultimately have "idx = word_of_nat (length priv)" by metis
  with ct i nf have "note_ok H ks (length priv) (pre, post) ?c nf \<lparr> ead_ciphertext = ct, ead_epk = ep, ead_view_tag = v \<rparr>"
    unfolding note_ok_def by (intro exI [of _ n]) auto
  with ok idx' st' show ?thesis
    by (simp add: out_ok_def nth_append less_Suc_eq)
qed

lemma emit_init_ok:
  assumes "emit_private_output H ks post (account_id pre) kind ssk ep v
      (for_account_initialization H (account_id pre), DUMMY_COMMITMENT_HASH)
      (private_account_nonce_init H (account_id pre)) (co, idx) = Inr st'"
    and "out_ok H ks (co, idx) pub priv" and "account pre = default_account"
  shows "out_ok H ks st' pub (priv @ [(pre, post)])"
  by (rule emit_out_ok [OF assms(1,2)]) (use assms(3) in simp_all)

lemma emit_update_ok:
  assumes "emit_private_output H ks post (account_id pre) kind ssk ep v
      (compute_update_nullifier_and_set_digest H mp (account pre) (account_id pre) nsk)
      (private_account_nonce_increment H (nonce (account pre)) nsk) (co, idx) = Inr st'"
    and "out_ok H ks (co, idx) pub priv" and "owns_note H nsk (account_id pre)"
  shows "out_ok H ks st' pub (priv @ [(pre, post)])"
  by (rule emit_out_ok [OF assms(1,2)]) (use assms(3) in blast)+

text \<open>Which account the identity of a private input stands for.\<close>

definition pda_position_ok ::
  "hash_fn \<Rightarrow> (nat, program_id \<times> pda_seed) fmap \<Rightarrow> nat \<Rightarrow> input_account_identity \<Rightarrow> account_meta \<Rightarrow> bool" where
  "pda_position_ok H m p ident pre \<longleftrightarrow>
     (\<forall>pid seed npk i. fmlookup m p = Some (pid, seed) \<longrightarrow> npk_if_private_pda H ident = Some (npk, i)
        \<longrightarrow> account_id pre = for_private_pda H pid seed npk i)"

lemma bound_ok_position:
  assumes "bound_ok H idents es"
  shows "pda_position_ok H (es_private_pda_bound_positions es) p (idents ! p) (es_pre_states es ! p)"
  unfolding pda_position_ok_def
proof (intro allI impI)
  fix pid seed npk i
  assume "fmlookup (es_private_pda_bound_positions es) p = Some (pid, seed)"
    and k: "npk_if_private_pda H (idents ! p) = Some (npk, i)"
  then have "bound_at H idents es (account_id (es_pre_states es ! p)) p (pid, seed)"
    using assms by (simp add: bound_ok_def)
  with k show "account_id (es_pre_states es ! p) = for_private_pda H pid seed npk i"
    by (auto simp: bound_at_def)
qed

lemma output_step_ok:
  assumes s: "output_step H ks m (p, ident, pre, post) st = Inr st'"
    and ok: "out_ok H ks st pub priv" and pda: "pda_position_ok H m p ident pre"
  shows "out_ok H ks st' (if is_public ident then pub @ [(pre, post)] else pub)
    (if is_public ident then priv else priv @ [(pre, post)])"
proof -
  obtain co idx where st: "st = (co, idx)" by (cases st)
  note init = emit_init_ok [OF _ ok [unfolded st]] and update = emit_update_ok [OF _ ok [unfolded st]]
  show ?thesis
  proof (cases ident)
    case Public
    with s ok st show ?thesis by (auto simp: output_step_def out_ok_def is_public_def)
  next
    case (PrivateAuthorizedInit e v ssk nsk i)
    with s st show ?thesis
      by (auto simp: output_step_def is_public_def Let_def ensure_Inr intro!: init)
  next
    case (PrivateAuthorizedUpdate e v ssk nsk mp i)
    with s st have own: "owns_note H nsk (account_id pre)"
      by (auto simp: output_step_def Let_def ensure_Inr owns_note_def for_private_account_def
          intro: exI [of _ "Regular i"])
    from PrivateAuthorizedUpdate s st show ?thesis
      by (auto simp: output_step_def is_public_def Let_def ensure_Inr intro!: update own)
  next
    case (PrivateUnauthorized e v npk ssk i)
    with s st show ?thesis
      by (auto simp: output_step_def is_public_def Let_def ensure_Inr intro!: init)
  next
    case (PrivatePdaInit e v npk ssk i seed)
    with s st show ?thesis
      by (auto simp: output_step_def is_public_def Let_def ensure_Inr expect_Inr intro!: init)
  next
    case (PrivatePdaUpdate e v ssk nsk mp i ext)
    with s st obtain pid seed where m: "fmlookup m p = Some (pid, seed)"
      by (auto simp: output_step_def ensure_Inr Let_def expect_Inr)
    with pda PrivatePdaUpdate have own: "owns_note H nsk (account_id pre)"
      by (auto simp: pda_position_ok_def npk_if_private_pda_def owns_note_def for_private_account_def
          intro: exI [of _ "Pda pid seed i"])
    from PrivatePdaUpdate s st show ?thesis
      by (auto simp: output_step_def is_public_def Let_def ensure_Inr expect_Inr intro!: update own)
  qed
qed

section \<open>The whole circuit\<close>

lemma into_states_Inr:
  "into_states pres posts = Inr states \<Longrightarrow> distinct (map account_id pres) \<Longrightarrow>
     states = map (\<lambda>pre. (pre, acct posts (account_id pre))) pres"
proof (induction pres posts arbitrary: states rule: into_states.induct)
  case (2 pre pres posts)
  then obtain post rest where post: "fmlookup posts (account_id pre) = Some post"
    and rest: "into_states pres (fmdrop (account_id pre) posts) = Inr rest" and s: "states = (pre, post) # rest"
    by (auto simp: expect_Inr rbind_Inr)
  have "rest = map (\<lambda>q. (q, acct (fmdrop (account_id pre) posts) (account_id q))) pres"
    using 2 post rest by auto
  moreover have "acct (fmdrop (account_id pre) posts) (account_id q) = acct posts (account_id q)"
    if "q \<in> set pres" for q
  proof -
    have "account_id q \<noteq> account_id pre" using that "2.prems"(2) by (metis distinct.simps(2) image_eqI list.set_map list.simps(9))
    then show ?thesis by (simp add: acct_def)
  qed
  ultimately show ?case using post s by (simp add: acct_def)
qed simp

text \<open>The public and the private accounts among the states of a transaction.\<close>

definition publics :: "(input_account_identity \<times> 'a) list \<Rightarrow> 'a list" where
  "publics items = map snd (filter (\<lambda>x. is_public (fst x)) items)"

definition privates :: "(input_account_identity \<times> 'a) list \<Rightarrow> 'a list" where
  "privates items = map snd (filter (\<lambda>x. \<not> is_public (fst x)) items)"

lemma output_fold_ok:
  assumes "fold_res (output_step H ks m) (List.enumerate n items) st = Inr st'"
    and "out_ok H ks st pub priv"
    and "\<And>k. k < length items \<Longrightarrow> pda_position_ok H m (n + k) (fst (items ! k)) (fst (snd (items ! k)))"
  shows "out_ok H ks st' (pub @ publics items) (priv @ privates items)"
  using assms
proof (induction items arbitrary: n st pub priv)
  case Nil
  then show ?case by (simp add: publics_def privates_def)
next
  case (Cons x items)
  obtain ident pre post where x: "x = (ident, pre, post)" by (cases x)
  from Cons.prems(1) x obtain st1 where s: "output_step H ks m (n, ident, pre, post) st = Inr st1"
    and r: "fold_res (output_step H ks m) (List.enumerate (Suc n) items) st1 = Inr st'"
    by (auto simp: rbind_Inr)
  have "pda_position_ok H m n ident pre" using Cons.prems(3) [of 0] x by simp
  note one = output_step_ok [OF s Cons.prems(2) this]
  have rest: "k < length items \<Longrightarrow> pda_position_ok H m (Suc n + k) (fst (items ! k)) (fst (snd (items ! k)))" for k
    using Cons.prems(3) [of "Suc k"] by simp
  from Cons.IH [OF r one rest] x show ?case by (simp add: publics_def privates_def split: if_splits)
qed

text \<open>
  What an accepted run of the circuit shows of its output: there are private accounts, one for
  each note, such that the balances of the public and private accounts are preserved.
\<close>

definition circuit_sound ::
  "hash_fn \<Rightarrow> (bytes \<Rightarrow> bytes \<Rightarrow> bytes) \<Rightarrow> circuit_output \<Rightarrow> (account_meta \<times> account) list
   \<Rightarrow> (account_meta \<times> account) list \<Rightarrow> bool" where
  "circuit_sound H ks co pub priv \<longleftrightarrow>
     co_public_pre_states co = map fst pub \<and> co_public_post_states co = map snd pub
   \<and> length (co_new_commitments co) = length priv \<and> length (co_new_nullifiers co) = length priv
   \<and> length (co_encrypted_private_post_states co) = length priv
   \<and> (\<forall>k < length priv. note_ok H ks k (priv ! k) (co_new_commitments co ! k) (co_new_nullifiers co ! k)
        (co_encrypted_private_post_states co ! k))
   \<and> distinct (map (account_id \<circ> fst) (pub @ priv))
   \<and> (\<forall>pp \<in> set (pub @ priv). evolves (account (fst pp)) (snd pp))
   \<and> total (map (account \<circ> fst) (pub @ priv)) = total (map snd (pub @ priv))"

lemma publics_privates_mset: "mset (publics items @ privates items) = mset (map snd items)"
  by (induction items) (auto simp: publics_def privates_def)

lemma total_mset: "mset xs = mset ys \<Longrightarrow> total xs = total ys"
  by (simp add: total_def) (metis mset_map sum_mset_sum_list)

lemma total_supply_keys:
  assumes "distinct is" and "set is = fset (fmdom m)"
  shows "total_supply m = total (map (acct m) is)"
proof -
  have "total_supply m = (\<Sum>i \<in> set is. unat (balance (the (fmlookup m i))))"
    using assms(2) by (simp add: total_supply_def fm_sum_def)
  also have "\<dots> = (\<Sum>i \<in> set is. unat (balance (acct m i)))"
    using assms(2) by (intro sum.cong refl) (auto simp: acct_def fmlookup_dom_iff)
  finally show ?thesis using assms(1) by (simp add: total_def sum_list_distinct_conv_sum_set comp_def)
qed

text \<open>The pairs of pre and post states of a balanced execution, in any order.\<close>

definition pairs_ok :: "(account_meta \<times> account) list \<Rightarrow> bool" where
  "pairs_ok pps \<longleftrightarrow>
     distinct (map (account_id \<circ> fst) pps)
   \<and> (\<forall>pp \<in> set pps. evolves (account (fst pp)) (snd pp))
   \<and> total (map (account \<circ> fst) pps) = total (map snd pps)"

lemma pairs_ok_mset:
  assumes "mset xs = mset ys" "pairs_ok ys"
  shows "pairs_ok xs"
proof -
  have "mset (map f xs) = mset (map f ys)" for f :: "account_meta \<times> account \<Rightarrow> 'c"
    using assms(1) by (metis mset_map)
  then have m: "mset (map (account_id \<circ> fst) xs) = mset (map (account_id \<circ> fst) ys)"
    "mset (map (account \<circ> fst) xs) = mset (map (account \<circ> fst) ys)" "mset (map snd xs) = mset (map snd ys)"
    by blast+
  have "set xs = set ys" using assms(1) by (metis set_mset_mset)
  with assms(2) mset_eq_imp_distinct_iff [OF m(1)] total_mset [OF m(2)] total_mset [OF m(3)]
  show ?thesis by (simp add: pairs_ok_def)
qed

lemma into_states_pairs_ok:
  assumes "es_balanced es" "into_states (es_pre_states es) (es_post_states es) = Inr states"
  shows "map fst states = es_pre_states es \<and> pairs_ok states"
proof -
  have dist: "distinct (map account_id (es_pre_states es))" using assms(1) by (simp add: es_balanced_def es_ok_def)
  note all = into_states_Inr [OF assms(2) dist]
  have "total (map account (es_pre_states es)) = total_supply (es_post_states es)"
    using assms(1) by (simp add: es_balanced_def)
  also have "\<dots> = total (map (\<lambda>pre. acct (es_post_states es) (account_id pre)) (es_pre_states es))"
    using total_supply_keys [OF dist, of "es_post_states es"] assms(1)
    by (simp add: es_balanced_def es_ok_def comp_def)
  finally show ?thesis
    using dist assms(1) by (auto simp: all pairs_ok_def es_balanced_def es_ok_def comp_def)
qed

lemma circuit_output_sound:
  assumes d: "derive_from_outputs H verify idents pid outs = Inr es"
    and c: "compute_circuit_output H ks es idents = Inr co"
  shows "\<exists>pub priv. circuit_sound H ks co pub priv"
proof -
  obtain states idx where len: "length idents = length (es_pre_states es)"
    and s: "into_states (es_pre_states es) (es_post_states es) = Inr states"
    and f: "fold_res (output_step H ks (es_private_pda_bound_positions es))
              (List.enumerate 0 (zip idents states)) (empty_output es, 0) = Inr (co, idx)"
    using c by (auto simp: compute_circuit_output_def ensure_Inr rbind_Inr)
  let ?items = "zip idents states"
  have st: "map fst states = es_pre_states es" "pairs_ok states"
    using into_states_pairs_ok [OF derive_balanced [OF d] s] by simp_all
  have ls: "length states = length (es_pre_states es)" using st(1) by (metis length_map)
  have pda: "pda_position_ok H (es_private_pda_bound_positions es) (0 + k) (fst (?items ! k)) (fst (snd (?items ! k)))"
    if "k < length ?items" for k
  proof -
    have "fst (states ! k) = es_pre_states es ! k" using st(1) that by (metis length_zip min_less_iff_conj nth_map)
    then show ?thesis using bound_ok_position [OF derive_bound [OF d], of k] that by simp
  qed
  have "out_ok H ks (empty_output es, 0) [] []" by (simp add: out_ok_def empty_output_def)
  note out = output_fold_ok [OF f this pda]
  have "mset (publics ?items @ privates ?items) = mset states"
    using publics_privates_mset [of ?items] len ls by simp
  then have "pairs_ok (publics ?items @ privates ?items)" using st(2) by (rule pairs_ok_mset)
  with out have "circuit_sound H ks co (publics ?items) (privates ?items)"
    by (simp add: circuit_sound_def out_ok_def pairs_ok_def)
  then show ?thesis by blast
qed

section \<open>Validity windows\<close>

lemma fold_max_le: "fold max xs (y::u64) \<le> v \<longleftrightarrow> y \<le> v \<and> (\<forall>x \<in> set xs. x \<le> v)"
  by (induction xs arbitrary: y) auto

lemma less_fold_min: "(v::u64) < fold min xs y \<longleftrightarrow> v < y \<and> (\<forall>x \<in> set xs. v < x)"
  by (induction xs arbitrary: y) auto

lemma max_opt_valid: "(case max_opt xs of None \<Rightarrow> True | Some m \<Rightarrow> v \<ge> m) \<longleftrightarrow> (\<forall>x \<in> set xs. x \<le> v)"
  by (cases xs) (auto simp: max_opt_def fold_max_le)

lemma min_opt_valid: "(case min_opt xs of None \<Rightarrow> True | Some m \<Rightarrow> v < m) \<longleftrightarrow> (\<forall>x \<in> set xs. v < x)"
  by (cases xs) (auto simp: min_opt_def less_fold_min)

lemma ball_map_filter:
  "(\<forall>x \<in> set (List.map_filter f ws). P x) \<longleftrightarrow> (\<forall>w \<in> set ws. case f w of None \<Rightarrow> True | Some x \<Rightarrow> P x)"
  by (induction ws) (auto split: option.splits)

lemma intersect_windows_valid:
  assumes "intersect_windows ws = Inr w"
  shows "is_valid_for w v \<longleftrightarrow> (\<forall>x \<in> set ws. is_valid_for x v)"
proof -
  have "w = \<lparr> vw_from = max_opt (List.map_filter vw_from ws), vw_to = min_opt (List.map_filter vw_to ws) \<rparr>"
    using assms by (auto simp: intersect_windows_def window_try_from_def Let_def rbind_Inr)
  then show ?thesis
    by (simp add: is_valid_for_def max_opt_valid min_opt_valid ball_map_filter ball_conj_distrib)
qed

text \<open>The windows are set before the loop and never touched again.\<close>

definition windows_of :: "execution_state \<Rightarrow> validity_window \<times> validity_window" where
  "windows_of es = (es_block_validity_window es, es_timestamp_validity_window es)"

lemma sync_pair_windows:
  assumes "sync_pair H idents pid caller seeds pp es = Inr es'"
  shows "windows_of es' = windows_of es"
proof -
  obtain pre post where pp: "pp = (pre, post)" by (cases pp)
  with assms obtain es1 a es2 where 1: "(case fmlookup (es_post_states es) (account_id pre) of
        Some known \<Rightarrow> sync_seen H caller seeds pre known es | None \<Rightarrow> sync_new H idents pre es) = Inr es1"
    and 2: "sync_claim H idents pid pre post es1 = Inr (a, es2)"
    and 3: "es' = es2\<lparr> es_post_states := fmupd (account_id pre) a (es_post_states es2) \<rparr>"
    by (auto simp: sync_pair_def rbind_Inr)
  have "windows_of es1 = windows_of es"
    using 1 by (auto simp: windows_of_def same_states_def split: option.splits dest: sync_seen_frame sync_new_windows)
  moreover have "windows_of es2 = windows_of es1"
    using sync_claim_frame [OF 2] by (simp add: windows_of_def same_states_def)
  ultimately show ?thesis using 3 by (simp add: windows_of_def)
qed

lemma circuit_loop_windows: "circuit_loop H verify idents n q outs es = Inr es' \<Longrightarrow> windows_of es' = windows_of es"
proof (induction H verify idents n q outs es rule: circuit_loop.induct)
  case (3 H verify idents n call caller q out outs es)
  then obtain es1 where
    s: "fold_res (sync_pair H idents (cc_program_id call) caller (cc_pda_seeds call))
       (zip (pre_states out) (post_states out)) es = Inr es1"
    and r: "circuit_loop H verify idents (n + 1)
       (map (\<lambda>c. (c, Some (cc_program_id call))) (chained_calls out) @ q) outs es1 = Inr es'"
    by (auto simp: ensure_Inr rbind_Inr map_err_Inr validate_and_sync_states_def)
  have "windows_of es1 = windows_of es"
    by (rule fold_res_invariant [OF s, where P = "\<lambda>e. windows_of e = windows_of es"]) (auto dest: sync_pair_windows)
  with "3.IH" r show ?case by metis
qed (auto simp: ensure_Inr)

lemma output_step_windows:
  assumes "output_step H ks m item st = Inr st'"
  shows "co_block_validity_window (fst st') = co_block_validity_window (fst st)
    \<and> co_timestamp_validity_window (fst st') = co_timestamp_validity_window (fst st)"
proof -
  obtain p ident pre post where item: "item = (p, ident, pre, post)" by (cases item)
  obtain co idx where st: "st = (co, idx)" by (cases st)
  show ?thesis
    using assms unfolding item st
    by (cases ident) (auto simp: output_step_def Let_def ensure_Inr expect_Inr emit_private_output_def)
qed

lemma compute_circuit_output_windows:
  assumes "compute_circuit_output H ks es idents = Inr co"
  shows "(co_block_validity_window co, co_timestamp_validity_window co) = windows_of es"
proof -
  obtain states idx where
    f: "fold_res (output_step H ks (es_private_pda_bound_positions es))
              (List.enumerate 0 (zip idents states)) (empty_output es, 0) = Inr (co, idx)"
    using assms by (auto simp: compute_circuit_output_def ensure_Inr rbind_Inr)
  have "(\<lambda>st. (co_block_validity_window (fst st), co_timestamp_validity_window (fst st)) = windows_of es) (co, idx)"
    by (rule fold_res_invariant [OF f]) (auto simp: empty_output_def windows_of_def dest: output_step_windows)
  then show ?thesis by simp
qed

section \<open>The replayed chain\<close>

lemma circuit_loop_verified:
  "circuit_loop H verify idents n q outs es = Inr es' \<Longrightarrow>
     (\<forall>out \<in> set outs. verify (self_program_id out) out
        \<and> well_behaved (self_program_id out) (pre_states out) (post_states out))
   \<and> n + length outs \<le> max n (Suc MAX_NUMBER_CHAINED_CALLS)"
proof (induction H verify idents n q outs es rule: circuit_loop.induct)
  case (3 H verify idents n call caller q out outs es)
  then obtain es1 where n: "n \<le> MAX_NUMBER_CHAINED_CALLS"
    and v: "verify (self_program_id out) out"
    and wb: "well_behaved (self_program_id out) (pre_states out) (post_states out)"
    and r: "circuit_loop H verify idents (n + 1)
       (map (\<lambda>c. (c, Some (cc_program_id call))) (chained_calls out) @ q) outs es1 = Inr es'"
    by (auto simp: ensure_Inr rbind_Inr map_err_Inr validate_execution_Inr)
  with "3.IH" have "(\<forall>out \<in> set outs. verify (self_program_id out) out
        \<and> well_behaved (self_program_id out) (pre_states out) (post_states out))
      \<and> n + 1 + length outs \<le> max (n + 1) (Suc MAX_NUMBER_CHAINED_CALLS)" by blast
  with n v wb show ?case by auto
qed (auto simp: ensure_Inr)

end
