(* ===== verification/Privacy_Execution.thy ===== *)
theory Privacy_Execution
  imports Public_Execution Circuit_Soundness
begin

text \<open>
  Privacy preserving transactions: their validation
  (\<open>ValidatedStateDiff::from_privacy_preserving_transaction\<close>), the transition of the state, and
  the prover's side, \<open>execute_and_prove\<close>
  (\<open>lee/state_machine/src/privacy_preserving_transaction/circuit.rs\<close>).

  That a valid receipt comes from an accepted run of the circuit is the guarantee of the zkVM; it
  is the assumption of the locale \<open>sound_proofs\<close>, which is interpreted by a runtime that checks a
  proof by running the circuit again on the input it carries.
\<close>

section \<open>Validation\<close>

definition check_privacy_preserving_circuit_proof_is_valid ::
  "runtime \<Rightarrow> zk_proof \<Rightarrow> account_meta list \<Rightarrow> privacy_message \<Rightarrow> (lee_error, unit) result" where
  "check_privacy_preserving_circuit_proof_is_valid rt p public_pre_states m =
     (let output =
        \<lparr> co_public_pre_states = public_pre_states, co_public_post_states = vm_public_post_states m,
          co_encrypted_private_post_states = vm_encrypted_private_post_states m,
          co_new_commitments = vm_new_commitments m, co_new_nullifiers = vm_new_nullifiers m,
          co_block_validity_window = vm_block_validity_window m,
          co_timestamp_validity_window = vm_timestamp_validity_window m \<rparr>
      in ensure (rt_proof_valid rt p output) InvalidPrivacyPreservingProof (Inr ()))"

definition from_privacy_preserving_transaction ::
  "runtime \<Rightarrow> privacy_transaction \<Rightarrow> v03_state \<Rightarrow> u64 \<Rightarrow> u64 \<Rightarrow> (lee_error, state_diff) result" where
  "from_privacy_preserving_transaction rt tx s block_id timestamp =
     (let m = vt_message tx; ws = vt_witness_set tx in
      ensure (vm_new_commitments m \<noteq> [] \<or> vm_new_nullifiers m \<noteq> [])
        (InvalidInput ''Empty commitments and empty nullifiers found in message'') (
      ensure (n_distinct (vm_public_account_ids m) = length (vm_public_account_ids m))
        (InvalidInput ''Duplicate account_ids found in message'') (
      ensure (n_distinct (map fst (vm_new_nullifiers m)) = length (vm_new_nullifiers m))
        (InvalidInput ''Duplicate nullifiers found in message'') (
      ensure (n_distinct (vm_new_commitments m) = length (vm_new_commitments m))
        (InvalidInput ''Duplicate commitments found in message'') (
      ensure (length (vm_nonces m) = length (vw_signatures_and_public_keys ws))
        (InvalidInput ''Mismatch between number of nonces and signatures/public keys'') (
      ensure (signatures_are_valid_for rt ws m)
        (InvalidInput ''Invalid signature for given message and public key'') (
      let signers = signer_account_ids rt (vw_signatures_and_public_keys ws) in
      rbind (check_nonces s signers (vm_nonces m)) (\<lambda>_.
      ensure (is_valid_for (vm_block_validity_window m) block_id
              \<and> is_valid_for (vm_timestamp_validity_window m) timestamp) OutOfValidityWindow (
      rbind (check_privacy_preserving_circuit_proof_is_valid rt (vw_proof ws)
               (input_pre_states s signers (vm_public_account_ids m)) m) (\<lambda>_.
      rbind (check_commitments_are_new s (vm_new_commitments m)) (\<lambda>_.
      rbind (check_nullifiers_are_valid s (vm_new_nullifiers m)) (\<lambda>_.
      Inr \<lparr> sd_signer_account_ids = signers,
            sd_public_diff = fold (\<lambda>(i, a). fmupd i a)
              (zip (vm_public_account_ids m) (vm_public_post_states m)) fmempty,
            sd_new_commitments = vm_new_commitments m,
            sd_new_nullifiers = map fst (vm_new_nullifiers m), sd_program = None \<rparr>))))))))))))"

definition transition_from_privacy_preserving_transaction ::
  "runtime \<Rightarrow> privacy_transaction \<Rightarrow> v03_state \<Rightarrow> u64 \<Rightarrow> u64 \<Rightarrow> (lee_error, v03_state option) result" where
  "transition_from_privacy_preserving_transaction rt tx s block_id timestamp =
     rbind (from_privacy_preserving_transaction rt tx s block_id timestamp) (\<lambda>diff.
     Inr (apply_state_diff (rt_hash rt) diff s))"

section \<open>Proving\<close>

record program_with_dependencies =
  pd_program :: program
  pd_dependencies :: "(program_id, program) fmap"

text \<open>The dependencies are looked up from the last chained call to the first.\<close>

definition resolve_dependencies ::
  "(program_id, program) fmap \<Rightarrow> program_id \<Rightarrow> chained_call list
   \<Rightarrow> (lee_error, (chained_call \<times> program \<times> program_id option) list) result" where
  "resolve_dependencies deps caller calls =
     rbind (for_each (\<lambda>c. expect (fmlookup deps (cc_program_id c))
              (InvalidProgramBehavior (UndeclaredProgramDependency (cc_program_id c))) (\<lambda>_. Inr ())) (rev calls)) (\<lambda>_.
     Inr (map (\<lambda>c. (c, the (fmlookup deps (cc_program_id c)), Some caller)) calls))"

function prove_calls ::
  "runtime \<Rightarrow> (program_id, program) fmap \<Rightarrow> nat \<Rightarrow> (chained_call \<times> program \<times> program_id option) list
   \<Rightarrow> program_output list \<Rightarrow> (lee_error, program_output list) result" where
  "prove_calls rt deps counter [] outs = Inr outs"
| "prove_calls rt deps counter ((call, prog, caller) # queue) outs =
     (if counter < MAX_NUMBER_CHAINED_CALLS then
        (case rt_prove_program rt prog caller (cc_pre_states call) (cc_instruction_data call) of
           Inl e \<Rightarrow> Inl e
         | Inr out \<Rightarrow>
             (case resolve_dependencies deps (cc_program_id call) (chained_calls out) of
                Inl e \<Rightarrow> Inl e
              | Inr new \<Rightarrow> prove_calls rt deps (counter + 1) (new @ queue) (outs @ [out])))
      else Inl MaxChainedCallsDepthExceeded)"
  by pat_completeness auto
termination
  by (relation "measure (\<lambda>(rt, deps, counter, queue, outs). MAX_NUMBER_CHAINED_CALLS - counter)") auto

definition execute_and_prove ::
  "runtime \<Rightarrow> account_meta list \<Rightarrow> instruction_data \<Rightarrow> input_account_identity list
   \<Rightarrow> program_with_dependencies \<Rightarrow> (lee_error, circuit_output \<times> zk_proof) result" where
  "execute_and_prove rt pres words idents pd =
     (let initial_call = \<lparr> cc_program_id = prog_id (pd_program pd), cc_pre_states = pres,
                           cc_instruction_data = words, cc_pda_seeds = [] \<rparr>
      in rbind (prove_calls rt (pd_dependencies pd) 0 [(initial_call, pd_program pd, None)] []) (\<lambda>outs.
         rt_prove_circuit rt
           \<lparr> ci_program_outputs = outs, ci_account_identities = idents, ci_program_id = prog_id (pd_program pd) \<rparr>))"

section \<open>Inversion\<close>

definition output_of_message :: "account_meta list \<Rightarrow> privacy_message \<Rightarrow> circuit_output" where
  "output_of_message pres m =
     \<lparr> co_public_pre_states = pres, co_public_post_states = vm_public_post_states m,
       co_encrypted_private_post_states = vm_encrypted_private_post_states m,
       co_new_commitments = vm_new_commitments m, co_new_nullifiers = vm_new_nullifiers m,
       co_block_validity_window = vm_block_validity_window m,
       co_timestamp_validity_window = vm_timestamp_validity_window m \<rparr>"

abbreviation privacy_signers :: "runtime \<Rightarrow> privacy_transaction \<Rightarrow> account_id list" where
  "privacy_signers rt tx \<equiv> signer_account_ids rt (vw_signatures_and_public_keys (vt_witness_set tx))"

lemma n_distinct_map: "n_distinct (map f xs) = length xs \<longleftrightarrow> distinct (map f xs)"
  by (metis length_map n_distinct_eq_length)

lemma from_privacy_Inr:
  assumes "from_privacy_preserving_transaction rt tx s b ts = Inr d"
  shows "vm_new_commitments (vt_message tx) \<noteq> [] \<or> vm_new_nullifiers (vt_message tx) \<noteq> []"
    and "distinct (vm_public_account_ids (vt_message tx))"
    and "distinct (map fst (vm_new_nullifiers (vt_message tx)))"
    and "distinct (vm_new_commitments (vt_message tx))"
    and "length (vm_nonces (vt_message tx)) = length (vw_signatures_and_public_keys (vt_witness_set tx))"
    and "signatures_are_valid_for rt (vt_witness_set tx) (vt_message tx)"
    and "\<forall>(i, n) \<in> set (zip (privacy_signers rt tx) (vm_nonces (vt_message tx))). nonce (acct (public_state s) i) = n"
    and "is_valid_for (vm_block_validity_window (vt_message tx)) b"
    and "is_valid_for (vm_timestamp_validity_window (vt_message tx)) ts"
    and "rt_proof_valid rt (vw_proof (vt_witness_set tx))
      (output_of_message (input_pre_states s (privacy_signers rt tx) (vm_public_account_ids (vt_message tx))) (vt_message tx))"
    and "\<forall>c \<in> set (vm_new_commitments (vt_message tx)). \<not> cs_contains (commitment_state s) c"
    and "\<forall>(n, r) \<in> set (vm_new_nullifiers (vt_message tx)).
      n |\<notin>| nullifier_state s \<and> r |\<in>| cs_root_history (commitment_state s)"
    and "d = \<lparr> sd_signer_account_ids = privacy_signers rt tx,
      sd_public_diff = upd_all (zip (vm_public_account_ids (vt_message tx)) (vm_public_post_states (vt_message tx))) fmempty,
      sd_new_commitments = vm_new_commitments (vt_message tx),
      sd_new_nullifiers = map fst (vm_new_nullifiers (vt_message tx)), sd_program = None \<rparr>"
  using assms unfolding from_privacy_preserving_transaction_def Let_def upd_all_def
    check_privacy_preserving_circuit_proof_is_valid_def output_of_message_def [symmetric]
  by (auto simp: n_distinct_map ensure_Inr rbind_Inr check_commitments_Inr check_nullifiers_Inr check_nonces_def for_each_Inr get_account_acct)

lemma transition_privacy_Some:
  assumes "transition_from_privacy_preserving_transaction rt tx s b ts = Inr (Some s')"
  obtains d where "from_privacy_preserving_transaction rt tx s b ts = Inr d"
    "increment_nonces (privacy_signers rt tx) (view s (sd_public_diff d)) = Some (public_state s')"
    "cs_extend (rt_hash rt) (vm_new_commitments (vt_message tx)) (commitment_state s) = Some (commitment_state s')"
    "nullifier_state s' = nullifier_state s |\<union>| fset_of_list (map fst (vm_new_nullifiers (vt_message tx)))"
    "programs s' = programs s"
proof -
  obtain d where d: "from_privacy_preserving_transaction rt tx s b ts = Inr d"
    and a: "apply_state_diff (rt_hash rt) d s = Some s'"
    using assms by (auto simp: transition_from_privacy_preserving_transaction_def rbind_Inr)
  note e = from_privacy_Inr(13) [OF d]
  show thesis by (rule apply_state_diff_Some [OF a], rule that [OF d]) (simp_all add: e view_def)
qed

lemma circuit_main_sound: "circuit_main H ks verify input = Inr co \<Longrightarrow> \<exists>pub priv. circuit_sound H ks co pub priv"
  using circuit_output_sound by (auto simp: circuit_main_def rbind_Inr)

section \<open>Soundness of proofs\<close>

locale sound_proofs =
  fixes rt :: runtime and ks :: "bytes \<Rightarrow> bytes \<Rightarrow> bytes" and verify :: "program_id \<Rightarrow> program_output \<Rightarrow> bool"
  assumes proof_sound: "rt_proof_valid rt p co \<Longrightarrow> \<exists>input. circuit_main (rt_hash rt) ks verify input = Inr co"
begin

lemma privacy_sound:
  assumes "from_privacy_preserving_transaction rt tx s b ts = Inr d"
  obtains pub priv where
    "circuit_sound (rt_hash rt) ks
       (output_of_message (input_pre_states s (privacy_signers rt tx) (vm_public_account_ids (vt_message tx))) (vt_message tx))
       pub priv"
proof -
  obtain input where "circuit_main (rt_hash rt) ks verify input
      = Inr (output_of_message (input_pre_states s (privacy_signers rt tx) (vm_public_account_ids (vt_message tx))) (vt_message tx))"
    using proof_sound [OF from_privacy_Inr(10) [OF assms]] by blast
  then show thesis using that circuit_main_sound by blast
qed

text \<open>What a privacy preserving transaction does to the public accounts.\<close>

lemma privacy_public_effect:
  assumes d: "from_privacy_preserving_transaction rt tx s b ts = Inr d"
    and snd: "circuit_sound (rt_hash rt) ks
       (output_of_message (input_pre_states s (privacy_signers rt tx) (vm_public_account_ids (vt_message tx))) (vt_message tx))
       pub priv"
  shows "evolves (acct (public_state s) i) (acct (view s (sd_public_diff d)) i)"
    and "total_supply (view s (sd_public_diff d)) + total (map snd priv)
      = total_supply (public_state s) + total (map (account \<circ> fst) priv)"
proof -
  let ?ids = "vm_public_account_ids (vt_message tx)" and ?posts = "vm_public_post_states (vt_message tx)"
  have pre: "input_pre_states s (privacy_signers rt tx) ?ids = map fst pub" and post: "?posts = map snd pub"
    and ev: "\<forall>pp \<in> set (pub @ priv). evolves (account (fst pp)) (snd pp)"
    and tot: "total (map (account \<circ> fst) (pub @ priv)) = total (map snd (pub @ priv))"
    using snd by (auto simp: circuit_sound_def output_of_message_def)
  have ids: "?ids = map (account_id \<circ> fst) pub"
    using arg_cong [OF pre, of "map account_id"] by (simp add: input_pre_states_def comp_def)
  have acc: "map (\<lambda>i. acct (public_state s) i) ?ids = map (account \<circ> fst) pub"
    using arg_cong [OF pre, of "map account"] by (simp add: input_pre_states_def comp_def get_account_acct)
  have dist: "distinct ?ids" using from_privacy_Inr(2) [OF d] .
  have v: "view s (sd_public_diff d) = upd_all (zip ?ids ?posts) (public_state s)"
    using from_privacy_Inr(13) [OF d] by (simp add: view_def fmadd_upd_all)
  have len: "length ?ids = length ?posts" using ids post by simp
  show "evolves (acct (public_state s) i) (acct (view s (sd_public_diff d)) i)"
  proof (cases "i \<in> set ?ids")
    case False
    then show ?thesis unfolding v using dist len
      by (auto simp: acct_upd_all split: option.splits dest!: map_of_SomeD set_zip_leftD)
  next
    case True
    then obtain j where j: "j < length pub" "i = ?ids ! j" unfolding ids by (metis in_set_conv_nth length_map)
    have "acct (view s (sd_public_diff d)) i = ?posts ! j"
      unfolding v using dist len j ids distinct_map_of_zip_nth [of ?ids ?posts j] by (simp add: acct_upd_all)
    moreover have "acct (public_state s) i = account (fst (pub ! j))"
      using arg_cong [OF acc, of "\<lambda>xs. xs ! j"] j ids by simp
    ultimately show ?thesis using ev j post by simp
  qed
  have "sum_list (map (\<lambda>(k, _). unat (balance (acct (public_state s) k))) (zip ?ids ?posts)) = total (map (account \<circ> fst) pub)"
    unfolding acc [symmetric] total_def using len by (intro arg_cong [where f = sum_list] nth_equalityI) simp_all
  moreover have "sum_list (map (\<lambda>(_, a). unat (balance a)) (zip ?ids ?posts)) = total ?posts"
    unfolding total_def using len by (intro arg_cong [where f = sum_list] nth_equalityI) simp_all
  ultimately show "total_supply (view s (sd_public_diff d)) + total (map snd priv)
      = total_supply (public_state s) + total (map (account \<circ> fst) priv)"
    using upd_all_supply [of "zip ?ids ?posts" "public_state s"] dist len tot post
    unfolding v by (simp add: total_def)
qed

end

text \<open>A runtime in which a proof carries the input of the circuit and is checked by running it.\<close>

definition transparent ::
  "(zk_proof \<Rightarrow> circuit_input option) \<Rightarrow> (bytes \<Rightarrow> bytes \<Rightarrow> bytes) \<Rightarrow> (program_id \<Rightarrow> program_output \<Rightarrow> bool)
   \<Rightarrow> runtime \<Rightarrow> runtime" where
  "transparent dec ks verify rt = rt\<lparr> rt_proof_valid := \<lambda>p co.
     case dec p of None \<Rightarrow> False | Some input \<Rightarrow> circuit_main (rt_hash rt) ks verify input = Inr co \<rparr>"

interpretation transparent: sound_proofs "transparent dec ks verify rt" ks verify for dec ks verify rt
  by unfold_locales (auto simp: transparent_def split: option.splits)

end
