(* ===== verification/Ledger.thy ===== *)
theory Ledger
  imports Privacy_Execution
begin

text \<open>
  Transactions as the node sees them (\<open>lez/common/src/transaction.rs\<close>): the three kinds, the
  stateless check, validation with the guard on system accounts, and execution on the state.  On
  top of it the ledger as a transition system: one step per accepted transaction, and the facts
  that hold along every history.
\<close>

section \<open>Transactions of the node\<close>

datatype lee_transaction =
    TxPublic public_transaction
  | TxPrivacyPreserving privacy_transaction
  | TxProgramDeployment bytes

datatype transaction_malformation_error =
    InvalidSignature
  | FailedToDecode bytes
  | TransactionTooLarge nat nat

definition transaction_stateless_check ::
  "runtime \<Rightarrow> lee_transaction \<Rightarrow> (transaction_malformation_error, lee_transaction) result" where
  "transaction_stateless_check rt t =
     (case t of
        TxPublic tx \<Rightarrow>
          if witness_is_valid_for rt (pt_witness_set tx) (public_message_hash rt (pt_message tx))
          then Inr (TxPublic tx) else Inl InvalidSignature
      | TxPrivacyPreserving tx \<Rightarrow>
          if signatures_are_valid_for rt (vt_witness_set tx) (vt_message tx)
          then Inr (TxPrivacyPreserving tx) else Inl InvalidSignature
      | TxProgramDeployment bytecode \<Rightarrow> Inr (TxProgramDeployment bytecode))"

definition lee_affected_public_account_ids :: "runtime \<Rightarrow> lee_transaction \<Rightarrow> account_id set" where
  "lee_affected_public_account_ids rt t =
     (case t of
        TxPublic tx \<Rightarrow> affected_public_account_ids rt tx
      | TxPrivacyPreserving tx \<Rightarrow> privacy_affected_public_account_ids rt tx
      | TxProgramDeployment _ \<Rightarrow> {})"

definition compute_state_diff ::
  "runtime \<Rightarrow> lee_transaction \<Rightarrow> v03_state \<Rightarrow> u64 \<Rightarrow> u64 \<Rightarrow> (lee_error, state_diff) result" where
  "compute_state_diff rt t s block_id timestamp =
     (case t of
        TxPublic tx \<Rightarrow> from_public_transaction rt tx s block_id timestamp
      | TxPrivacyPreserving tx \<Rightarrow> from_privacy_preserving_transaction rt tx s block_id timestamp
      | TxProgramDeployment bytecode \<Rightarrow> from_program_deployment_transaction rt bytecode s)"

definition validate_doesnt_modify_account ::
  "v03_state \<Rightarrow> state_diff \<Rightarrow> account_id \<Rightarrow> (lee_error, unit) result" where
  "validate_doesnt_modify_account s d i =
     (if (case fmlookup (sd_public_diff d) i of None \<Rightarrow> False | Some post \<Rightarrow> post \<noteq> get_account_by_id s i)
      then Inl (InvalidInput ''Transaction modifies restricted system account'') else Inr ())"

definition validate_bridge_account_modification ::
  "hash_fn \<Rightarrow> builtins \<Rightarrow> lee_transaction \<Rightarrow> v03_state \<Rightarrow> state_diff \<Rightarrow> (lee_error, unit) result" where
  "validate_bridge_account_modification H bi t s d =
     (let bridge = system_bridge_account_id H bi; pre = get_account_by_id s bridge in
      case fmlookup (sd_public_diff d) bridge of
        None \<Rightarrow> Inr ()
      | Some post \<Rightarrow>
          ensure (case t of TxPublic _ \<Rightarrow> True | _ \<Rightarrow> False)
            (InvalidInput ''Non-public transaction cannot modify system bridge account'') (
          let expected_pre = post\<lparr> balance := balance pre \<rparr>;
              only_balance_increased = (expected_pre = pre \<and> balance pre \<le> balance post)
          in if only_balance_increased then Inr ()
             else Inl (InvalidInput ''Transaction modifies restricted system bridge account'')))"

definition validate_on_state ::
  "runtime \<Rightarrow> builtins \<Rightarrow> lee_transaction \<Rightarrow> v03_state \<Rightarrow> u64 \<Rightarrow> u64 \<Rightarrow> (lee_error, state_diff) result" where
  "validate_on_state rt bi t s block_id timestamp =
     rbind (compute_state_diff rt t s block_id timestamp) (\<lambda>d.
     rbind (for_each (validate_doesnt_modify_account s d)
              (CLOCK_PROGRAM_ACCOUNT_IDS @ [system_faucet_account_id (rt_hash rt) bi])) (\<lambda>_.
     rbind (validate_bridge_account_modification (rt_hash rt) bi t s d) (\<lambda>_.
     Inr d)))"

definition execute_check_on_state ::
  "runtime \<Rightarrow> builtins \<Rightarrow> lee_transaction \<Rightarrow> v03_state \<Rightarrow> u64 \<Rightarrow> u64 \<Rightarrow> (lee_error, v03_state option) result" where
  "execute_check_on_state rt bi t s block_id timestamp =
     rbind (validate_on_state rt bi t s block_id timestamp) (\<lambda>d.
     Inr (apply_state_diff (rt_hash rt) d s))"

definition execute_without_system_accounts_check_on_state ::
  "runtime \<Rightarrow> lee_transaction \<Rightarrow> v03_state \<Rightarrow> u64 \<Rightarrow> u64 \<Rightarrow> (lee_error, v03_state option) result" where
  "execute_without_system_accounts_check_on_state rt t s block_id timestamp =
     rbind (compute_state_diff rt t s block_id timestamp) (\<lambda>d.
     Inr (apply_state_diff (rt_hash rt) d s))"

text \<open>The mandatory last transaction of a block; \<open>enc\<close> serialises the clock instruction.\<close>

definition clock_invocation :: "builtins \<Rightarrow> (u64 \<Rightarrow> instruction_data) \<Rightarrow> u64 \<Rightarrow> public_transaction" where
  "clock_invocation bi enc timestamp =
     \<lparr> pt_message = \<lparr> pm_program_id = prog_id (bi_clock bi), pm_account_ids = CLOCK_PROGRAM_ACCOUNT_IDS,
                      pm_nonces = [], pm_instruction_data = enc timestamp \<rparr>,
       pt_witness_set = [] \<rparr>"

section \<open>Histories\<close>

inductive ledger_step :: "runtime \<Rightarrow> v03_state \<Rightarrow> lee_transaction \<Rightarrow> v03_state \<Rightarrow> bool" for rt where
  accept: "execute_without_system_accounts_check_on_state rt t s b ts = Inr (Some s') \<Longrightarrow> ledger_step rt s t s'"

inductive ledger_run :: "runtime \<Rightarrow> v03_state \<Rightarrow> lee_transaction list \<Rightarrow> v03_state \<Rightarrow> bool" for rt where
  run_nil: "ledger_run rt s [] s"
| run_cons: "ledger_step rt s t s' \<Longrightarrow> ledger_run rt s' txs s'' \<Longrightarrow> ledger_run rt s (t # txs) s''"

inductive_cases ledger_run_NilE: "ledger_run rt s [] s'"
inductive_cases ledger_run_ConsE: "ledger_run rt s (t # txs) s'"

lemma ledger_run_append:
  "ledger_run rt s (xs @ ys) s'' \<longleftrightarrow> (\<exists>s'. ledger_run rt s xs s' \<and> ledger_run rt s' ys s'')"
proof (induction xs arbitrary: s)
  case Nil
  show ?case by (auto intro: run_nil elim: ledger_run_NilE)
next
  case (Cons x xs)
  show ?case
  proof
    assume "ledger_run rt s ((x # xs) @ ys) s''"
    then have "ledger_run rt s (x # (xs @ ys)) s''" by simp
    then obtain s1 where "ledger_step rt s x s1" "ledger_run rt s1 (xs @ ys) s''" by (rule ledger_run_ConsE)
    with Cons.IH show "\<exists>s'. ledger_run rt s (x # xs) s' \<and> ledger_run rt s' ys s''" by (blast intro: run_cons)
  next
    assume "\<exists>s'. ledger_run rt s (x # xs) s' \<and> ledger_run rt s' ys s''"
    then show "ledger_run rt s ((x # xs) @ ys) s''" using Cons.IH by (auto elim!: ledger_run_ConsE intro: run_cons)
  qed
qed

lemma ledger_run_invariant:
  assumes "ledger_run rt s txs s'" and "P s"
    and "\<And>s t s'. t \<in> set txs \<Longrightarrow> ledger_step rt s t s' \<Longrightarrow> P s \<Longrightarrow> P s'"
  shows "P s'"
  using assms by (induction rule: ledger_run.induct) auto

text \<open>The signers of a transaction.\<close>

definition tx_signers :: "runtime \<Rightarrow> lee_transaction \<Rightarrow> account_id list" where
  "tx_signers rt t =
     (case t of
        TxPublic tx \<Rightarrow> signer_account_ids rt (pt_witness_set tx)
      | TxPrivacyPreserving tx \<Rightarrow> privacy_signers rt tx
      | TxProgramDeployment _ \<Rightarrow> [])"

lemma ledger_stepE:
  assumes "ledger_step rt s t s'"
  obtains b ts d where "compute_state_diff rt t s b ts = Inr d" "apply_state_diff (rt_hash rt) d s = Some s'"
  using assms by cases (auto simp: execute_without_system_accounts_check_on_state_def rbind_Inr)

lemma compute_state_diff_signers:
  "compute_state_diff rt t s b ts = Inr d \<Longrightarrow> sd_signer_account_ids d = tx_signers rt t"
  by (cases t) (auto simp: compute_state_diff_def tx_signers_def from_program_deployment_transaction_def rbind_Inr
      dest!: from_privacy_Inr(13) split: if_splits elim: from_public_transaction_Inr)

section \<open>Effect of a step\<close>

lemma insert_commitments_contains:
  "insert_commitments H new cs = Some cs' \<Longrightarrow> cs_contains cs' c \<longleftrightarrow> cs_contains cs c \<or> c \<in> set new"
proof (induction H new cs arbitrary: cs' rule: insert_commitments.induct)
  case (2 H x rest cs)
  then obtain i t where "insert_commitments H rest (cs\<lparr> cs_tree := t, cs_commitments := fmupd x i (cs_commitments cs) \<rparr>) = Some cs'"
    and "mt_insert H x (cs_tree cs) = Some (i, t)"
    by (auto split: option.splits)
  with 2 show ?case by (auto simp: cs_contains_def split: if_splits)
qed simp

lemma cs_extend_contains:
  "cs_extend H new cs = Some cs' \<Longrightarrow> cs_contains cs' c \<longleftrightarrow> cs_contains cs c \<or> c \<in> set new"
  using insert_commitments_contains
  by (fastforce simp: cs_extend_def cs_contains_def split: option.splits)

lemma insert_commitments_history:
  "insert_commitments H new cs = Some cs' \<Longrightarrow> cs_root_history cs' = cs_root_history cs"
  by (induction H new cs arbitrary: cs' rule: insert_commitments.induct) (auto split: option.splits)

text \<open>What a step adds; nothing is ever removed.\<close>

lemma ledger_step_adds:
  assumes "ledger_step rt s t s'"
  obtains b ts d where "compute_state_diff rt t s b ts = Inr d"
    "\<And>c. cs_contains (commitment_state s') c \<longleftrightarrow> cs_contains (commitment_state s) c \<or> c \<in> set (sd_new_commitments d)"
    "nullifier_state s' = nullifier_state s |\<union>| fset_of_list (sd_new_nullifiers d)"
    "programs s' = (case sd_program d of None \<Rightarrow> programs s | Some p \<Rightarrow> fmupd (prog_id p) p (programs s))"
    "increment_nonces (tx_signers rt t) (view s (sd_public_diff d)) = Some (public_state s')"
proof -
  obtain b ts d where d: "compute_state_diff rt t s b ts = Inr d" and a: "apply_state_diff (rt_hash rt) d s = Some s'"
    using assms by (rule ledger_stepE)
  obtain pub cs where e: "increment_nonces (sd_signer_account_ids d) (fmadd (public_state s) (sd_public_diff d)) = Some pub"
    "cs_extend (rt_hash rt) (sd_new_commitments d) (commitment_state s) = Some cs"
    "public_state s' = pub" "commitment_state s' = cs"
    "nullifier_state s' = nullifier_state s |\<union>| fset_of_list (sd_new_nullifiers d)"
    "programs s' = (case sd_program d of None \<Rightarrow> programs s | Some p \<Rightarrow> fmupd (prog_id p) p (programs s))"
    using apply_state_diff_Some [OF a] .
  show thesis
    by (rule that [of b ts d]) (use d e cs_extend_contains [OF e(2)] compute_state_diff_signers [OF d] in \<open>auto simp: view_def\<close>)
qed

lemma deployment_Inr:
  "from_program_deployment_transaction rt bytecode s = Inr d \<Longrightarrow>
     \<exists>p. rt_image_id rt bytecode = Some (prog_id p) \<and> prog_elf p = bytecode \<and> prog_id p |\<notin>| fmdom (programs s)
       \<and> d = \<lparr> sd_signer_account_ids = [], sd_public_diff = fmempty, sd_new_commitments = [],
                sd_new_nullifiers = [], sd_program = Some p \<rparr>"
  by (auto simp: from_program_deployment_transaction_def program_new_def rbind_Inr expect_Inr split: if_splits)

lemma public_diff_fields:
  "from_public_transaction rt tx s b ts = Inr d \<Longrightarrow>
     sd_program d = None \<and> sd_new_commitments d = [] \<and> sd_new_nullifiers d = []"
  by (erule from_public_transaction_Inr) simp

text \<open>Deployed programs are never replaced.\<close>

lemma ledger_step_programs:
  assumes "ledger_step rt s t s'" and "fmlookup (programs s) k = Some p"
  shows "fmlookup (programs s') k = Some p"
proof -
  obtain d b ts where d: "compute_state_diff rt t s b ts = Inr d"
    and p: "programs s' = (case sd_program d of None \<Rightarrow> programs s | Some p \<Rightarrow> fmupd (prog_id p) p (programs s))"
    by (rule ledger_step_adds [OF assms(1)]) blast
  have "sd_program d = None \<or> (\<exists>q. sd_program d = Some q \<and> prog_id q |\<notin>| fmdom (programs s))"
    using d by (cases t) (auto simp: compute_state_diff_def dest!: from_privacy_Inr(13) deployment_Inr public_diff_fields)
  with p assms(2) show ?thesis by (auto simp: fmdomI)
qed

lemma ledger_step_wf_programs: "ledger_step rt s t s' \<Longrightarrow> wf_programs s \<Longrightarrow> wf_programs s'"
  by (erule ledger_step_adds) (auto simp: wf_programs_def split: option.splits)

section \<open>Accounts, supply and replay\<close>

text \<open>How a public account may change along a history.\<close>

definition acct_history :: "nat \<Rightarrow> account \<Rightarrow> account \<Rightarrow> bool" where
  "acct_history n a b \<longleftrightarrow> unat (nonce b) = unat (nonce a) + n
     \<and> (program_owner a \<noteq> DEFAULT_PROGRAM_ID \<longrightarrow> program_owner b = program_owner a)"

lemma acct_history_trans: "acct_history m a b \<Longrightarrow> acct_history n b c \<Longrightarrow> acct_history (m + n) a c"
  by (auto simp: acct_history_def)

lemma increment_history:
  assumes "increment_nonces signers m = Some m'" and "evolves a (acct m i)"
  shows "acct_history (count_list signers i) a (acct m' i)"
  using increment_nonces_acct [OF assms(1), of i] assms(2)
  by (auto simp: Let_def acct_history_def evolves_def)

lemma from_public_trace:
  assumes "from_public_transaction rt tx s b ts = Inr d"
  obtains tr n where "call_trace rt s b ts
     (0, initial_queue s (signer_account_ids rt (pt_witness_set tx)) (pt_message tx), fmempty) tr (n, [], sd_public_diff d)"
  by (rule from_public_transaction_Inr [OF assms]) (rule that, simp)

lemma from_public_nonces:
  assumes "from_public_transaction rt tx s b ts = Inr d"
  shows "length (pm_nonces (pt_message tx)) = length (pt_witness_set tx)"
    and "(i, n) \<in> set (zip (signer_account_ids rt (pt_witness_set tx)) (pm_nonces (pt_message tx))) \<Longrightarrow>
      nonce (acct (public_state s) i) = n"
  by (rule from_public_transaction_Inr [OF assms], assumption)
    (rule from_public_transaction_Inr [OF assms], force)

lemma public_evolves:
  assumes "from_public_transaction rt tx s b ts = Inr d"
  shows "evolves (acct (public_state s) i) (acct (view s (sd_public_diff d)) i)"
    and "total_supply (view s (sd_public_diff d)) = total_supply (public_state s)"
proof -
  obtain tr n where tr: "call_trace rt s b ts
     (0, initial_queue s (signer_account_ids rt (pt_witness_set tx)) (pt_message tx), fmempty) tr (n, [], sd_public_diff d)"
    using assms by (rule from_public_trace)
  show "evolves (acct (public_state s) i) (acct (view s (sd_public_diff d)) i)"
    using call_trace_nonce_owner [OF tr, of i] by (simp add: evolves_def)
  show "total_supply (view s (sd_public_diff d)) = total_supply (public_state s)"
    using call_trace_supply [OF tr] by simp
qed

context sound_proofs
begin

lemma diff_evolves:
  assumes "compute_state_diff rt t s b ts = Inr d"
  shows "evolves (acct (public_state s) i) (acct (view s (sd_public_diff d)) i)"
proof (cases t)
  case (TxPublic tx)
  with assms show ?thesis by (auto simp: compute_state_diff_def intro: public_evolves)
next
  case (TxPrivacyPreserving tx)
  with assms have d: "from_privacy_preserving_transaction rt tx s b ts = Inr d"
    by (simp add: compute_state_diff_def)
  then show ?thesis by (rule privacy_sound) (rule privacy_public_effect(1) [OF d])
next
  case (TxProgramDeployment x)
  with assms show ?thesis by (auto simp: compute_state_diff_def dest!: deployment_Inr)
qed

lemma step_account:
  assumes "ledger_step rt s t s'"
  shows "acct_history (count_list (tx_signers rt t) i) (acct (public_state s) i) (acct (public_state s') i)"
  by (rule ledger_step_adds [OF assms], erule increment_history) (rule diff_evolves)

lemma run_account:
  "ledger_run rt s txs s' \<Longrightarrow>
     acct_history (count_list (concat (map (tx_signers rt) txs)) i) (acct (public_state s) i) (acct (public_state s') i)"
proof (induction rule: ledger_run.induct)
  case (run_nil s)
  show ?case by (simp add: acct_history_def)
next
  case (run_cons s t s' txs s'')
  with acct_history_trans [OF step_account] show ?case by simp
qed

end

text \<open>What makes a transaction impossible to accept twice.\<close>

definition single_use :: "runtime \<Rightarrow> lee_transaction \<Rightarrow> bool" where
  "single_use rt t \<longleftrightarrow> (case t of TxPublic tx \<Rightarrow> tx_signers rt t \<noteq> [] | _ \<Rightarrow> True)"

lemma step_nonce:
  assumes "ledger_step rt s (TxPublic tx) s'" and "signer_account_ids rt (pt_witness_set tx) = i # is"
  shows "nonce (acct (public_state s) i) = hd (pm_nonces (pt_message tx))"
proof -
  let ?sg = "signer_account_ids rt (pt_witness_set tx)" and ?ns = "pm_nonces (pt_message tx)"
  obtain b ts d where "compute_state_diff rt (TxPublic tx) s b ts = Inr d" using assms(1) by (rule ledger_stepE)
  then have "from_public_transaction rt tx s b ts = Inr d" by (simp add: compute_state_diff_def)
  note d = from_public_nonces [OF this]
  have "length ?ns = length ?sg" using d(1) by (simp add: signer_account_ids_def)
  then obtain n ns where "?ns = n # ns" using assms(2) by (cases ?ns) simp_all
  with d(2) [of i n] assms(2) show ?thesis by simp
qed

text \<open>Commitments, nullifiers and programs stay along a history.\<close>

lemma ledger_run_keeps:
  assumes "ledger_run rt s txs s'"
  shows "cs_contains (commitment_state s) c \<Longrightarrow> cs_contains (commitment_state s') c"
    and "n |\<in>| nullifier_state s \<Longrightarrow> n |\<in>| nullifier_state s'"
    and "fmlookup (programs s) k = Some p \<Longrightarrow> fmlookup (programs s') k = Some p"
proof -
  show "cs_contains (commitment_state s') c" if "cs_contains (commitment_state s) c"
    by (rule ledger_run_invariant [OF assms, where P = "\<lambda>s. cs_contains (commitment_state s) c", OF that])
      (erule ledger_step_adds, simp)
  show "n |\<in>| nullifier_state s'" if "n |\<in>| nullifier_state s"
    by (rule ledger_run_invariant [OF assms, where P = "\<lambda>s. n |\<in>| nullifier_state s", OF that])
      (erule ledger_step_adds, simp)
  show "fmlookup (programs s') k = Some p" if "fmlookup (programs s) k = Some p"
    by (rule ledger_run_invariant [OF assms, where P = "\<lambda>s. fmlookup (programs s) k = Some p", OF that])
      (rule ledger_step_programs)
qed

lemma privacy_step_fresh:
  assumes "ledger_step rt s (TxPrivacyPreserving tx) s'"
  shows "vm_new_commitments (vt_message tx) \<noteq> [] \<or> vm_new_nullifiers (vt_message tx) \<noteq> []"
    and "c \<in> set (vm_new_commitments (vt_message tx)) \<Longrightarrow>
      \<not> cs_contains (commitment_state s) c \<and> cs_contains (commitment_state s') c"
    and "n \<in> set (map fst (vm_new_nullifiers (vt_message tx))) \<Longrightarrow>
      n |\<notin>| nullifier_state s \<and> n |\<in>| nullifier_state s'"
proof -
  obtain b ts d where "compute_state_diff rt (TxPrivacyPreserving tx) s b ts = Inr d"
    and c: "\<And>c. cs_contains (commitment_state s') c \<longleftrightarrow> cs_contains (commitment_state s) c \<or> c \<in> set (sd_new_commitments d)"
    and n: "nullifier_state s' = nullifier_state s |\<union>| fset_of_list (sd_new_nullifiers d)"
    by (rule ledger_step_adds [OF assms]) blast
  then have d: "from_privacy_preserving_transaction rt tx s b ts = Inr d" by (simp add: compute_state_diff_def)
  note e = from_privacy_Inr [OF d]
  show "vm_new_commitments (vt_message tx) \<noteq> [] \<or> vm_new_nullifiers (vt_message tx) \<noteq> []" by (rule e(1))
  show "\<not> cs_contains (commitment_state s) c \<and> cs_contains (commitment_state s') c"
    if "c \<in> set (vm_new_commitments (vt_message tx))" for c
    using that e(11,13) c by simp
  show "n |\<notin>| nullifier_state s \<and> n |\<in>| nullifier_state s'"
    if "n \<in> set (map fst (vm_new_nullifiers (vt_message tx)))" for n
    using that e(12,13) n by (auto simp: fset_of_list_elem)
qed

lemma deployment_step_fresh:
  assumes "ledger_step rt s (TxProgramDeployment bytecode) s'"
  obtains p :: program where "rt_image_id rt bytecode = Some (prog_id p)" "prog_id p |\<notin>| fmdom (programs s)"
    "fmlookup (programs s') (prog_id p) = Some p"
proof -
  obtain b ts d where "compute_state_diff rt (TxProgramDeployment bytecode) s b ts = Inr d"
    and p: "programs s' = (case sd_program d of None \<Rightarrow> programs s | Some p \<Rightarrow> fmupd (prog_id p) p (programs s))"
    by (rule ledger_step_adds [OF assms]) blast
  then have "from_program_deployment_transaction rt bytecode s = Inr d" by (simp add: compute_state_diff_def)
  from deployment_Inr [OF this] p that show thesis by auto
qed

context sound_proofs
begin

lemma public_no_second_use:
  assumes "ledger_step rt s (TxPublic tx) s1" "ledger_run rt s1 txs s2"
    and "signer_account_ids rt (pt_witness_set tx) \<noteq> []"
  shows "\<not> ledger_step rt s2 (TxPublic tx) s3"
proof
  assume "ledger_step rt s2 (TxPublic tx) s3"
  obtain i js where sg: "signer_account_ids rt (pt_witness_set tx) = i # js"
    using assms(3) by (cases "signer_account_ids rt (pt_witness_set tx)") simp_all
  have "nonce (acct (public_state s2) i) = nonce (acct (public_state s) i)"
    using step_nonce [OF assms(1) sg] step_nonce [OF \<open>ledger_step rt s2 (TxPublic tx) s3\<close> sg] by simp
  moreover have "unat (nonce (acct (public_state s) i)) < unat (nonce (acct (public_state s2) i))"
    using step_account [OF assms(1), of i] run_account [OF assms(2), of i] sg
    by (simp add: acct_history_def tx_signers_def)
  ultimately show False by simp
qed

lemma no_second_use:
  assumes first: "ledger_step rt s t s1" and run: "ledger_run rt s1 txs s2" and single: "single_use rt t"
  shows "\<not> ledger_step rt s2 t s3"
proof (cases t)
  case (TxPublic tx)
  with assms show ?thesis by (auto simp: single_use_def tx_signers_def dest: public_no_second_use)
next
  case (TxPrivacyPreserving tx)
  show ?thesis
  proof
    assume again: "ledger_step rt s2 t s3"
    note f = privacy_step_fresh [OF first [unfolded TxPrivacyPreserving]]
      and g = privacy_step_fresh [OF again [unfolded TxPrivacyPreserving]]
    from f(1) consider c where "c \<in> set (vm_new_commitments (vt_message tx))"
      | n where "n \<in> set (map fst (vm_new_nullifiers (vt_message tx)))"
      by (cases "vm_new_commitments (vt_message tx)"; cases "vm_new_nullifiers (vt_message tx)") auto
    then show False using f(2,3) g(2,3) ledger_run_keeps(1,2) [OF run] by cases blast+
  qed
next
  case (TxProgramDeployment bytecode)
  show ?thesis
  proof
    assume again: "ledger_step rt s2 t s3"
    obtain p :: program where p: "rt_image_id rt bytecode = Some (prog_id p)" "fmlookup (programs s1) (prog_id p) = Some p"
      using first [unfolded TxProgramDeployment] by (rule deployment_step_fresh)
    obtain q :: program where "rt_image_id rt bytecode = Some (prog_id q)" "prog_id q |\<notin>| fmdom (programs s2)"
      using again [unfolded TxProgramDeployment] by (rule deployment_step_fresh)
    with p ledger_run_keeps(3) [OF run p(2)] show False by (auto simp: fmdomI)
  qed
qed

end

section \<open>Commitments and nullifiers of a history\<close>

definition tx_commitments :: "lee_transaction \<Rightarrow> commitment list" where
  "tx_commitments t = (case t of TxPrivacyPreserving tx \<Rightarrow> vm_new_commitments (vt_message tx) | _ \<Rightarrow> [])"

definition tx_nullifiers :: "lee_transaction \<Rightarrow> nullifier list" where
  "tx_nullifiers t = (case t of TxPrivacyPreserving tx \<Rightarrow> map fst (vm_new_nullifiers (vt_message tx)) | _ \<Rightarrow> [])"

lemma compute_state_diff_private:
  "compute_state_diff rt t s b ts = Inr d \<Longrightarrow>
     sd_new_commitments d = tx_commitments t \<and> sd_new_nullifiers d = tx_nullifiers t"
  by (cases t) (auto simp: compute_state_diff_def tx_commitments_def tx_nullifiers_def
      dest!: from_privacy_Inr(13) deployment_Inr public_diff_fields)

lemma step_private_fresh:
  assumes "ledger_step rt s t s'"
  shows "distinct (tx_commitments t)" "distinct (tx_nullifiers t)"
    and "\<forall>c \<in> set (tx_commitments t). \<not> cs_contains (commitment_state s) c"
    and "\<forall>n \<in> set (tx_nullifiers t). n |\<notin>| nullifier_state s"
    and "cs_extend (rt_hash rt) (tx_commitments t) (commitment_state s) = Some (commitment_state s')"
    and "nullifier_state s' = nullifier_state s |\<union>| fset_of_list (tx_nullifiers t)"
proof -
  obtain b ts d where d: "compute_state_diff rt t s b ts = Inr d" and a: "apply_state_diff (rt_hash rt) d s = Some s'"
    using assms by (rule ledger_stepE)
  note e = compute_state_diff_private [OF d]
  show "cs_extend (rt_hash rt) (tx_commitments t) (commitment_state s) = Some (commitment_state s')"
    "nullifier_state s' = nullifier_state s |\<union>| fset_of_list (tx_nullifiers t)"
    by (rule apply_state_diff_Some [OF a]; simp add: e)+
  show "distinct (tx_commitments t)" "distinct (tx_nullifiers t)"
    "\<forall>c \<in> set (tx_commitments t). \<not> cs_contains (commitment_state s) c"
    "\<forall>n \<in> set (tx_nullifiers t). n |\<notin>| nullifier_state s"
    using d by (cases t; auto simp: compute_state_diff_def tx_commitments_def tx_nullifiers_def
        dest: from_privacy_Inr(3,4,11,12))+
qed

lemma run_nullifiers:
  "ledger_run rt s txs s' \<Longrightarrow>
     distinct (concat (map tx_nullifiers txs))
   \<and> (\<forall>n \<in> set (concat (map tx_nullifiers txs)). n |\<notin>| nullifier_state s)
   \<and> nullifier_state s' = nullifier_state s |\<union>| fset_of_list (concat (map tx_nullifiers txs))"
proof (induction rule: ledger_run.induct)
  case (run_cons s t s' txs s'')
  note f = step_private_fresh(2,4,6) [OF run_cons.hyps(1)]
  have "set (tx_nullifiers t) \<inter> set (concat (map tx_nullifiers txs)) = {}"
    using run_cons.IH f(3) by (auto simp: fset_of_list_elem)
  with run_cons.IH f show ?case by (auto simp: fset_of_list_elem)
qed simp

text \<open>
  The set holds the commitments \<open>vs\<close>, and the digest of the whole set is among the recorded ones.
\<close>

definition cs_current :: "hash_fn \<Rightarrow> commitment_set \<Rightarrow> commitment list \<Rightarrow> bool" where
  "cs_current H cs vs \<longleftrightarrow> cs_inv H cs vs \<and> mroot H vs |\<in>| cs_root_history cs"

lemma cs_extend_current:
  assumes "cs_extend H new cs = Some cs'" "cs_inv H cs vs" "length vs + length new \<le> 2 ^ 31"
  shows "cs_current H cs' (vs @ new)"
  by (rule cs_extend_inv [OF assms(2,3)]) (use assms(1) in \<open>auto simp: cs_current_def\<close>)

lemma run_commitments:
  "ledger_run rt s txs s' \<Longrightarrow> cs_current (rt_hash rt) (commitment_state s) vs \<Longrightarrow>
     length vs + length (concat (map tx_commitments txs)) \<le> 2 ^ 31 \<Longrightarrow>
     cs_current (rt_hash rt) (commitment_state s') (vs @ concat (map tx_commitments txs))
   \<and> (distinct vs \<longrightarrow> distinct (vs @ concat (map tx_commitments txs)))"
proof (induction arbitrary: vs rule: ledger_run.induct)
  case (run_cons s t s' txs s'')
  note f = step_private_fresh(1,3,5) [OF run_cons.hyps(1)]
  have inv: "cs_inv (rt_hash rt) (commitment_state s) vs" using run_cons.prems(1) by (simp add: cs_current_def)
  have "cs_current (rt_hash rt) (commitment_state s') (vs @ tx_commitments t)"
    using run_cons.prems(2) by (intro cs_extend_current [OF f(3) inv]) simp
  moreover have "distinct vs \<Longrightarrow> distinct (vs @ tx_commitments t)"
    using f(1,2) cs_inv_contains [OF inv] by auto
  ultimately show ?case using run_cons.IH [of "vs @ tx_commitments t"] run_cons.prems(2) by auto
qed simp

text \<open>The commitments of a genesis state.\<close>

lemma genesis_commitments:
  assumes "new_with_genesis_accounts H bi accounts priv ts = Some s" "length priv < 2 ^ 31"
  shows "cs_current H (commitment_state s) (DUMMY_COMMITMENT # map fst priv)"
proof -
  obtain cs0 where cs0: "cs_with_capacity 32 = Some cs0" "cs_inv H cs0 []" by (rule cs_with_capacity_inv)
  from assms(1) cs0(1) obtain cs1 cs2 where 1: "cs_extend H [DUMMY_COMMITMENT] cs0 = Some cs1"
    and 2: "cs_extend H (map fst priv) cs1 = Some cs2" and s: "commitment_state s = cs2"
    by (auto simp: new_with_genesis_accounts_def bind_eq_Some_conv Let_def insert_program_def insert_clock_accounts_def)
  have "cs_inv H cs1 [DUMMY_COMMITMENT]" using cs_extend_current [OF 1 cs0(2)] by (simp add: cs_current_def)
  from cs_extend_current [OF 2 this] assms(2) s show ?thesis by simp
qed

lemma genesis_total: "length priv < 2 ^ 31 \<Longrightarrow> \<exists>s. new_with_genesis_accounts H bi accounts priv ts = Some s"
proof -
  assume len: "length priv < 2 ^ 31"
  obtain cs0 where cs0: "cs_with_capacity 32 = Some cs0" "cs_inv H cs0 []" by (rule cs_with_capacity_inv)
  obtain cs1 where cs1: "cs_extend H [DUMMY_COMMITMENT] cs0 = Some cs1" "cs_inv H cs1 [DUMMY_COMMITMENT]"
    by (rule cs_extend_inv [OF cs0(2), of "[DUMMY_COMMITMENT]"]) auto
  obtain cs2 where "cs_extend H (map fst priv) cs1 = Some cs2"
    by (rule cs_extend_inv [OF cs1(2), of "map fst priv"]) (use len in auto)
  with cs0 cs1 show ?thesis by (simp add: new_with_genesis_accounts_def Let_def)
qed

section \<open>System accounts\<close>

lemma validate_doesnt_modify_Inr:
  "validate_doesnt_modify_account s d i = Inr u \<longleftrightarrow> acct (view s (sd_public_diff d)) i = acct (public_state s) i"
  by (auto simp: validate_doesnt_modify_account_def view_def acct_add get_account_acct split: option.splits if_splits)

lemma validate_bridge_Inr:
  assumes "validate_bridge_account_modification H bi t s d = Inr u"
  shows "\<exists>x. acct (view s (sd_public_diff d)) (system_bridge_account_id H bi)
      = (acct (public_state s) (system_bridge_account_id H bi))\<lparr> balance := x \<rparr>
    \<and> unat (balance (acct (public_state s) (system_bridge_account_id H bi))) \<le> unat x"
proof (cases "fmlookup (sd_public_diff d) (system_bridge_account_id H bi)")
  case None
  then show ?thesis by (intro exI [of _ "balance (acct (public_state s) (system_bridge_account_id H bi))"])
      (simp add: view_def acct_add)
next
  case (Some post)
  let ?pre = "acct (public_state s) (system_bridge_account_id H bi)"
  from Some assms have post: "post\<lparr> balance := balance ?pre \<rparr> = ?pre" and le: "balance ?pre \<le> balance post"
    by (auto simp: validate_bridge_account_modification_def Let_def ensure_Inr get_account_acct split: if_splits)
  have "post = ?pre\<lparr> balance := balance post \<rparr>" 
    using arg_cong [OF post, of "\<lambda>a. a\<lparr> balance := balance post \<rparr>"] by simp
  with Some le show ?thesis unfolding word_le_nat_alt by (intro exI [of _ "balance post"]) (simp add: view_def acct_add)
qed

end
