(* ===== verification/Examples.thy ===== *)
theory Examples
  imports Ledger
begin

text \<open>
  Concrete transactions on a small ledger, evaluated in the kernel: a public transfer, and a
  privacy preserving transfer from a public account to a fresh private one.  They instantiate the
  properties of the development.  Identifiers are short and the hash is a toy, so that evaluation
  is quick.
\<close>

section \<open>A public transfer\<close>

definition ex_hash :: hash_fn where
  "ex_hash bs = [if bs = [] then 0 else last bs]"

definition ex_decode :: "instruction_data \<Rightarrow> auth_transfer_instruction option" where
  "ex_decode ws = (case ws of [n] \<Rightarrow> Some (AT_Transfer (ucast n)) | _ \<Rightarrow> None)"

definition ex_rt :: runtime where
  "ex_rt = install [7] (at_main ex_decode)
     \<lparr> rt_hash = ex_hash, rt_execute = (\<lambda>_ _ _ _. Inl (ProgramExecutionFailed [])),
       rt_signature_valid = (\<lambda>_ _ _. True), rt_public_bytes = (\<lambda>_. []), rt_privacy_bytes = (\<lambda>_. []),
       rt_image_id = (\<lambda>bs. Some [9]), rt_proof_valid = (\<lambda>_ _. False),
       rt_prove_program = (\<lambda>_ _ _ _. Inl (ProgramProveFailed [])), rt_prove_circuit = (\<lambda>_. Inl (CircuitProvingError [])) \<rparr>"

definition ex_alice :: account_id where
  "ex_alice = [1]"

definition ex_bob :: account_id where
  "ex_bob = [2, 2]"

definition ex_account :: "u128 \<Rightarrow> account" where
  "ex_account b = \<lparr> program_owner = [7], balance = b, data = [], nonce = 0 \<rparr>"

definition ex_tree :: merkle_tree where
  "ex_tree = \<lparr> nodes = [[0]], capacity = 1, mt_length = 0 \<rparr>"

definition ex_state :: v03_state where
  "ex_state = \<lparr> public_state = fmupd ex_alice (ex_account 10) (fmupd ex_bob (ex_account 1) fmempty),
     commitment_state = \<lparr> cs_tree = ex_tree, cs_commitments = fmempty, cs_root_history = {| DUMMY_COMMITMENT_HASH |} \<rparr>,
     nullifier_state = {||}, programs = fmupd [7] \<lparr> prog_id = [7], prog_elf = [] \<rparr> fmempty \<rparr>"

definition ex_tx :: public_transaction where
  "ex_tx = \<lparr> pt_message = \<lparr> pm_program_id = [7], pm_account_ids = [ex_alice, ex_bob],
      pm_nonces = [0], pm_instruction_data = [4] \<rparr>, pt_witness_set = [([], [1])] \<rparr>"

definition accepted :: "('e, 'a option) result \<Rightarrow> bool" where
  "accepted r \<longleftrightarrow> (case r of Inr (Some _) \<Rightarrow> True | _ \<Rightarrow> False)"

lemma acceptedE: "accepted r \<Longrightarrow> (\<And>x. r = Inr (Some x) \<Longrightarrow> thesis) \<Longrightarrow> thesis"
  by (auto simp: accepted_def split: sum.splits option.splits)

lemma ex_powers: "trailing_zeros (next_power_of_two 0) = 0" "trailing_zeros (next_power_of_two (Suc 0)) = 0"
  by code_simp+

lemma ex_extend: "cs_extend ex_hash [] (commitment_state ex_state) \<noteq> None" "cs_extend ex_hash [c] (commitment_state ex_state) \<noteq> None"
  by (simp_all add: cs_extend_def mt_insert_def insert_leaf_def ex_tree_def set_node_def get_node_def depth_def ex_powers
      cs_digest_def root_def root_index_def ex_state_def Let_def)

lemma ex_not_default: "[7] \<noteq> DEFAULT_PROGRAM_ID" "DEFAULT_PROGRAM_ID \<noteq> [7]"
  by (simp_all add: DEFAULT_PROGRAM_ID_def numeral_eq_Suc)

lemma ex_signers: "signer_account_ids ex_rt [([], [1])] = [ex_alice]"
  by (simp add: signer_account_ids_def ex_rt_def install_def account_id_of_public_key_def public_key_preimage_def
      ex_hash_def ex_alice_def)

lemma ex_rt_sel: "rt_hash ex_rt = ex_hash" "rt_signature_valid ex_rt sg h pk"
  "prog_id prog = [7] \<Longrightarrow> rt_execute ex_rt prog caller pres words = map_err ProgramExecutionFailed (at_main ex_decode [7] caller pres words)"
  by (simp_all add: ex_rt_def install_def)

definition ex_public_pres :: "account_meta list" where
  "ex_public_pres = [new_account_meta (ex_account 10) True ex_alice, new_account_meta (ex_account 1) False ex_bob]"

definition ex_public_posts :: "post_state list" where
  "ex_public_posts = [post_new (ex_account 6), post_new (ex_account 5)]"

lemma ex_at_public: "at_main ex_decode [7] None ex_public_pres [4] = Inr (program_output_new [7] None [4] ex_public_pres ex_public_posts)"
  by (simp add: ex_public_posts_def at_main_def read_lee_inputs_def ex_decode_def ex_public_pres_def at_transfer_def
      checked_sub_def checked_add_def ex_account_def Let_def ex_not_default)

lemma ex_public_wb: "validate_execution ex_public_pres ex_public_posts [7] = Inr ()"
  by (simp add: validate_execution_Inr well_behaved_def ex_public_pres_def ex_public_posts_def pair_ok_def total_def
      ex_account_def ex_alice_def ex_bob_def ex_not_default)

lemma ex_public_queue: "initial_queue ex_state [ex_alice] (pt_message ex_tx) =
    [(\<lparr> cc_program_id = [7], cc_pre_states = ex_public_pres, cc_instruction_data = [4], cc_pda_seeds = [] \<rparr>,
      \<lparr> cd_program_id = None, cd_authorized_accounts = {ex_alice} \<rparr>)]"
  by (simp add: initial_queue_def input_pre_states_def ex_tx_def ex_public_pres_def ex_state_def get_account_by_id_def
      ex_alice_def ex_bob_def)

definition ex_diff :: diff_map where
  "ex_diff = fmupd ex_bob (ex_account 5) (fmupd ex_alice (ex_account 6) fmempty)"

lemma ex_process_call:
  "process_call ex_rt ex_state 0 0 \<lparr> cc_program_id = [7], cc_pre_states = ex_public_pres, cc_instruction_data = [4], cc_pda_seeds = [] \<rparr>
     \<lparr> cd_program_id = None, cd_authorized_accounts = {ex_alice} \<rparr> fmempty
   = Inr (program_output_new [7] None [4] ex_public_pres ex_public_posts, ex_diff)"
proof -
  have "for_each (check_pre_state ex_state fmempty (\<lambda>i. i = ex_alice)) ex_public_pres = Inr ()"
    by (simp add: ex_public_pres_def check_pre_state_def expected_pre_def get_account_by_id_def ex_state_def ex_alice_def ex_bob_def Let_def)
  moreover have "update_diff ex_public_pres ex_public_posts fmempty = ex_diff"
    "apply_claims ex_hash [7] (zip ex_public_pres ex_public_posts) = Inr ex_public_posts"
    by (simp_all add: update_diff_def ex_public_pres_def ex_public_posts_def ex_diff_def apply_claim_def)
  moreover have "fmlookup (programs ex_state) [7] = Some \<lparr> prog_id = [7], prog_elf = [] \<rparr>" by (simp add: ex_state_def)
  ultimately show ?thesis
    using ex_public_wb by (simp add: process_call_def ex_rt_sel ex_at_public compute_public_authorized_pdas_def)
qed

lemma ex_public_run: "run_calls ex_rt ex_state 0 0 0 (initial_queue ex_state [ex_alice] (pt_message ex_tx)) fmempty = Inr ex_diff"
  by (simp add: ex_public_queue ex_process_call next_calls_def MAX_NUMBER_CHAINED_CALLS_def)

lemma ex_claimed: "check_claimed ex_state ex_diff = Inr ()"
  by (simp add: check_claimed_def for_each_Inr ensure_Inr unclaimed_def ex_diff_def expected_pre_def get_account_by_id_def
      ex_state_def ex_account_def ex_alice_def ex_bob_def ex_not_default Let_def)

lemma ex_public_diff: "from_public_transaction ex_rt ex_tx ex_state 0 0 = Inr \<lparr> sd_signer_account_ids = [ex_alice],
    sd_public_diff = ex_diff, sd_new_commitments = [], sd_new_nullifiers = [], sd_program = None \<rparr>"
  using ex_public_run ex_claimed
  by (simp add: from_public_transaction_def ex_tx_def witness_is_valid_for_def ex_rt_sel ex_signers check_nonces_def
      get_account_by_id_def ex_state_def ex_account_def ex_alice_def ex_bob_def Let_def)

lemma ex_increment: "fmlookup d ex_alice = Some (ex_account b) \<Longrightarrow>
    increment_nonces [ex_alice] (fmadd (public_state ex_state) d) \<noteq> None"
  by (auto simp: public_account_nonce_increment_def checked_add_def ex_account_def Let_def dest: fmdomI)

lemma apply_accepted:
  assumes "increment_nonces (sd_signer_account_ids d) (fmadd (public_state s) (sd_public_diff d)) \<noteq> None"
    and "cs_extend H (sd_new_commitments d) (commitment_state s) \<noteq> None"
  shows "accepted (Inr (apply_state_diff H d s))"
  using assms by (auto simp: accepted_def apply_state_diff_def Let_def)

lemma ex_public_accepted: "accepted (transition_from_public_transaction ex_rt ex_tx ex_state 0 0)"
  unfolding transition_from_public_transaction_def ex_public_diff rbind_simps
  by (rule apply_accepted) (use ex_increment [of ex_diff 6] ex_extend in \<open>simp_all add: ex_rt_sel ex_diff_def ex_alice_def ex_bob_def\<close>)

lemma ex_wf: "wf_programs ex_state" "program_owner (get_account_by_id ex_state ex_bob) = [7]"
  by (auto simp: wf_programs_def ex_state_def fmpred_iff get_account_by_id_def ex_alice_def ex_bob_def ex_account_def split: if_splits)

lemma ex_bob_not_authorizable: "ex_bob \<notin> authorizable ex_rt ex_state (signer_account_ids ex_rt (pt_witness_set ex_tx))"
  by (auto simp: authorizable_def ex_tx_def ex_signers ex_alice_def ex_bob_def for_public_pda_def ex_rt_sel ex_hash_def)

definition ex_program :: "u32 \<Rightarrow> program" where
  "ex_program n = \<lparr> prog_id = [n], prog_elf = [] \<rparr>"

definition ex_builtins :: builtins where
  "ex_builtins = \<lparr> bi_authenticated_transfer = ex_program 7, bi_token = ex_program 10, bi_amm = ex_program 11,
     bi_ata = ex_program 12, bi_clock = ex_program 13, bi_vault = ex_program 14, bi_faucet = ex_program 15,
     bi_bridge = ex_program 16, bi_pinata = ex_program 17, bi_pinata_token = ex_program 18 \<rparr>"

lemma ex_system_ids:
  "system_faucet_account_id ex_hash ex_builtins = [47]" "system_bridge_account_id ex_hash ex_builtins = [47]"
  by code_simp+

lemma ex_validated:
  "validate_on_state ex_rt ex_builtins (TxPublic ex_tx) ex_state 0 0 = from_public_transaction ex_rt ex_tx ex_state 0 0"
proof -
  have "i \<notin> {ex_alice, ex_bob}" if "i \<in> set CLOCK_PROGRAM_ACCOUNT_IDS \<union> {[47]}" for i
    using that by (auto simp: CLOCK_PROGRAM_ACCOUNT_IDS_def CLOCK_01_PROGRAM_ACCOUNT_ID_def CLOCK_10_PROGRAM_ACCOUNT_ID_def
        CLOCK_50_PROGRAM_ACCOUNT_ID_def ascii_def ex_alice_def ex_bob_def)
  then have "fmlookup ex_diff i = None" if "i \<in> set CLOCK_PROGRAM_ACCOUNT_IDS \<union> {[47]}" for i
    using that by (auto simp: ex_diff_def)
  then show ?thesis
    by (simp add: validate_on_state_def compute_state_diff_def ex_public_diff CLOCK_PROGRAM_ACCOUNT_IDS_def
        validate_doesnt_modify_account_def validate_bridge_account_modification_def ex_rt_sel ex_system_ids)
qed

section \<open>A privacy preserving transfer\<close>

definition ex_private_identity :: input_account_identity where
  "ex_private_identity = PrivateUnauthorized [] 0 [5] [6] 3"

definition ex_private_id :: account_id where
  "ex_private_id = for_regular_private_account ex_hash [5] 3"

definition ex_pres :: "account_meta list" where
  "ex_pres = [new_account_meta (ex_account 10) True ex_alice,
     new_account_meta default_account False ex_private_id]"

definition ex_output :: program_output where
  "ex_output = (case at_main ex_decode [7] None ex_pres [4] of Inr out \<Rightarrow> out)"

definition ex_input :: circuit_input where
  "ex_input = \<lparr> ci_program_outputs = [ex_output], ci_account_identities = [Public, ex_private_identity],
     ci_program_id = [7] \<rparr>"

definition ex_keystream :: "bytes \<Rightarrow> bytes \<Rightarrow> bytes" where
  "ex_keystream k bs = map (\<lambda>b. b + 1) bs"

definition ex_verify :: "program_id \<Rightarrow> program_output \<Rightarrow> bool" where
  "ex_verify pid out \<longleftrightarrow> at_main ex_decode pid (caller_program_id out) (pre_states out) (instruction_data out) = Inr out"

definition ex_prt :: runtime where
  "ex_prt = transparent (\<lambda>p. Some ex_input) ex_keystream ex_verify ex_rt"

definition ex_posts :: "post_state list" where
  "ex_posts = [post_new (ex_account 6), new_claimed (default_account\<lparr> balance := 4 \<rparr>) Claim_Authorized]"

lemma ex_at_main: "at_main ex_decode [7] None ex_pres [4] = Inr (program_output_new [7] None [4] ex_pres ex_posts)"
  by (simp add: ex_posts_def at_main_def read_lee_inputs_def ex_decode_def ex_pres_def at_transfer_def
      checked_sub_def checked_add_def ex_account_def Let_def)

lemma ex_output_eq: "ex_output = program_output_new [7] None [4] ex_pres ex_posts"
  by (simp add: ex_output_def ex_at_main)

lemma ex_private_id_eq: "ex_private_id = [0]"
  by code_simp

lemma ex_wb: "validate_execution ex_pres ex_posts [7] = Inr ()"
  by (simp add: validate_execution_Inr well_behaved_def ex_pres_def ex_posts_def pair_ok_def total_def ex_account_def
     ex_alice_def ex_private_id_eq ex_not_default)

definition ex_private_post :: account where
  "ex_private_post = default_account\<lparr> balance := 4, program_owner := [7] \<rparr>"

definition ex_es :: execution_state where
  "ex_es = \<lparr> es_pre_states = ex_pres,
     es_post_states = fmupd [0] ex_private_post (fmupd [1] (ex_account 6) fmempty),
     es_block_validity_window = new_unbounded, es_timestamp_validity_window = new_unbounded,
     es_private_pda_bound_positions = fmempty, es_pda_family_binding = fmempty,
     es_private_pda_npk_by_position = fmempty, es_authorized_accounts = {} \<rparr>"

lemma ex_sync: "fold_res (sync_pair ex_hash [Public, ex_private_identity] [7] None []) (zip ex_pres ex_posts)
    \<lparr>es_pre_states = [], es_post_states = fmempty, es_block_validity_window = new_unbounded,
     es_timestamp_validity_window = new_unbounded, es_private_pda_bound_positions = fmempty,
     es_pda_family_binding = fmempty, es_private_pda_npk_by_position = fmempty,
     es_authorized_accounts = {}\<rparr> = Inr ex_es"
  by (simp add: ex_pres_def ex_posts_def sync_pair_def sync_new_def external_seed_def nth_opt_def ex_private_identity_def
     sync_claim_def Let_def ex_private_id_eq ex_alice_def is_public_def new_account_meta_def ex_es_def ex_private_post_def)

lemma ex_checks:
  "check_bound_positions [Public, ex_private_identity] ex_es = Inr ()" "check_modified_claimed ex_es = Inr ()"
  by (simp_all add: check_bound_positions_def check_modified_claimed_def is_private_pda_def ex_private_identity_def
      ex_es_def ex_pres_def ex_account_def ex_not_default ex_private_id_eq ex_private_post_def)

lemma ex_npk: "npk_if_private_pda ex_hash Public = None" "npk_if_private_pda ex_hash ex_private_identity = None"
  by (simp_all add: ex_private_identity_def npk_if_private_pda_def)

lemma ex_window: "intersect_windows [new_unbounded] = Inr new_unbounded"
  by (simp add: intersect_windows_def new_unbounded_def List.map_filter_def max_opt_def min_opt_def
      window_try_from_def check_window_def Let_def)

lemma ex_derive: "derive_from_outputs ex_hash ex_verify [Public, ex_private_identity] [7] [ex_output] = Inr ex_es"
  using ex_wb ex_sync ex_checks
  by (simp add: derive_from_outputs_def ex_window Let_def ex_output_eq ex_verify_def ex_npk
      MAX_NUMBER_CHAINED_CALLS_def validate_and_sync_states_def ex_at_main)

definition ex_note :: account where
  "ex_note = ex_private_post\<lparr> nonce := private_account_nonce_init ex_hash [0] \<rparr>"

definition ex_co :: circuit_output where
  "ex_co = \<lparr> co_public_pre_states = [hd ex_pres], co_public_post_states = [ex_account 6],
     co_encrypted_private_post_states = [\<lparr> ead_ciphertext =
       the (encrypt ex_hash ex_keystream ex_note (Regular 3) [6] (commitment_new ex_hash [0] ex_note) 0), ead_epk = [], ead_view_tag = 0 \<rparr>],
     co_new_commitments = [commitment_new ex_hash [0] ex_note],
     co_new_nullifiers = [(for_account_initialization ex_hash [0], DUMMY_COMMITMENT_HASH)],
     co_block_validity_window = new_unbounded, co_timestamp_validity_window = new_unbounded \<rparr>"

lemma ex_circuit: "circuit_main ex_hash ex_keystream ex_verify ex_input = Inr ex_co"
  using ex_derive ex_private_id_eq
  by (simp add: circuit_main_def ex_input_def compute_circuit_output_def ex_es_def ex_pres_def output_step_def ex_private_identity_def
    ex_alice_def new_account_meta_def ex_private_id_def emit_private_output_def encrypt_def account_to_bytes_def ex_note_def ex_private_post_def
    checked_add_def empty_output_def ex_co_def Let_def)

definition ex_vtx :: privacy_transaction where
  "ex_vtx = \<lparr> vt_message = try_from_circuit_output [ex_alice] [0] ex_co,
     vt_witness_set = \<lparr> vw_signatures_and_public_keys = [([], [1])], vw_proof = [] \<rparr> \<rparr>"

lemma ex_prt_sel:
  "rt_hash ex_prt = ex_hash" "rt_proof_valid ex_prt [] co \<longleftrightarrow> co = ex_co" "rt_signature_valid ex_prt sg h pk"
  using ex_circuit by (auto simp: ex_prt_def transparent_def ex_rt_def install_def)

lemma ex_privacy_signers: "signer_account_ids ex_prt [([], [1])] = [ex_alice]"
  by (simp add: signer_account_ids_def ex_prt_sel account_id_of_public_key_def public_key_preimage_def ex_hash_def ex_alice_def)

lemma ex_privacy_diff: "from_privacy_preserving_transaction ex_prt ex_vtx ex_state 0 0 =
    Inr \<lparr> sd_signer_account_ids = [ex_alice], sd_public_diff = fmupd ex_alice (ex_account 6) fmempty,
          sd_new_commitments = [commitment_new ex_hash [0] ex_note],
          sd_new_nullifiers = [for_account_initialization ex_hash [0]], sd_program = None \<rparr>"
  by (simp add: from_privacy_preserving_transaction_def ex_vtx_def try_from_circuit_output_def ex_co_def
      signatures_are_valid_for_def ex_prt_sel ex_privacy_signers check_nonces_def get_account_by_id_def ex_state_def ex_account_def
      check_privacy_preserving_circuit_proof_is_valid_def input_pre_states_def ex_pres_def
      check_commitments_are_new_def cs_contains_def check_nullifiers_are_valid_def n_distinct_def Let_def)

lemma ex_privacy_accepted: "accepted (transition_from_privacy_preserving_transaction ex_prt ex_vtx ex_state 0 0)"
  unfolding transition_from_privacy_preserving_transaction_def ex_privacy_diff rbind_simps
  by (rule apply_accepted) (use ex_increment [of "fmupd ex_alice (ex_account 6) fmempty" 6] ex_extend in \<open>simp_all add: ex_prt_sel\<close>)

lemma ex_prt_sound: "sound_proofs ex_prt ex_keystream ex_verify"
  unfolding ex_prt_def by (rule transparent.sound_proofs_axioms)

lemma ex_privacy_step:
  obtains s1 where "ledger_step ex_prt ex_state (TxPrivacyPreserving ex_vtx) s1"
proof (rule acceptedE [OF ex_privacy_accepted])
  fix s1 assume "transition_from_privacy_preserving_transaction ex_prt ex_vtx ex_state 0 0 = Inr (Some s1)"
  then have "ledger_step ex_prt ex_state (TxPrivacyPreserving ex_vtx) s1"
    by (intro ledger_step.accept) (simp add: execute_without_system_accounts_check_on_state_def
        compute_state_diff_def transition_from_privacy_preserving_transaction_def)
  then show thesis by (rule that)
qed

lemma ex_privacy_run:
  obtains s1 where "ledger_run ex_prt ex_state [TxPrivacyPreserving ex_vtx] s1"
  using ex_privacy_step run_cons [OF _ run_nil] by metis

lemma ex_public_step:
  obtains s1 where "ledger_step ex_rt ex_state (TxPublic ex_tx) s1"
proof (rule acceptedE [OF ex_public_accepted])
  fix s1 assume "transition_from_public_transaction ex_rt ex_tx ex_state 0 0 = Inr (Some s1)"
  then have "ledger_step ex_rt ex_state (TxPublic ex_tx) s1"
    by (intro ledger_step.accept) (simp add: execute_without_system_accounts_check_on_state_def
        compute_state_diff_def transition_from_public_transaction_def)
  then show thesis by (rule that)
qed

section \<open>A transfer to a private PDA\<close>

definition ex_pda_identity :: input_account_identity where
  "ex_pda_identity = PrivatePdaInit [] 0 [5] [6] 3 (Some ([8], [9]))"

definition ex_pda_es :: execution_state where
  "ex_pda_es = ex_es\<lparr> es_private_pda_bound_positions := fmupd 1 ([9], [8]) fmempty,
     es_pda_family_binding := fmupd ([9], [8]) [0] fmempty, es_private_pda_npk_by_position := fmupd 1 ([5], 3) fmempty \<rparr>"

lemma ex_pda_id: "for_private_pda ex_hash [9] [8] [5] 3 = [0]"
  by code_simp

lemma ex_pda_npk: "npk_if_private_pda ex_hash Public = None" "npk_if_private_pda ex_hash ex_pda_identity = Some ([5], 3)"
  by (simp_all add: ex_pda_identity_def npk_if_private_pda_def)

lemma ex_pda_sync: "fold_res (sync_pair ex_hash [Public, ex_pda_identity] [7] None []) (zip ex_pres ex_posts)
    \<lparr>es_pre_states = [], es_post_states = fmempty, es_block_validity_window = new_unbounded,
     es_timestamp_validity_window = new_unbounded, es_private_pda_bound_positions = fmempty,
     es_pda_family_binding = fmempty, es_private_pda_npk_by_position = fmupd (Suc 0) ([5], 3) fmempty,
     es_authorized_accounts = {}\<rparr> = Inr ex_pda_es"
  by (simp add: ex_pres_def ex_posts_def sync_pair_def sync_new_def external_seed_def nth_opt_def ex_pda_identity_def
      sync_claim_def Let_def ex_private_id_eq ex_alice_def is_public_def new_account_meta_def ex_es_def ex_pda_es_def
      ex_private_post_def ex_pda_id bind_private_pda_position_def assert_family_binding_def)

lemma ex_pda_checks:
  "check_bound_positions [Public, ex_pda_identity] ex_pda_es = Inr ()" "check_modified_claimed ex_pda_es = Inr ()"
  by (simp_all add: check_bound_positions_def check_modified_claimed_def is_private_pda_def ex_pda_identity_def
      ex_es_def ex_pda_es_def ex_pres_def ex_account_def ex_not_default ex_private_id_eq ex_private_post_def)

lemma ex_pda_derive: "derive_from_outputs ex_hash ex_verify [Public, ex_pda_identity] [7] [ex_output] = Inr ex_pda_es"
  using ex_wb ex_pda_sync ex_pda_checks
  by (simp add: derive_from_outputs_def ex_window Let_def ex_output_eq ex_verify_def ex_pda_npk
      MAX_NUMBER_CHAINED_CALLS_def validate_and_sync_states_def ex_at_main)

end
