(* ===== verification/Multisig.thy ===== *)
theory Multisig
  imports System_Programs Membership
begin

text \<open>
  The anonymous multisig: the shared Merkle scheme of \<open>programs/msig/core\<close> and the guest
  \<open>test_program_methods/guest/src/bin/msig.rs\<close>.  Members are leaves of a tree of depth five; a
  proposal freezes its root and collects vote nullifiers; a treasury is released by a chained call.
  The instruction codec and the hash are parameters.
\<close>

section \<open>Merkle scheme\<close>

type_synonym merkle_proof = "u32 \<times> bytes list"

definition TREE_DEPTH :: nat where
  "TREE_DEPTH = 5"

definition EMPTY_LEAF :: bytes where
  "EMPTY_LEAF = replicate 32 0"

definition LEAF_DOMAIN :: bytes where
  "LEAF_DOMAIN = ascii ''/lp0002/leaf/'' @ [0]"

definition NULL_DOMAIN :: bytes where
  "NULL_DOMAIN = ascii ''/lp0002/null/'' @ [0]"

definition PROPOSAL_HEADER_LEN :: nat where
  "PROPOSAL_HEADER_LEN = 68"

definition REGISTRY_HEADER_LEN :: nat where
  "REGISTRY_HEADER_LEN = 36"

datatype msig_instruction =
    CreateProposal bytes bytes
  | Approve bytes merkle_proof bytes
  | Enroll bytes
  | InitTreasury pda_seed program_id
  | Execute u32 pda_seed

definition hash_pair :: "hash_fn \<Rightarrow> bytes \<Rightarrow> bytes \<Rightarrow> bytes" where
  "hash_pair H left right = H (left @ right)"

definition member_leaf :: "hash_fn \<Rightarrow> bytes \<Rightarrow> bytes" where
  "member_leaf H secret = H (LEAF_DOMAIN @ secret)"

definition vote_nullifier :: "hash_fn \<Rightarrow> bytes \<Rightarrow> bytes \<Rightarrow> bytes" where
  "vote_nullifier H secret proposal_id = H (NULL_DOMAIN @ secret @ proposal_id)"

text \<open>\<open>Vec::resize\<close>: cut or fill to the given length.\<close>

definition resize :: "nat \<Rightarrow> 'a \<Rightarrow> 'a list \<Rightarrow> 'a list" where
  "resize n v xs = take n xs @ replicate (n - length xs) v"

text \<open>
  One level up: \<open>chunks(2).map(hash_pair)\<close>.  Levels have \<open>2^k\<close> nodes, \<open>k > 0\<close>, so that the last
  equation, a chunk of one, is never reached.
\<close>

fun hash_level :: "hash_fn \<Rightarrow> bytes list \<Rightarrow> bytes list" where
  "hash_level H (a # b # level) = hash_pair H a b # hash_level H level"
| "hash_level H level = []"

definition merkle_root :: "hash_fn \<Rightarrow> bytes list \<Rightarrow> bytes" where
  "merkle_root H leaves = (hash_level H ^^ TREE_DEPTH) (resize (2 ^ TREE_DEPTH) EMPTY_LEAF leaves) ! 0"

text \<open>The sibling \<open>idx ^ 1\<close>.\<close>

definition sibling :: "nat \<Rightarrow> nat" where
  "sibling idx = (if even idx then idx + 1 else idx - 1)"

fun merkle_path_loop :: "hash_fn \<Rightarrow> nat \<Rightarrow> bytes list \<Rightarrow> nat \<Rightarrow> bytes list option" where
  "merkle_path_loop H 0 level idx = Some []"
| "merkle_path_loop H (Suc n) level idx =
     (if sibling idx < length level
      then map_option (Cons (level ! sibling idx)) (merkle_path_loop H n (hash_level H level) (idx div 2))
      else None)"

definition merkle_path :: "hash_fn \<Rightarrow> bytes list \<Rightarrow> nat \<Rightarrow> merkle_proof option" where
  "merkle_path H leaves index =
     map_option (\<lambda>path. (word_of_nat index, path))
       (merkle_path_loop H TREE_DEPTH (resize (2 ^ TREE_DEPTH) EMPTY_LEAF leaves) index)"

fun root_from_path_loop :: "hash_fn \<Rightarrow> bytes \<Rightarrow> nat \<Rightarrow> bytes list \<Rightarrow> bytes" where
  "root_from_path_loop H result idx [] = result"
| "root_from_path_loop H result idx (sib # path) =
     root_from_path_loop H (if even idx then hash_pair H result sib else hash_pair H sib result) (idx div 2) path"

definition root_from_path :: "hash_fn \<Rightarrow> bytes \<Rightarrow> merkle_proof \<Rightarrow> bytes" where
  "root_from_path H leaf mp = root_from_path_loop H leaf (unat (fst mp)) (snd mp)"

section \<open>The guest\<close>

definition VOTE_IDENTIFIER :: u128 where
  "VOTE_IDENTIFIER = 0"

text \<open>
  The loop that reads \<open>count\<close> entries of 32 bytes; \<open>None\<close> is the panic of a slice out of range.
  The data of an account is far below \<open>2^32\<close> bytes, so neither the offset nor, once the entries
  were read, \<open>count + 1\<close> can overflow.
\<close>

fun read_chunks :: "nat \<Rightarrow> bytes \<Rightarrow> nat \<Rightarrow> bytes list option" where
  "read_chunks 0 d offset = Some []"
| "read_chunks (Suc n) d offset =
     (if offset + 32 \<le> length d
      then map_option (Cons (take 32 (drop offset d))) (read_chunks n d (offset + 32)) else None)"

definition u32_at :: "nat \<Rightarrow> bytes \<Rightarrow> u32" where
  "u32_at offset d = from_le_bytes (take 4 (drop offset d))"

definition create_proposal :: "account_meta \<Rightarrow> bytes \<Rightarrow> bytes \<Rightarrow> (panic, post_state list) result" where
  "create_proposal proposal member_root proposal_id =
     (let d = member_root @ proposal_id @ to_le_bytes (0 :: u32) in
      into_data ''proposal state fits into data limit'' d (\<lambda>d.
      Inr [new_claimed ((account proposal)\<lparr> data := d \<rparr>) Claim_Authorized]))"

definition enroll :: "hash_fn \<Rightarrow> account_meta \<Rightarrow> bytes \<Rightarrow> (panic, post_state list) result" where
  "enroll H registry leaf =
     (let d = data (account registry) in
      expect (if length d \<ge> REGISTRY_HEADER_LEN
              then read_chunks (unat (u32_at 32 d)) d REGISTRY_HEADER_LEN else Some [])
        ''range end index out of range'' (\<lambda>leaves.
      let leaves = leaves @ [leaf];
          root = merkle_root H leaves;
          new_data = root @ to_le_bytes (word_of_nat (length leaves) :: u32) @ concat leaves
      in into_data ''registry should fit into data limit'' new_data (\<lambda>new_data.
      let a = (account registry)\<lparr> data := new_data \<rparr> in
      if program_owner (account registry) = DEFAULT_PROGRAM_ID
      then Inr [new_claimed a Claim_Authorized] else Inr [post_new a])))"

definition approve :: "hash_fn \<Rightarrow> account_meta \<Rightarrow> account_meta \<Rightarrow> bytes \<Rightarrow> merkle_proof \<Rightarrow> bytes
    \<Rightarrow> (panic, post_state list) result" where
  "approve H proposal rider secret mp proposal_id =
     (let d = data (account proposal) in
      ensure (length d \<ge> PROPOSAL_HEADER_LEN) ''proposal state header too short'' (
      let member_root = take 32 d;
          proposal_id_state = take 32 (drop 32 d);
          count = u32_at 64 d in
      ensure (proposal_id = proposal_id_state) ''proposal id mismatch'' (
      let expected_rider = for_regular_private_account H (npk_of_nsk H secret) VOTE_IDENTIFIER in
      ensure (account_id rider = expected_rider)
        ''rider must be the member's account keyed by the voting secret'' (
      ensure (account rider \<noteq> default_account) ''rider must be a LIVE funded account, not a fresh init'' (
      let leaf = member_leaf H secret in
      ensure (root_from_path H leaf mp = member_root) ''approver is not an enrolled member'' (
      let nullifier = vote_nullifier H secret proposal_id in
      expect (read_chunks (unat count) d PROPOSAL_HEADER_LEN) ''range end index out of range'' (\<lambda>nullifiers.
      ensure (nullifier \<notin> set nullifiers) ''approval nullifier already recorded (double vote)'' (
      let nullifiers = nullifiers @ [nullifier];
          new_count = count + 1;
          new_data = member_root @ proposal_id_state @ to_le_bytes new_count @ concat nullifiers
      in into_data ''proposal state should fit into data limit'' new_data (\<lambda>new_data.
      Inr [post_new ((account proposal)\<lparr> data := new_data \<rparr>), post_new (account rider)])))))))))"

definition execute :: "(auth_transfer_instruction \<Rightarrow> instruction_data) \<Rightarrow> account_meta \<Rightarrow> account_meta \<Rightarrow> account_meta
    \<Rightarrow> u32 \<Rightarrow> pda_seed \<Rightarrow> (panic, post_state list \<times> chained_call list) result" where
  "execute enc_at proposal treasury recipient threshold seed =
     (let d = data (account proposal) in
      ensure (length d \<ge> PROPOSAL_HEADER_LEN) ''proposal state header too short'' (
      let count = u32_at 64 d in
      ensure (unat count \<ge> unat threshold) ''approval count below threshold'' (
      let amount = balance (account treasury);
          transfer_program_id = program_owner (account treasury);
          treasury_authorized = treasury\<lparr> is_authorized := True \<rparr>;
          chained_call = \<lparr> cc_program_id = transfer_program_id, cc_pre_states = [treasury_authorized, recipient],
            cc_instruction_data = enc_at (AT_Transfer amount), cc_pda_seeds = [seed] \<rparr>
      in Inr ([post_new (account proposal), post_new (account treasury), post_new (account recipient)],
              [chained_call]))))"

definition init_treasury :: "(auth_transfer_instruction \<Rightarrow> instruction_data) \<Rightarrow> account_meta \<Rightarrow> pda_seed \<Rightarrow> program_id
    \<Rightarrow> post_state list \<times> chained_call list" where
  "init_treasury enc_at treasury seed transfer_program_id =
     (let treasury_authorized = treasury\<lparr> is_authorized := True \<rparr>;
          chained_call = \<lparr> cc_program_id = transfer_program_id, cc_pre_states = [treasury_authorized],
            cc_instruction_data = enc_at AT_Initialize, cc_pda_seeds = [seed] \<rparr>
      in ([post_new (account treasury)], [chained_call]))"

definition msig_dispatch :: "hash_fn \<Rightarrow> (auth_transfer_instruction \<Rightarrow> instruction_data) \<Rightarrow> account_meta list
    \<Rightarrow> msig_instruction \<Rightarrow> (panic, post_state list \<times> chained_call list) result" where
  "msig_dispatch H enc_at pres instr =
     (case instr of
        CreateProposal member_root proposal_id \<Rightarrow>
          with1 NO_OUTPUT pres (\<lambda>proposal.
          rbind (create_proposal proposal member_root proposal_id) (\<lambda>posts. Inr (posts, [])))
      | Approve secret mp proposal_id \<Rightarrow>
          with2 NO_OUTPUT pres (\<lambda>proposal rider.
          rbind (approve H proposal rider secret mp proposal_id) (\<lambda>posts. Inr (posts, [])))
      | Enroll leaf \<Rightarrow>
          with1 NO_OUTPUT pres (\<lambda>registry.
          rbind (enroll H registry leaf) (\<lambda>posts. Inr (posts, [])))
      | InitTreasury seed transfer_program_id \<Rightarrow>
          with1 NO_OUTPUT pres (\<lambda>treasury. Inr (init_treasury enc_at treasury seed transfer_program_id))
      | Execute threshold seed \<Rightarrow>
          with3 NO_OUTPUT pres (\<lambda>proposal treasury recipient.
          execute enc_at proposal treasury recipient threshold seed))"

definition msig_main :: "hash_fn \<Rightarrow> (instruction_data \<Rightarrow> msig_instruction option)
    \<Rightarrow> (auth_transfer_instruction \<Rightarrow> instruction_data) \<Rightarrow> guest" where
  "msig_main H dec enc_at self caller pres words =
     read_lee_inputs dec words (\<lambda>instr.
     rbind (msig_dispatch H enc_at pres instr) (\<lambda>(posts, calls).
     Inr (with_chained_calls (program_output_new self caller words pres posts) calls)))"

section \<open>The member tree\<close>

primrec lnode :: "hash_fn \<Rightarrow> (nat \<Rightarrow> bytes) \<Rightarrow> nat \<Rightarrow> nat \<Rightarrow> bytes" where
  "lnode H f 0 p = f p"
| "lnode H f (Suc h) p = H (lnode H f h (2 * p) @ lnode H f h (2 * p + 1))"

definition leaf_at :: "bytes list \<Rightarrow> nat \<Rightarrow> bytes" where
  "leaf_at leaves p = (if p < length leaves then leaves ! p else EMPTY_LEAF)"

lemma hash_level_append: "even (length xs) \<Longrightarrow> hash_level H (xs @ ys) = hash_level H xs @ hash_level H ys"
  by (induction xs rule: induct_list012) simp_all

lemma hash_level_map: "hash_level H (map f [0..<2 * m]) = map (\<lambda>p. H (f (2 * p) @ f (2 * p + 1))) [0..<m]"
  by (induction m) (simp_all add: hash_level_append hash_pair_def)

lemma hash_levels: "k \<le> n \<Longrightarrow> (hash_level H ^^ k) (map f [0..<2 ^ n]) = map (lnode H f k) [0..<2 ^ (n - k)]"
proof (induction k)
  case (Suc k)
  then have "(2::nat) ^ (n - k) = 2 * 2 ^ (n - Suc k)" by (intro pow_split) simp
  with Suc show ?case by (simp add: hash_level_map)
qed simp

lemma resize_map: "resize n EMPTY_LEAF leaves = map (leaf_at leaves) [0..<n]"
  by (rule nth_equalityI) (auto simp: resize_def leaf_at_def nth_append min_def)

lemma merkle_root_lnode: "merkle_root H leaves = lnode H (leaf_at leaves) TREE_DEPTH 0"
  by (simp add: merkle_root_def resize_map hash_levels)

lemma length_merkle_root: "\<forall>x. length (H x) = 32 \<Longrightarrow> length (merkle_root H leaves) = 32"
  by (simp add: merkle_root_lnode TREE_DEPTH_def numeral_eq_Suc)

lemma sibling_less: "p < 2 ^ n \<Longrightarrow> 0 < n \<Longrightarrow> sibling p < 2 ^ n"
  by (cases n) (auto simp: sibling_def elim!: evenE)

lemma upt_Suc_Cons: "[0..<Suc n] = 0 # map Suc [0..<n]"
  by (simp add: map_Suc_upt upt_conv_Cons del: upt_Suc)

lemma merkle_path_loop_eq:
  "h + n \<le> N \<Longrightarrow> p < 2 ^ (N - h) \<Longrightarrow> merkle_path_loop H n (map (lnode H f h) [0..<2 ^ (N - h)]) p =
     Some (map (\<lambda>j. lnode H f (h + j) (sibling (p div 2 ^ j))) [0..<n])"
proof (induction n arbitrary: h p)
  case (Suc n)
  have s: "sibling p < 2 ^ (N - h)" using Suc.prems by (intro sibling_less) simp_all
  have w: "(2::nat) ^ (N - h) = 2 * 2 ^ (N - Suc h)"
    by (rule pow_split) (use Suc.prems(1) in simp)
  have "hash_level H (map (lnode H f h) [0..<2 ^ (N - h)]) = map (lnode H f (Suc h)) [0..<2 ^ (N - Suc h)]"
    unfolding w by (simp add: hash_level_map)
  moreover have "p div 2 < 2 ^ (N - Suc h)" using Suc.prems(2) w by simp
  ultimately show ?case
    using Suc.IH [of "Suc h" "p div 2"] Suc.prems(1) s
    by (simp add: upt_Suc_Cons comp_def div_mult2_eq del: upt_Suc lnode.simps)
qed simp

lemma root_loop_lnode:
  "root_from_path_loop H (lnode H f h p) p (map (\<lambda>j. lnode H f (h + j) (sibling (p div 2 ^ j))) [0..<n])
   = lnode H f (h + n) (p div 2 ^ n)"
proof (induction n arbitrary: h p)
  case (Suc n)
  have "(if even p then hash_pair H (lnode H f h p) (lnode H f h (sibling p))
      else hash_pair H (lnode H f h (sibling p)) (lnode H f h p)) = lnode H f (Suc h) (p div 2)"
    by (auto simp: sibling_def hash_pair_def elim!: evenE oddE)
  with Suc.IH [of "Suc h" "p div 2"] show ?case
    by (simp add: upt_Suc_Cons comp_def div_mult2_eq del: upt_Suc lnode.simps)
qed simp

lemma merkle_path_correct:
  assumes "i < 2 ^ TREE_DEPTH"
  obtains path where "merkle_path H leaves i = Some (word_of_nat i, path)" "length path = TREE_DEPTH"
    "root_from_path H (leaf_at leaves i) (word_of_nat i, path) = merkle_root H leaves"
proof -
  let ?f = "leaf_at leaves" and ?N = TREE_DEPTH
  define path where "path = map (\<lambda>j. lnode H ?f j (sibling (i div 2 ^ j))) [0..<?N]"
  have f: "lnode H ?f 0 = ?f" by (rule ext) simp
  have p: "merkle_path_loop H ?N (resize (2 ^ ?N) EMPTY_LEAF leaves) i = Some path"
    using merkle_path_loop_eq [of 0 ?N ?N i H ?f] assms by (simp add: resize_map path_def f)
  have i: "unat (word_of_nat i :: u32) = i" using assms by (simp add: unat_of_nat TREE_DEPTH_def)
  have "root_from_path_loop H (leaf_at leaves i) i path = merkle_root H leaves"
    using root_loop_lnode [of H ?f 0 i ?N] assms by (simp add: path_def merkle_root_lnode)
  with p i that [of path] show thesis by (simp add: merkle_path_def root_from_path_def path_def)
qed

lemma root_loop_digest: "root_from_path_loop H r i path = digest_loop H r i path"
  by (induction path arbitrary: r i) (simp_all add: hash_pair_def)

text \<open>With honest leaves the member tree is the padded tree over the domain separated secrets.\<close>

lemma member_root_padded:
  "merkle_root H (map (member_leaf H) members) = padded_node H (map ((@) LEAF_DOMAIN) members) TREE_DEPTH 0"
proof -
  have "lnode H (leaf_at (map (member_leaf H) members)) h p = padded_node H (map ((@) LEAF_DOMAIN) members) h p" for h p
    by (induction h arbitrary: p) (simp_all add: leaf_at_def member_leaf_def EMPTY_LEAF_def)
  then show ?thesis by (simp add: merkle_root_lnode)
qed

section \<open>Proposals\<close>

text \<open>The documented layout of a proposal: root, id, number of votes, vote nullifiers.\<close>

definition proposal_data :: "bytes \<Rightarrow> bytes \<Rightarrow> bytes list \<Rightarrow> bytes" where
  "proposal_data rt pid ns = rt @ pid @ to_le_bytes (word_of_nat (length ns) :: u32) @ concat ns"

definition wf_proposal :: "bytes \<Rightarrow> bytes \<Rightarrow> bytes list \<Rightarrow> bool" where
  "wf_proposal rt pid ns \<longleftrightarrow> length rt = 32 \<and> length pid = 32 \<and> (\<forall>n \<in> set ns. length n = 32)
     \<and> length (proposal_data rt pid ns) \<le> DATA_MAX_LENGTH"

lemma length_concat_32: "\<forall>n \<in> set ns. length n = 32 \<Longrightarrow> length (concat ns) = 32 * length ns"
  by (induction ns) simp_all

lemma read_chunks_concat:
  "\<forall>n \<in> set ns. length n = 32 \<Longrightarrow> read_chunks (length ns) (pre @ concat ns @ rest) (length pre) = Some ns"
proof (induction ns arbitrary: pre)
  case (Cons n ns)
  then have "length n = 32" by simp
  with Cons.IH [of "pre @ n"] Cons.prems show ?case by simp
qed simp

lemma wf_proposal_count:
  assumes "wf_proposal rt pid ns"
  shows "length ns < 2 ^ 32" "unat (word_of_nat (length ns) :: u32) = length ns"
proof -
  show "length ns < 2 ^ 32"
    using assms length_concat_32 [of ns] by (simp add: wf_proposal_def proposal_data_def DATA_MAX_LENGTH_def)
  then show "unat (word_of_nat (length ns) :: u32) = length ns" by (simp add: unat_of_nat)
qed

lemma proposal_read:
  assumes "wf_proposal rt pid ns"
  defines "d \<equiv> proposal_data rt pid ns"
  shows "length d \<ge> PROPOSAL_HEADER_LEN" "take 32 d = rt" "take 32 (drop 32 d) = pid"
    "u32_at 64 d = word_of_nat (length ns)" "read_chunks (length ns) d PROPOSAL_HEADER_LEN = Some ns"
proof -
  have l: "length rt = 32" "length pid = 32" "\<forall>n \<in> set ns. length n = 32"
    using assms by (simp_all add: wf_proposal_def)
  then show "length d \<ge> PROPOSAL_HEADER_LEN" "take 32 d = rt" "take 32 (drop 32 d) = pid"
    "u32_at 64 d = word_of_nat (length ns)"
    by (simp_all add: d_def proposal_data_def PROPOSAL_HEADER_LEN_def u32_at_def)
  from read_chunks_concat [OF l(3), of "rt @ pid @ to_le_bytes (word_of_nat (length ns) :: u32)" "[]"] l(1,2)
  show "read_chunks (length ns) d PROPOSAL_HEADER_LEN = Some ns"
    by (simp add: d_def proposal_data_def PROPOSAL_HEADER_LEN_def)
qed

text \<open>What a vote requires besides room for it.\<close>

definition vote_ok :: "hash_fn \<Rightarrow> bytes \<Rightarrow> bytes \<Rightarrow> bytes list \<Rightarrow> account_meta \<Rightarrow> bytes \<Rightarrow> merkle_proof \<Rightarrow> bool" where
  "vote_ok H rt pid ns rider secret mp \<longleftrightarrow>
     account_id rider = for_regular_private_account H (npk_of_nsk H secret) VOTE_IDENTIFIER
   \<and> account rider \<noteq> default_account
   \<and> root_from_path H (member_leaf H secret) mp = rt
   \<and> vote_nullifier H secret pid \<notin> set ns"

lemma approve_iff:
  assumes wf: "wf_proposal rt pid ns" and d: "data (account pr) = proposal_data rt pid ns"
  shows "approve H pr rider secret mp pid' = Inr posts \<longleftrightarrow>
    pid' = pid \<and> vote_ok H rt pid ns rider secret mp
    \<and> length (proposal_data rt pid (ns @ [vote_nullifier H secret pid])) \<le> DATA_MAX_LENGTH
    \<and> posts = [post_new ((account pr)\<lparr> data := proposal_data rt pid (ns @ [vote_nullifier H secret pid]) \<rparr>),
               post_new (account rider)]"
proof -
  have c: "(word_of_nat (Suc n) :: u32) = word_of_nat n + 1" for n by simp
  show ?thesis
    using proposal_read [OF wf] wf_proposal_count(2) [OF wf] unfolding vote_ok_def
    by (auto simp: approve_def d Let_def res_simps c proposal_data_def [of rt pid "ns @ _"] simp del: of_nat_Suc)
qed


section \<open>Votes of a proposal\<close>

text \<open>The strings hashed to check a membership path.\<close>

definition vote_inputs :: "hash_fn \<Rightarrow> bytes \<Rightarrow> merkle_proof \<Rightarrow> bytes set" where
  "vote_inputs H secret mp =
     insert (LEAF_DOMAIN @ secret) (loop_inputs H (member_leaf H secret) (unat (fst mp)) (snd mp))"

text \<open>
  A proposal account after accepted approvals, with the secrets that voted; \<open>D\<close> holds the strings
  hashed for the membership checks.
\<close>

inductive voting :: "hash_fn \<Rightarrow> bytes set \<Rightarrow> account \<Rightarrow> bytes list \<Rightarrow> account \<Rightarrow> bool" for H D a where
  no_vote: "voting H D a [] a"
| vote: "voting H D a ss (account pr) \<Longrightarrow> approve H pr rider s mp pid = Inr [p, r]
    \<Longrightarrow> length s = 32 \<Longrightarrow> (\<forall>n \<in> set (snd mp). length n = 32) \<Longrightarrow> vote_inputs H s mp \<subseteq> D
    \<Longrightarrow> voting H D a (ss @ [s]) (ps_account p)"

lemma member_of_root:
  assumes D: "inj_on H D" "replicate 32 0 \<notin> H ` D" and len: "\<And>x. length (H x) = 32"
    and m: "\<forall>s \<in> set members. length s = 32"
      "node_inputs H (map ((@) LEAF_DOMAIN) members) TREE_DEPTH 0 \<subseteq> D"
    and s: "length s = 32" "\<forall>n \<in> set (snd mp). length n = 32" "vote_inputs H s mp \<subseteq> D"
    and eq: "root_from_path H (member_leaf H s) mp = merkle_root H (map (member_leaf H) members)"
  shows "s \<in> set members"
proof -
  have "LEAF_DOMAIN @ s \<in> set (map ((@) LEAF_DOMAIN) members)"
    by (rule fold_to_node [OF D len, where h = TREE_DEPTH and p = 0 and q = "snd mp" and i = "unat (fst mp)"])
      (use m s eq in \<open>auto simp: vote_inputs_def member_root_padded root_from_path_def root_loop_digest member_leaf_def LEAF_DOMAIN_def\<close>)
  then show ?thesis by auto
qed

lemma voting_state:
  assumes "voting H D a ss b" "wf_proposal rt pid []" "data a = proposal_data rt pid []" "\<And>x. length (H x) = 32"
  shows "wf_proposal rt pid (map (\<lambda>s. vote_nullifier H s pid) ss)
    \<and> b = a\<lparr> data := proposal_data rt pid (map (\<lambda>s. vote_nullifier H s pid) ss) \<rparr>
    \<and> distinct (map (\<lambda>s. vote_nullifier H s pid) ss)
    \<and> (\<forall>s \<in> set ss. \<exists>mp. length s = 32 \<and> (\<forall>n \<in> set (snd mp). length n = 32) \<and> vote_inputs H s mp \<subseteq> D
         \<and> root_from_path H (member_leaf H s) mp = rt)"
  using assms(1)
proof induction
  case no_vote
  from assms(2,3) show ?case by simp
next
  case (vote ss pr rider s mp pid' p r)
  let ?ns = "map (\<lambda>s. vote_nullifier H s pid) ss"
  have wf: "wf_proposal rt pid ?ns" and d: "data (account pr) = proposal_data rt pid ?ns"
    using vote.IH by auto
  from vote.hyps(2) approve_iff [OF wf d, of H rider s mp pid' "[p, r]"]
  have "vote_ok H rt pid ?ns rider s mp" "length (proposal_data rt pid (?ns @ [vote_nullifier H s pid])) \<le> DATA_MAX_LENGTH"
    "p = post_new ((account pr)\<lparr> data := proposal_data rt pid (?ns @ [vote_nullifier H s pid]) \<rparr>)" by auto
  with vote.IH vote.hyps(3-5) wf show ?case
    by (cases mp) (auto simp: vote_ok_def wf_proposal_def vote_nullifier_def assms(4))
qed

text \<open>
  C7: no more votes than members.  When every enrolled leaf is the leaf of a member secret, and the
  hash neither collides nor hits the empty leaf on the strings hashed, the votes of a proposal come
  from pairwise different members, the counter is their number, and so it never exceeds the number
  of members.
\<close>

theorem votes_bounded_by_members:
  assumes "voting H D a ss b"
    and "data a = proposal_data (merkle_root H (map (member_leaf H) members)) pid []" and "length pid = 32"
    and "inj_on H D" "replicate 32 0 \<notin> H ` D" "\<forall>x. length (H x) = 32"
    and "\<forall>s \<in> set members. length s = 32"
    and "node_inputs H (map ((@) LEAF_DOMAIN) members) TREE_DEPTH 0 \<subseteq> D"
  shows "set ss \<subseteq> set members \<and> distinct ss \<and> unat (u32_at 64 (data b)) = length ss
    \<and> unat (u32_at 64 (data b)) \<le> length members"
proof -
  let ?rt = "merkle_root H (map (member_leaf H) members)"
  let ?ns = "map (\<lambda>s. vote_nullifier H s pid) ss"
  have "length ?rt = 32" using assms(6) by (rule length_merkle_root)
  then have wf0: "wf_proposal ?rt pid []"
    using assms(3) by (simp add: wf_proposal_def proposal_data_def DATA_MAX_LENGTH_def)
  note st = voting_state [OF assms(1) wf0 assms(2)]
  have wf: "wf_proposal ?rt pid ?ns" and b: "data b = proposal_data ?rt pid ?ns" and dist: "distinct ?ns"
    using st assms(6) by auto
  have sub: "set ss \<subseteq> set members"
    using st member_of_root [OF assms(4,5) _ assms(7,8)] assms(6) by blast
  have ds: "distinct ss" using dist by (simp add: distinct_map)
  have c: "unat (u32_at 64 (data b)) = length ss"
    using proposal_read(4) [OF wf] wf_proposal_count(2) [OF wf] by (simp add: b)
  have "length ss \<le> length members"
    using card_mono [OF _ sub] distinct_card [OF ds] card_length [of members] by simp
  with sub ds c show ?thesis by simp
qed



section \<open>Limits of the scheme\<close>

lemma cast_vote:
  assumes "voting H D a ss b" "data b = proposal_data rt pid ns" "wf_proposal rt pid ns"
    and "root_from_path H (member_leaf H s) mp = rt" "vote_nullifier H s pid \<notin> set ns"
    and "length s = 32" "\<forall>n \<in> set (snd mp). length n = 32" "vote_inputs H s mp \<subseteq> D"
    and "length (vote_nullifier H s pid) = 32" "length ns < 3000"
  obtains b' where "voting H D a (ss @ [s]) b'" "data b' = proposal_data rt pid (ns @ [vote_nullifier H s pid])"
    "wf_proposal rt pid (ns @ [vote_nullifier H s pid])"
proof -
  define pr where "pr = new_account_meta b False []"
  define rider where "rider = new_account_meta (default_account\<lparr> balance := 1 \<rparr>) True
    (for_regular_private_account H (npk_of_nsk H s) VOTE_IDENTIFIER)"
  let ?ns = "ns @ [vote_nullifier H s pid]"
  have "default_account\<lparr> balance := 1 \<rparr> \<noteq> default_account" by (simp add: default_account_def)
  then have ok: "vote_ok H rt pid ns rider s mp" using assms(4,5) by (simp add: vote_ok_def rider_def)
  have wf: "wf_proposal rt pid ?ns"
    using assms(3,9,10) length_concat_32 [of ?ns] by (auto simp: wf_proposal_def proposal_data_def DATA_MAX_LENGTH_def)
  then have "length (proposal_data rt pid ?ns) \<le> DATA_MAX_LENGTH" by (simp add: wf_proposal_def)
  with ok approve_iff [OF assms(3), of pr H rider s mp pid] assms(2)
  have "approve H pr rider s mp pid = Inr [post_new (b\<lparr> data := proposal_data rt pid ?ns \<rparr>), post_new (account rider)]"
    by (simp add: pr_def)
  from voting.vote [OF _ this assms(6-8), of a ss] assms(1)
  have v: "voting H D a (ss @ [s]) (b\<lparr> data := proposal_data rt pid ?ns \<rparr>)" by (simp add: pr_def)
  show thesis by (rule that [OF v _ wf]) simp
qed

lemma length_lnode: "(\<And>x. length (H x) = 32) \<Longrightarrow> (\<And>p. length (f p) = 32) \<Longrightarrow> length (lnode H f h p) = 32"
  by (cases h) simp_all

lemma merkle_path_lengths:
  assumes "merkle_path H leaves i = Some mp" "i < 2 ^ TREE_DEPTH"
    and "\<And>x. length (H x) = 32" "\<forall>l \<in> set leaves. length l = 32"
  shows "\<forall>n \<in> set (snd mp). length n = 32"
proof -
  have f: "lnode H (leaf_at leaves) 0 = leaf_at leaves" by (rule ext) simp
  have "length (leaf_at leaves p) = 32" for p using assms(4) by (simp add: leaf_at_def EMPTY_LEAF_def)
  then have "length (lnode H (leaf_at leaves) h p) = 32" for h p using assms(3) by (intro length_lnode)
  with assms(1,2) merkle_path_loop_eq [of 0 TREE_DEPTH TREE_DEPTH i H "leaf_at leaves"] f
  show ?thesis by (auto simp: merkle_path_def resize_map)
qed

text \<open>A path may be prolonged below a leaf, because the guest does not check its length.\<close>

lemma path_below_leaf:
  assumes "leaf = hash_pair H l r" "unat (fst mp) < 2 ^ 31"
  shows "root_from_path H l (2 * fst mp, r # snd mp) = root_from_path H leaf mp"
    and "root_from_path H r (2 * fst mp + 1, l # snd mp) = root_from_path H leaf mp"
proof -
  have "unat (2 * fst mp) = 2 * unat (fst mp)" "unat (2 * fst mp + 1) = 2 * unat (fst mp) + 1"
    using assms(2) by (simp_all add: unat_word_ariths unat_mult_lem unat_plus_simple)
  then show "root_from_path H l (2 * fst mp, r # snd mp) = root_from_path H leaf mp"
    "root_from_path H r (2 * fst mp + 1, l # snd mp) = root_from_path H leaf mp"
    by (simp_all add: root_from_path_def assms(1))
qed

text \<open>
  C10: one enrolled leaf can vote twice.  The guest checks neither the length of a membership path
  nor the shape of an enrolled leaf: whoever enrolls the hash of two leaves as a single leaf votes
  with both of the secrets, so that the counter exceeds the number of enrolled members.
\<close>

theorem one_leaf_two_votes:
  assumes "i < length leaves" "i < 32" and "leaves ! i = hash_pair H (member_leaf H s) (member_leaf H t)"
    and "data a = proposal_data (merkle_root H leaves) pid []" "length pid = 32"
    and "\<forall>x. length (H x) = 32" "\<forall>l \<in> set leaves. length l = 32" "length s = 32" "length t = 32"
    and "vote_nullifier H s pid \<noteq> vote_nullifier H t pid"
  shows "\<exists>b. voting H UNIV a [s, t] b \<and> u32_at 64 (data b) = 2"
proof -
  have i: "i < 2 ^ TREE_DEPTH" using assms(2) by (simp add: TREE_DEPTH_def)
  obtain path where p: "merkle_path H leaves i = Some (word_of_nat i, path)"
    "root_from_path H (leaf_at leaves i) (word_of_nat i, path) = merkle_root H leaves"
    by (rule merkle_path_correct [OF i])
  have small: "unat (fst (word_of_nat i :: u32, path)) < 2 ^ 31" using assms(2) by (simp add: unat_of_nat)
  have len: "\<forall>n \<in> set path. length n = 32" using merkle_path_lengths [OF p(1) i] assms(6,7) by simp
  note below = path_below_leaf [OF assms(3) small]
  let ?rt = "merkle_root H leaves"
  have "length ?rt = 32" using assms(6) by (rule length_merkle_root)
  then have wf: "wf_proposal ?rt pid []" using assms(5) by (simp add: wf_proposal_def proposal_data_def DATA_MAX_LENGTH_def)
  have r: "root_from_path H (member_leaf H s) (2 * word_of_nat i, member_leaf H t # path) = ?rt"
    "root_from_path H (member_leaf H t) (2 * word_of_nat i + 1, member_leaf H s # path) = ?rt"
    using below p(2) assms(1) by (simp_all add: leaf_at_def)
  have l: "length (member_leaf H x) = 32" "length (vote_nullifier H x pid) = 32" for x
    using assms(6) by (simp_all add: member_leaf_def vote_nullifier_def)
  obtain b1 where b1: "voting H UNIV a [s] b1" "data b1 = proposal_data ?rt pid [vote_nullifier H s pid]"
    "wf_proposal ?rt pid [vote_nullifier H s pid]"
    by (rule cast_vote [where D = UNIV, OF voting.no_vote assms(4) wf r(1)]) (use assms(8) len l in auto)
  obtain b2 where b2: "voting H UNIV a [s, t] b2"
    "data b2 = proposal_data ?rt pid [vote_nullifier H s pid, vote_nullifier H t pid]"
    "wf_proposal ?rt pid [vote_nullifier H s pid, vote_nullifier H t pid]"
    by (rule cast_vote [OF b1(1,2,3) r(2)]) (use assms(9,10) len l in auto)
  from b2(1) proposal_read(4) [OF b2(3)] show ?thesis by (auto simp: b2(2))
qed

section \<open>Registry and treasury\<close>

definition registry_data :: "hash_fn \<Rightarrow> bytes list \<Rightarrow> bytes" where
  "registry_data H leaves = merkle_root H leaves @ to_le_bytes (word_of_nat (length leaves) :: u32) @ concat leaves"

lemma registry_read:
  assumes "\<forall>x. length (H x) = 32" "\<forall>l \<in> set leaves. length l = 32" "length (registry_data H leaves) \<le> DATA_MAX_LENGTH"
  defines "d \<equiv> registry_data H leaves"
  shows "length d \<ge> REGISTRY_HEADER_LEN" "read_chunks (unat (u32_at 32 d)) d REGISTRY_HEADER_LEN = Some leaves"
proof -
  have r: "length (merkle_root H leaves) = 32" using assms(1) by (rule length_merkle_root)
  then show "length d \<ge> REGISTRY_HEADER_LEN" by (simp add: d_def registry_data_def REGISTRY_HEADER_LEN_def)
  have "length leaves < 2 ^ 32"
    using assms(3) length_concat_32 [OF assms(2)] by (simp add: registry_data_def DATA_MAX_LENGTH_def)
  then have "unat (u32_at 32 d) = length leaves" using r by (simp add: d_def registry_data_def u32_at_def unat_of_nat)
  with read_chunks_concat [OF assms(2), of "merkle_root H leaves @ to_le_bytes (word_of_nat (length leaves) :: u32)" "[]"] r
  show "read_chunks (unat (u32_at 32 d)) d REGISTRY_HEADER_LEN = Some leaves"
    by (simp add: d_def registry_data_def REGISTRY_HEADER_LEN_def)
qed

text \<open>
  C11: enrolment appends.  On a fresh or well-formed registry with room, \<open>enroll\<close> succeeds without
  any authorization check, appends the leaf and recomputes the root, and claims the registry when
  it has no owner.  From the 33rd member on the leaf is stored but the root stays the same: the new
  member is not in the tree.
\<close>

theorem enroll_appends:
  assumes "leaves = [] \<and> data (account reg) = [] \<or> data (account reg) = registry_data H leaves"
    and "\<forall>x. length (H x) = 32" "\<forall>l \<in> set (leaves @ [leaf]). length l = 32"
    and "length (registry_data H (leaves @ [leaf])) \<le> DATA_MAX_LENGTH"
  shows "enroll H reg leaf = Inr [\<lparr> ps_account = (account reg)\<lparr> data := registry_data H (leaves @ [leaf]) \<rparr>,
      ps_claim = (if program_owner (account reg) = DEFAULT_PROGRAM_ID then Some Claim_Authorized else None) \<rparr>]
    \<and> (32 \<le> length leaves \<longrightarrow> merkle_root H (leaves @ [leaf]) = merkle_root H leaves)"
proof -
  have "length (merkle_root H xs) = 32" for xs using assms(2) by (rule length_merkle_root)
  then have "length (registry_data H leaves) \<le> DATA_MAX_LENGTH" using assms(4) by (simp add: registry_data_def)
  then have rd: "(if REGISTRY_HEADER_LEN \<le> length (data (account reg))
      then read_chunks (unat (u32_at 32 (data (account reg)))) (data (account reg)) REGISTRY_HEADER_LEN else Some []) = Some leaves"
    using assms(1) registry_read [OF assms(2), of leaves] assms(3) by (auto simp: REGISTRY_HEADER_LEN_def)
  have "enroll H reg leaf = Inr [\<lparr> ps_account = (account reg)\<lparr> data := registry_data H (leaves @ [leaf]) \<rparr>,
      ps_claim = (if program_owner (account reg) = DEFAULT_PROGRAM_ID then Some Claim_Authorized else None) \<rparr>]"
    using assms(4) unfolding enroll_def Let_def rd registry_data_def
    by (simp add: into_data_def data_try_from_def new_claimed_def post_new_def)
  then show ?thesis by (simp add: merkle_root_def resize_def TREE_DEPTH_def)
qed

text \<open>
  The release of the treasury.  \<open>execute\<close> succeeds exactly if its first account has a header's
  worth of data whose counter field reaches the threshold; it then asks the owner of the treasury
  to move the whole balance, in the name of the program.  The threshold is the caller's, and the
  owner, the id and the votes of the first account play no role: with threshold zero any such
  account releases any treasury of the program.
\<close>

lemma execute_characterised:
  "execute enc_at proposal treasury recipient threshold seed = Inr (posts, calls) \<longleftrightarrow>
     PROPOSAL_HEADER_LEN \<le> length (data (account proposal))
   \<and> unat threshold \<le> unat (u32_at 64 (data (account proposal)))
   \<and> posts = unchanged_post_states [proposal, treasury, recipient]
   \<and> calls = [\<lparr> cc_program_id = program_owner (account treasury),
       cc_pre_states = [treasury\<lparr> is_authorized := True \<rparr>, recipient],
       cc_instruction_data = enc_at (AT_Transfer (balance (account treasury))), cc_pda_seeds = [seed] \<rparr>]"
  by (auto simp: execute_def Let_def res_simps unchanged_post_states_def)

section \<open>Contract\<close>

lemma msig_dispatch_neutral:
  assumes "msig_dispatch H enc_at pres instr = Inr (posts, calls)"
  shows "list_all2 (\<lambda>a b. frame_ok a b \<and> balance b = balance a) (map account pres) (map ps_account posts)"
proof (cases instr)
  case (CreateProposal r pid)
  with assms show ?thesis by (auto simp: msig_dispatch_def create_proposal_def res_simps neutral_data)
next
  case (Approve secret mp pid)
  with assms show ?thesis by (auto simp: msig_dispatch_def approve_def Let_def res_simps neutral_data)
next
  case (Enroll leaf)
  with assms show ?thesis by (auto simp: msig_dispatch_def enroll_def Let_def res_simps neutral_data split: if_splits)
next
  case (InitTreasury seed t)
  with assms show ?thesis by (auto simp: msig_dispatch_def init_treasury_def Let_def res_simps neutral_data)
next
  case (Execute t seed)
  with assms show ?thesis by (auto simp: msig_dispatch_def execute_def Let_def res_simps neutral_data)
qed

interpretation msig: balance_neutral_guest "msig_main H dec enc_at" for H dec enc_at
proof
  fix self caller pres words out
  assume run: "msig_main H dec enc_at self caller pres words = Inr out"
  then show "echoes self caller pres words out" by (auto simp: msig_main_def res_simps)
  from run show "list_all2 (\<lambda>a b. frame_ok a b \<and> balance b = balance a)
      (map account pres) (map ps_account (post_states out))"
    by (auto simp: msig_main_def res_simps dest: msig_dispatch_neutral)
qed

section \<open>Witnesses\<close>

text \<open>A toy hash: 32 bytes, decided by the last byte of each half of a node.\<close>

definition z :: "u8 \<Rightarrow> bytes" where
  "z n = replicate 31 0 @ [n]"

definition ex_hash32 :: hash_fn where
  "ex_hash32 bs = z (if length bs < 32 then 0 else 2 * (bs ! 31) + 5 * last bs + 9)"

definition ex_secret :: bytes where
  "ex_secret = replicate 32 182"

definition ex_pid :: bytes where
  "ex_pid = replicate 32 1"

definition ex_strings :: "bytes list" where
  "ex_strings = (LEAF_DOMAIN @ ex_secret) # map (\<lambda>(a, b). z a @ z b)
     [(0, 0), (9, 9), (72, 72), (1, 1), (3, 0), (15, 9), (84, 72), (25, 1), (64, 16)]"

lemma ex_hash32_z: "ex_hash32 (z a @ z b) = z (2 * a + 5 * b + 9)" "length (z a) = 32" "length (ex_hash32 bs) = 32"
  by (simp_all add: ex_hash32_def z_def nth_append)

lemma ex_hash32_leaf: "ex_hash32 (LEAF_DOMAIN @ ex_secret) = z 3"
  by (simp add: ex_hash32_def ex_secret_def LEAF_DOMAIN_def nth_append z_def)

lemma z_eq: "z a = z b \<longleftrightarrow> a = b"
  by (simp add: z_def)

lemma ex_strings_hashed: "map ex_hash32 ex_strings = map z [3, 9, 72, 1, 16, 15, 84, 25, 64, 217]"
  by (simp add: ex_strings_def ex_hash32_z ex_hash32_leaf z_eq)

lemma ex_hash32_ok: "inj_on ex_hash32 (set ex_strings)" "replicate 32 0 \<notin> ex_hash32 ` set ex_strings"
proof -
  have "distinct (map ex_hash32 ex_strings)" unfolding ex_strings_hashed by (simp add: z_eq)
  then show "inj_on ex_hash32 (set ex_strings)" by (simp add: distinct_map)
  have "replicate 32 0 = z 0" by (simp add: z_def numeral_eq_Suc)
  moreover have "z 0 \<notin> set (map ex_hash32 ex_strings)" unfolding ex_strings_hashed by (simp add: z_eq)
  ultimately show "replicate 32 0 \<notin> ex_hash32 ` set ex_strings" by simp
qed

text \<open>At height \<open>h\<close> of the example tree the leftmost node is \<open>a\<close> and all others are \<open>b\<close>.\<close>

definition ex_level :: "nat \<Rightarrow> u8 \<Rightarrow> u8 \<Rightarrow> bool" where
  "ex_level h a b \<longleftrightarrow>
     (\<forall>p. padded_node ex_hash32 [LEAF_DOMAIN @ ex_secret] h p = (if p = 0 then z a else z b)
        \<and> node_inputs ex_hash32 [LEAF_DOMAIN @ ex_secret] h p \<subseteq> set ex_strings)"

lemma ex_level_0: "ex_level 0 3 0"
  by (simp add: ex_level_def ex_hash32_leaf ex_strings_def z_def numeral_eq_Suc)

lemma ex_level_Suc:
  "ex_level h a b \<Longrightarrow> z a @ z b \<in> set ex_strings \<Longrightarrow> z b @ z b \<in> set ex_strings \<Longrightarrow>
     a' = 2 * a + 5 * b + 9 \<Longrightarrow> b' = 2 * b + 5 * b + 9 \<Longrightarrow> ex_level (Suc h) a' b'"
  by (auto simp: ex_level_def ex_hash32_z)

lemma ex_in_strings:
  "(a, b) \<in> {(0, 0), (9, 9), (72, 72), (1, 1), (3, 0), (15, 9), (84, 72), (25, 1), (64, 16)} \<Longrightarrow>
     z a @ z b \<in> set ex_strings"
  by (auto simp: ex_strings_def)

lemma ex_level_4: "ex_level 4 64 16"
proof -
  have 1: "ex_level (Suc 0) 15 9" by (rule ex_level_Suc [OF ex_level_0]) (simp_all add: ex_in_strings)
  have 2: "ex_level (Suc (Suc 0)) 84 72" by (rule ex_level_Suc [OF 1]) (simp_all add: ex_in_strings)
  have 3: "ex_level (Suc (Suc (Suc 0))) 25 1" by (rule ex_level_Suc [OF 2]) (simp_all add: ex_in_strings)
  have "ex_level (Suc (Suc (Suc (Suc 0)))) 64 16" by (rule ex_level_Suc [OF 3]) (simp_all add: ex_in_strings)
  then show ?thesis by (simp add: numeral_eq_Suc)
qed

lemma ex_root:
  "padded_node ex_hash32 [LEAF_DOMAIN @ ex_secret] TREE_DEPTH 0 = z 217"
  "node_inputs ex_hash32 [LEAF_DOMAIN @ ex_secret] TREE_DEPTH 0 \<subseteq> set ex_strings"
proof -
  have T: "TREE_DEPTH = Suc 4" by (simp add: TREE_DEPTH_def)
  have n: "padded_node ex_hash32 [LEAF_DOMAIN @ ex_secret] 4 0 = z 64"
    "padded_node ex_hash32 [LEAF_DOMAIN @ ex_secret] 4 1 = z 16"
    "node_inputs ex_hash32 [LEAF_DOMAIN @ ex_secret] 4 p \<subseteq> set ex_strings" for p
    using ex_level_4 by (simp_all add: ex_level_def)
  show "padded_node ex_hash32 [LEAF_DOMAIN @ ex_secret] TREE_DEPTH 0 = z 217"
    unfolding T padded_node.simps using n by (simp add: ex_hash32_z z_eq)
  show "node_inputs ex_hash32 [LEAF_DOMAIN @ ex_secret] TREE_DEPTH 0 \<subseteq> set ex_strings"
    unfolding T node_inputs.simps using n by (simp add: ex_in_strings)
qed

definition ex_path :: merkle_proof where
  "ex_path = (0, map z [0, 9, 72, 1, 16])"

lemma ex_member: "root_from_path ex_hash32 (member_leaf ex_hash32 ex_secret) ex_path = z 217"
  "vote_inputs ex_hash32 ex_secret ex_path \<subseteq> set ex_strings"
proof -
  have "z 3 @ z 0 \<in> set ex_strings" "z 15 @ z 9 \<in> set ex_strings" "z 84 @ z 72 \<in> set ex_strings"
    "z 537 @ z 1 \<in> set ex_strings" "z 64 @ z 16 \<in> set ex_strings"
    by (simp_all add: ex_in_strings)
  then show "vote_inputs ex_hash32 ex_secret ex_path \<subseteq> set ex_strings"
    by (simp add: vote_inputs_def ex_path_def member_leaf_def ex_hash32_leaf ex_hash32_z ex_strings_def z_eq Let_def)
qed (simp add: root_from_path_def ex_path_def member_leaf_def ex_hash32_leaf ex_hash32_z hash_pair_def z_eq)

definition ex_proposal :: account where
  "ex_proposal = default_account\<lparr> data := proposal_data (z 217) ex_pid [] \<rparr>"

lemma ex_proposal_wf: "wf_proposal (z 217) ex_pid []" "length ex_pid = 32" "length ex_secret = 32"
  by (simp_all add: wf_proposal_def proposal_data_def ex_hash32_z ex_pid_def ex_secret_def DATA_MAX_LENGTH_def)

lemma ex_member_root: "merkle_root ex_hash32 [member_leaf ex_hash32 ex_secret] = z 217"
  using member_root_padded [of ex_hash32 "[ex_secret]"] ex_root(1) by simp


theorem votes_bounded_by_members_witness:
  "\<exists>b. voting ex_hash32 (set ex_strings) ex_proposal [ex_secret] b \<and> unat (u32_at 64 (data b)) = 1"
proof -
  have d: "data ex_proposal = proposal_data (z 217) ex_pid []" by (simp add: ex_proposal_def)
  obtain b where b: "voting ex_hash32 (set ex_strings) ex_proposal [ex_secret] b"
    by (rule cast_vote [OF voting.no_vote d ex_proposal_wf(1) ex_member(1) _ ex_proposal_wf(3) _ ex_member(2)])
      (auto simp: ex_path_def ex_hash32_z vote_nullifier_def)
  from votes_bounded_by_members [OF b, of "[ex_secret]" ex_pid] ex_proposal_wf ex_hash32_ok ex_root(2) ex_hash32_z(3) b
  show ?thesis by (auto simp: d ex_member_root)
qed

theorem one_leaf_two_votes_witness:
  "\<exists>a b. voting ex_hash32 UNIV a [replicate 32 1, replicate 32 2] b \<and> u32_at 64 (data b) = 2"
proof -
  define leaf where "leaf = hash_pair ex_hash32 (member_leaf ex_hash32 (replicate 32 1)) (member_leaf ex_hash32 (replicate 32 2))"
  define a where "a = default_account\<lparr> data := proposal_data (merkle_root ex_hash32 [leaf]) ex_pid [] \<rparr>"
  have "vote_nullifier ex_hash32 (replicate 32 1) ex_pid \<noteq> vote_nullifier ex_hash32 (replicate 32 2) ex_pid"
    by (simp add: vote_nullifier_def ex_hash32_def NULL_DOMAIN_def ex_pid_def nth_append z_eq)
  moreover have "length leaf = 32" by (simp add: leaf_def hash_pair_def ex_hash32_z)
  ultimately have "\<exists>b. voting ex_hash32 UNIV a [replicate 32 1, replicate 32 2] b \<and> u32_at 64 (data b) = 2"
    using one_leaf_two_votes [of 0 "[leaf]" ex_hash32 "replicate 32 1" "replicate 32 2" a ex_pid] ex_hash32_z(3)
    by (simp add: leaf_def a_def ex_proposal_wf)
  then show ?thesis by blast
qed

theorem enroll_appends_witness:
  "is_ok (enroll ex_hash32 (new_account_meta default_account True []) (z 5))"
  using enroll_appends [of "[]" "new_account_meta default_account True []" ex_hash32 "z 5"] ex_hash32_z
  by (simp add: is_ok_iff registry_data_def length_merkle_root DATA_MAX_LENGTH_def)

end
