(* ===== verification/Treasury.thy ===== *)
theory Treasury
  imports Examples Multisig
begin

text \<open>
  The release of a multisig treasury as a transaction on the ledger: the multisig guest and the
  authenticated transfer guest run in one chain of calls, evaluated on a small ledger.
\<close>

section \<open>The ledger\<close>

definition tr_decode :: "instruction_data \<Rightarrow> msig_instruction option" where
  "tr_decode ws = (case ws of [n] \<Rightarrow> Some (Execute n [3]) | _ \<Rightarrow> None)"

definition tr_encode :: "auth_transfer_instruction \<Rightarrow> instruction_data" where
  "tr_encode i = (case i of AT_Transfer n \<Rightarrow> [ucast n] | AT_Initialize \<Rightarrow> [])"

definition tr_rt :: runtime where
  "tr_rt = install [20] (msig_main ex_hash tr_decode tr_encode) ex_rt"

text \<open>A proposal nobody has voted for, its treasury, and the receiver.\<close>

definition tr_proposal :: account where
  "tr_proposal = \<lparr> program_owner = [20], balance = 0, data = proposal_data (replicate 32 1) (replicate 32 2) [], nonce = 0 \<rparr>"

definition tr_treasury :: account_id where
  "tr_treasury = for_public_pda ex_hash [20] [3]"

definition tr_state :: v03_state where
  "tr_state = ex_state\<lparr> public_state := fmupd [4, 4] tr_proposal (fmupd tr_treasury (ex_account 100)
       (fmupd ex_bob (ex_account 1) fmempty)),
     programs := fmupd [20] \<lparr> prog_id = [20], prog_elf = [] \<rparr> (programs ex_state) \<rparr>"

text \<open>A transaction without any signature that asks for the release with threshold zero.\<close>

definition tr_tx :: public_transaction where
  "tr_tx = \<lparr> pt_message = \<lparr> pm_program_id = [20], pm_account_ids = [[4, 4], tr_treasury, ex_bob],
      pm_nonces = [], pm_instruction_data = [0] \<rparr>, pt_witness_set = [] \<rparr>"

section \<open>The run\<close>

lemma tr_treasury_eq: "tr_treasury = [3]"
  by (simp add: tr_treasury_def for_public_pda_def public_pda_preimage_def ex_hash_def)

lemma tr_proposal_sel: "program_owner tr_proposal = [20]" "balance tr_proposal = 0" "nonce tr_proposal = 0"
  "length (data tr_proposal) = 68" "u32_at 64 (data tr_proposal) = 0"
  by (simp_all add: tr_proposal_def proposal_data_def u32_at_def)

lemma tr_rt_sel: "rt_hash tr_rt = ex_hash"
  "prog_id prog = [20] \<Longrightarrow> rt_execute tr_rt prog caller pres words
     = map_err ProgramExecutionFailed (msig_main ex_hash tr_decode tr_encode [20] caller pres words)"
  "prog_id prog = [7] \<Longrightarrow> rt_execute tr_rt prog caller pres words
     = map_err ProgramExecutionFailed (at_main ex_decode [7] caller pres words)"
  by (simp_all add: tr_rt_def install_def ex_rt_sel)

definition tr_pres :: "account_meta list" where
  "tr_pres = [new_account_meta tr_proposal False [4, 4], new_account_meta (ex_account 100) False [3],
     new_account_meta (ex_account 1) False [2, 2]]"

definition tr_pays :: "account_meta list" where
  "tr_pays = [new_account_meta (ex_account 100) True [3], new_account_meta (ex_account 1) False [2, 2]]"

definition tr_call :: chained_call where
  "tr_call = \<lparr> cc_program_id = [7], cc_pre_states = tr_pays, cc_instruction_data = [100], cc_pda_seeds = [[3]] \<rparr>"

definition tr_output :: program_output where
  "tr_output = with_chained_calls (program_output_new [20] None [0] tr_pres (unchanged_post_states tr_pres)) [tr_call]"

lemma tr_msig: "msig_main ex_hash tr_decode tr_encode [20] None tr_pres [0] = Inr tr_output"
  by (simp add: msig_main_def msig_dispatch_def read_lee_inputs_def tr_decode_def tr_pres_def execute_def Let_def
      tr_proposal_sel PROPOSAL_HEADER_LEN_def tr_output_def tr_call_def tr_pays_def unchanged_post_states_def tr_encode_def
      new_account_meta_def ex_account_def)

definition tr_paid :: "post_state list" where
  "tr_paid = [post_new (ex_account 0), post_new (ex_account 101)]"

lemma tr_at: "at_main ex_decode [7] (Some [20]) tr_pays [100] = Inr (program_output_new [7] (Some [20]) [100] tr_pays tr_paid)"
  by (simp add: tr_pays_def tr_paid_def at_main_def read_lee_inputs_def ex_decode_def at_transfer_def
      checked_sub_def checked_add_def ex_account_def Let_def ex_not_default)

lemma tr_not_default: "[20] \<noteq> DEFAULT_PROGRAM_ID" "DEFAULT_PROGRAM_ID \<noteq> [20]"
  by (simp_all add: DEFAULT_PROGRAM_ID_def numeral_eq_Suc)

lemma tr_wb: "validate_execution tr_pres (unchanged_post_states tr_pres) [20] = Inr ()"
  "validate_execution tr_pays tr_paid [7] = Inr ()"
  by (simp_all add: validate_execution_Inr well_behaved_def tr_pres_def tr_pays_def tr_paid_def pair_ok_def total_def
      ex_account_def ex_not_default tr_not_default tr_proposal_sel unchanged_post_states_def)

definition tr_diff1 :: diff_map where
  "tr_diff1 = fmupd [2, 2] (ex_account 1) (fmupd [3] (ex_account 100) (fmupd [4, 4] tr_proposal fmempty))"

definition tr_diff :: diff_map where
  "tr_diff = fmupd [2, 2] (ex_account 101) (fmupd [3] (ex_account 0) tr_diff1)"

lemma tr_lookup:
  "get_account_by_id tr_state [4, 4] = tr_proposal" "get_account_by_id tr_state [3] = ex_account 100"
  "get_account_by_id tr_state [2, 2] = ex_account 1"
  "fmlookup (programs tr_state) [20] = Some \<lparr> prog_id = [20], prog_elf = [] \<rparr>"
  "fmlookup (programs tr_state) [7] = Some \<lparr> prog_id = [7], prog_elf = [] \<rparr>"
  by (simp_all add: tr_state_def get_account_by_id_def tr_treasury_eq ex_bob_def ex_state_def)

lemma tr_call1:
  "process_call tr_rt tr_state 0 0 \<lparr> cc_program_id = [20], cc_pre_states = tr_pres, cc_instruction_data = [0], cc_pda_seeds = [] \<rparr>
     \<lparr> cd_program_id = None, cd_authorized_accounts = {} \<rparr> fmempty = Inr (tr_output, tr_diff1)"
proof -
  have "for_each (check_pre_state tr_state fmempty (\<lambda>i. False)) tr_pres = Inr ()"
    by (simp add: tr_pres_def check_pre_state_def expected_pre_def tr_lookup Let_def)
  moreover have "apply_claims ex_hash [20] (zip tr_pres (unchanged_post_states tr_pres)) = Inr (unchanged_post_states tr_pres)"
    "update_diff tr_pres (unchanged_post_states tr_pres) fmempty = tr_diff1"
    by (simp_all add: tr_pres_def unchanged_post_states_def apply_claim_def update_diff_def tr_diff1_def)
  ultimately show ?thesis
    using tr_wb(1) by (simp add: process_call_def tr_lookup tr_rt_sel tr_msig compute_public_authorized_pdas_def
        tr_output_def with_chained_calls_def program_output_new_def)
qed

lemma tr_call2:
  "process_call tr_rt tr_state 0 0 tr_call \<lparr> cd_program_id = Some [20], cd_authorized_accounts = {} \<rparr> tr_diff1
   = Inr (program_output_new [7] (Some [20]) [100] tr_pays tr_paid, tr_diff)"
proof -
  have "for_each (check_pre_state tr_state tr_diff1 (\<lambda>i. i = [3])) tr_pays = Inr ()"
    by (simp add: tr_pays_def check_pre_state_def expected_pre_def tr_diff1_def Let_def)
  moreover have "apply_claims ex_hash [7] (zip tr_pays tr_paid) = Inr tr_paid" "update_diff tr_pays tr_paid tr_diff1 = tr_diff"
    by (simp_all add: tr_pays_def tr_paid_def apply_claim_def update_diff_def tr_diff_def)
  moreover have "compute_public_authorized_pdas ex_hash (Some [20]) [[3]] = {[3]}"
    using tr_treasury_eq by (simp add: compute_public_authorized_pdas_def tr_treasury_def)
  ultimately show ?thesis
    using tr_wb(2) by (simp add: process_call_def tr_lookup tr_rt_sel tr_call_def tr_at)
qed

lemma tr_run: "run_calls tr_rt tr_state 0 0 0 (initial_queue tr_state [] (pt_message tr_tx)) fmempty = Inr tr_diff"
proof -
  have "initial_queue tr_state [] (pt_message tr_tx) =
      [(\<lparr> cc_program_id = [20], cc_pre_states = tr_pres, cc_instruction_data = [0], cc_pda_seeds = [] \<rparr>,
        \<lparr> cd_program_id = None, cd_authorized_accounts = {} \<rparr>)]"
    by (simp add: initial_queue_def input_pre_states_def tr_tx_def tr_pres_def tr_lookup tr_treasury_eq ex_bob_def)
  moreover have "next_calls \<lparr> cc_program_id = [20], cc_pre_states = tr_pres, cc_instruction_data = [0], cc_pda_seeds = [] \<rparr>
      \<lparr> cd_program_id = None, cd_authorized_accounts = {} \<rparr> tr_output
    = [(tr_call, \<lparr> cd_program_id = Some [20], cd_authorized_accounts = {} \<rparr>)]"
    by (simp add: next_calls_def tr_output_def authorized_after_def tr_pres_def with_chained_calls_def)
  moreover have "next_calls tr_call \<lparr> cd_program_id = Some [20], cd_authorized_accounts = {} \<rparr>
      (program_output_new [7] (Some [20]) [100] tr_pays tr_paid) = []"
    by (simp add: next_calls_def)
  ultimately show ?thesis by (simp add: tr_call1 tr_call2 MAX_NUMBER_CHAINED_CALLS_def)
qed

lemma tr_claimed: "check_claimed tr_state tr_diff = Inr ()"
  by (simp add: check_claimed_def for_each_Inr ensure_Inr unclaimed_def tr_diff_def tr_diff1_def tr_lookup Let_def
      ex_account_def tr_proposal_sel ex_not_default tr_not_default)

lemma tr_transition:
  obtains s' where "transition_from_public_transaction tr_rt tr_tx tr_state 0 0 = Inr (Some s')"
    "public_state s' = fmadd (public_state tr_state) tr_diff"
proof -
  have d: "from_public_transaction tr_rt tr_tx tr_state 0 0 = Inr \<lparr> sd_signer_account_ids = [],
      sd_public_diff = tr_diff, sd_new_commitments = [], sd_new_nullifiers = [], sd_program = None \<rparr>"
    using tr_run tr_claimed
    by (simp add: from_public_transaction_def tr_tx_def witness_is_valid_for_def signer_account_ids_def check_nonces_def
        tr_treasury_eq ex_bob_def Let_def)
  obtain cs where "cs_extend ex_hash [] (commitment_state tr_state) = Some cs"
    using ex_extend(1) by (auto simp: tr_state_def)
  then show thesis
    using that by (simp add: transition_from_public_transaction_def d apply_state_diff_def tr_rt_sel Let_def)
qed


end
