(* ===== verification/Borsh.thy ===== *)
theory Borsh
  imports Guest
begin

text \<open>
  The Borsh format for the data the programs keep in accounts: integers little-endian, byte arrays
  verbatim, a tag byte for options and variants, strings as a 32 bit length and their UTF-8 bytes.
  A decoder returns the value and the rest of the input; \<open>from_slice\<close> wants nothing left over.
\<close>

section \<open>Decoders and encoders\<close>

type_synonym 'a decoder = "bytes \<Rightarrow> ('a \<times> bytes) option"

definition dbind :: "'a decoder \<Rightarrow> ('a \<Rightarrow> 'b decoder) \<Rightarrow> 'b decoder" where
  "dbind p k cur = (case p cur of None \<Rightarrow> None | Some (a, cur) \<Rightarrow> k a cur)"

definition dreturn :: "'a \<Rightarrow> 'a decoder" where
  "dreturn a cur = Some (a, cur)"

definition dfail :: "'a decoder" where
  "dfail cur = None"

definition de_array :: "nat \<Rightarrow> bytes decoder" where
  "de_array n cur = read_exact n cur"

definition de_u8 :: "u8 decoder" where
  "de_u8 cur = (case cur of [] \<Rightarrow> None | b # cur \<Rightarrow> Some (b, cur))"

definition de_u32 :: "u32 decoder" where
  "de_u32 = dbind (de_array 4) (\<lambda>b. dreturn (from_le_bytes b))"

definition de_u64 :: "u64 decoder" where
  "de_u64 = dbind (de_array 8) (\<lambda>b. dreturn (from_le_bytes b))"

definition de_u128 :: "u128 decoder" where
  "de_u128 = dbind (de_array 16) (\<lambda>b. dreturn (from_le_bytes b))"

definition de_bool :: "bool decoder" where
  "de_bool = dbind de_u8 (\<lambda>b. if b = 0 then dreturn False else if b = 1 then dreturn True else dfail)"

definition de_option :: "'a decoder \<Rightarrow> 'a option decoder" where
  "de_option p = dbind de_u8 (\<lambda>b. if b = 0 then dreturn None
     else if b = 1 then dbind p (\<lambda>a. dreturn (Some a)) else dfail)"

text \<open>Well-formed UTF-8, as \<open>String::from_utf8\<close> checks it.\<close>

definition cont_byte :: "u8 \<Rightarrow> bool" where
  "cont_byte b \<longleftrightarrow> 128 \<le> b \<and> b \<le> 191"

fun utf8_valid :: "bytes \<Rightarrow> bool" where
  "utf8_valid [] = True"
| "utf8_valid (a # bs) =
     (if a < 128 then utf8_valid bs
      else case bs of
        [] \<Rightarrow> False
      | b # bs1 \<Rightarrow>
          if 194 \<le> a \<and> a \<le> 223 then cont_byte b \<and> utf8_valid bs1
          else (case bs1 of
            [] \<Rightarrow> False
          | c # bs2 \<Rightarrow>
              if 224 \<le> a \<and> a \<le> 239
              then cont_byte b \<and> cont_byte c \<and> (a = 224 \<longrightarrow> 160 \<le> b) \<and> (a = 237 \<longrightarrow> b \<le> 159) \<and> utf8_valid bs2
              else (case bs2 of
                [] \<Rightarrow> False
              | d # bs3 \<Rightarrow>
                  240 \<le> a \<and> a \<le> 244 \<and> cont_byte b \<and> cont_byte c \<and> cont_byte d
                  \<and> (a = 240 \<longrightarrow> 144 \<le> b) \<and> (a = 244 \<longrightarrow> b \<le> 143) \<and> utf8_valid bs3)))"

text \<open>A string is the list of its UTF-8 bytes.\<close>

definition de_string :: "bytes decoder" where
  "de_string = dbind de_u32 (\<lambda>n. dbind (de_array (unat n)) (\<lambda>s. if utf8_valid s then dreturn s else dfail))"

definition from_slice :: "'a decoder \<Rightarrow> bytes \<Rightarrow> 'a option" where
  "from_slice p bs = (case p bs of Some (a, []) \<Rightarrow> Some a | _ \<Rightarrow> None)"

definition en_string :: "bytes \<Rightarrow> bytes" where
  "en_string s = to_le_bytes (word_of_nat (length s) :: u32) @ s"

definition en_bool :: "bool \<Rightarrow> bytes" where
  "en_bool b = [if b then 1 else 0]"

definition en_option :: "('a \<Rightarrow> bytes) \<Rightarrow> 'a option \<Rightarrow> bytes" where
  "en_option f m = (case m of None \<Rightarrow> [0] | Some a \<Rightarrow> 1 # f a)"

section \<open>Round trips\<close>

named_theorems decode \<open>decoders applied to encodings\<close>

lemma read_exact_all: "length xs = n \<Longrightarrow> read_exact n xs = Some (xs, [])"
  by (simp add: read_exact_def)

lemma dbind_Some [decode]: "p cur = Some (a, cur') \<Longrightarrow> dbind p k cur = k a cur'"
  by (simp add: dbind_def)

lemma decoders [decode]:
  "dreturn a cur = Some (a, cur)" "dfail cur = None" "de_u8 (b # cur) = Some (b, cur)"
  "de_u32 (to_le_bytes w32 @ cur) = Some (w32, cur)"
  "de_u64 (to_le_bytes w64 @ cur) = Some (w64, cur)"
  "de_u128 (to_le_bytes w128 @ cur) = Some (w128, cur)"
  "de_u128 (to_le_bytes w128) = Some (w128, [])"
  "de_u64 (to_le_bytes w64) = Some (w64, [])"
  by (simp_all add: dreturn_def dfail_def de_u8_def de_u32_def de_u64_def de_u128_def dbind_def de_array_def read_exact_all)

lemma de_array_append [decode]: "length b = n \<Longrightarrow> de_array n (b @ cur) = Some (b, cur)"
  by (auto simp: de_array_def read_exact_def)

lemma de_bool_encode [decode]: "de_bool (en_bool b @ cur) = Some (b, cur)"
  by (simp add: de_bool_def en_bool_def decode)

lemma de_array_all [decode]: "length b = n \<Longrightarrow> de_array n b = Some (b, [])"
  by (simp add: de_array_def read_exact_all)

lemma de_bool_all [decode]: "de_bool (en_bool b) = Some (b, [])"
  using de_bool_encode [of b "[]"] by simp

lemma de_option_encode [decode]:
  "de_option p (en_option f None @ cur) = Some (None, cur)"
  "p (f a @ cur) = Some (a, cur) \<Longrightarrow> de_option p (en_option f (Some a) @ cur) = Some (Some a, cur)"
  by (simp_all add: de_option_def en_option_def decode)

lemma de_string_encode [decode]:
  "length s < 2 ^ 32 \<Longrightarrow> utf8_valid s \<Longrightarrow> de_string (en_string s @ cur) = Some (s, cur)"
  by (simp add: de_string_def en_string_def decode unat_length_u32)

lemma from_slice_Some: "from_slice p bs = Some a \<longleftrightarrow> p bs = Some (a, [])"
  by (auto simp: from_slice_def split: option.splits list.splits)

text \<open>What a successful decoder has read.\<close>

named_theorems decoded \<open>inversion of successful decoders\<close>

lemma decoded_basic [decoded]:
  "dbind p k cur = Some x \<longleftrightarrow> (\<exists>a cur'. p cur = Some (a, cur') \<and> k a cur' = Some x)"
  "dreturn a cur = Some (b, cur') \<longleftrightarrow> b = a \<and> cur' = cur"
  "\<not> dfail cur = Some x"
  "de_u8 cur = Some (u, cur') \<longleftrightarrow> cur = u # cur'"
  "de_array n cur = Some (bs, cur') \<longleftrightarrow> length bs = n \<and> cur = bs @ cur'"
  by (auto simp: dbind_def dreturn_def dfail_def de_u8_def de_array_def read_exact_Some split: option.splits list.splits)

lemma decoded_words [decoded]:
  "de_u32 cur = Some (w32, cur') \<longleftrightarrow> cur = to_le_bytes w32 @ cur'"
  "de_u64 cur = Some (w64, cur') \<longleftrightarrow> cur = to_le_bytes w64 @ cur'"
  "de_u128 cur = Some (w128, cur') \<longleftrightarrow> cur = to_le_bytes w128 @ cur'"
  by (auto simp: de_u32_def de_u64_def de_u128_def decoded decode intro!: to_from_le_bytes_gen [symmetric])

lemma decoded_string [decoded]:
  "de_string cur = Some (s, cur') \<longleftrightarrow> length s < 2 ^ 32 \<and> utf8_valid s \<and> cur = en_string s @ cur'"
proof
  assume "de_string cur = Some (s, cur')"
  then obtain n :: u32 where n: "cur = to_le_bytes n @ s @ cur'" "length s = unat n" "utf8_valid s"
    by (auto simp: de_string_def decoded split: if_splits)
  moreover have "length s < 2 ^ 32" using n(2) unat_lt2p [of n] by simp
  ultimately show "length s < 2 ^ 32 \<and> utf8_valid s \<and> cur = en_string s @ cur'" by (simp add: en_string_def)
qed (auto simp: de_string_encode)

end
