(* ===== verification/Token.thy ===== *)
theory Token
  imports Borsh
begin

text \<open>
  The token program: fungible tokens and NFTs (\<open>programs/token\<close>, its core crate and the guest
  \<open>program_methods/guest/src/bin/token.rs\<close>).  Definitions and holdings live in the data of
  accounts, in Borsh format; strings are their UTF-8 bytes.
\<close>

section \<open>Data\<close>

datatype metadata_standard = Simple | Expanded

datatype new_token_definition =
    NewFungible bytes u128
  | NewNonFungible bytes u128

record new_token_metadata =
  nm_standard :: metadata_standard
  nm_uri :: bytes
  nm_creators :: bytes

datatype token_instruction =
    TK_Transfer u128
  | NewFungibleDefinition bytes u128
  | NewDefinitionWithMetadata new_token_definition new_token_metadata
  | InitializeAccount
  | Burn u128
  | Mint u128
  | PrintNft

datatype token_definition =
    FungibleDefinition bytes u128 "account_id option"
  | NonFungibleDefinition bytes u128 account_id

datatype token_holding =
    FungibleHolding account_id u128
  | NftMaster account_id u128
  | NftPrintedCopy account_id bool

record token_metadata =
  tm_definition_id :: account_id
  tm_standard :: metadata_standard
  tm_uri :: bytes
  tm_creators :: bytes
  tm_primary_sale_date :: u64

definition de_token_definition :: "token_definition decoder" where
  "de_token_definition = dbind de_u8 (\<lambda>tag.
     if tag = 0 then dbind de_string (\<lambda>name. dbind de_u128 (\<lambda>supply.
       dbind (de_option (de_array 32)) (\<lambda>m. dreturn (FungibleDefinition name supply m))))
     else if tag = 1 then dbind de_string (\<lambda>name. dbind de_u128 (\<lambda>supply.
       dbind (de_array 32) (\<lambda>m. dreturn (NonFungibleDefinition name supply m))))
     else dfail)"

definition token_definition_try_from :: "bytes \<Rightarrow> token_definition option" where
  "token_definition_try_from = from_slice de_token_definition"

fun token_definition_to_bytes :: "token_definition \<Rightarrow> bytes" where
  "token_definition_to_bytes (FungibleDefinition name supply m) = 0 # en_string name @ to_le_bytes supply @ en_option id m"
| "token_definition_to_bytes (NonFungibleDefinition name supply m) = 1 # en_string name @ to_le_bytes supply @ m"

definition de_token_holding :: "token_holding decoder" where
  "de_token_holding = dbind de_u8 (\<lambda>tag.
     if tag = 0 then dbind (de_array 32) (\<lambda>i. dbind de_u128 (\<lambda>b. dreturn (FungibleHolding i b)))
     else if tag = 1 then dbind (de_array 32) (\<lambda>i. dbind de_u128 (\<lambda>b. dreturn (NftMaster i b)))
     else if tag = 2 then dbind (de_array 32) (\<lambda>i. dbind de_bool (\<lambda>b. dreturn (NftPrintedCopy i b)))
     else dfail)"

definition token_holding_try_from :: "bytes \<Rightarrow> token_holding option" where
  "token_holding_try_from = from_slice de_token_holding"

fun token_holding_to_bytes :: "token_holding \<Rightarrow> bytes" where
  "token_holding_to_bytes (FungibleHolding i b) = 0 # i @ to_le_bytes b"
| "token_holding_to_bytes (NftMaster i b) = 1 # i @ to_le_bytes b"
| "token_holding_to_bytes (NftPrintedCopy i b) = 2 # i @ en_bool b"

definition token_metadata_to_bytes :: "token_metadata \<Rightarrow> bytes" where
  "token_metadata_to_bytes m = tm_definition_id m @ [case tm_standard m of Simple \<Rightarrow> 0 | Expanded \<Rightarrow> 1]
     @ en_string (tm_uri m) @ en_string (tm_creators m) @ to_le_bytes (tm_primary_sale_date m)"

definition data_of_definition :: "token_definition \<Rightarrow> (bytes \<Rightarrow> (panic, 'b) result) \<Rightarrow> (panic, 'b) result" where
  "data_of_definition d = into_data ''Token definition encoded data should fit into Data'' (token_definition_to_bytes d)"

definition data_of_holding :: "token_holding \<Rightarrow> (bytes \<Rightarrow> (panic, 'b) result) \<Rightarrow> (panic, 'b) result" where
  "data_of_holding h = into_data ''Token holding encoded data should fit into Data'' (token_holding_to_bytes h)"

definition data_of_metadata :: "token_metadata \<Rightarrow> (bytes \<Rightarrow> (panic, 'b) result) \<Rightarrow> (panic, 'b) result" where
  "data_of_metadata m = into_data ''Token metadata encoded data should fit into Data'' (token_metadata_to_bytes m)"

fun zeroized_clone_from :: "token_holding \<Rightarrow> token_holding" where
  "zeroized_clone_from (FungibleHolding i _) = FungibleHolding i 0"
| "zeroized_clone_from (NftMaster i _) = NftMaster i 0"
| "zeroized_clone_from (NftPrintedCopy i _) = NftPrintedCopy i False"

fun zeroized_from_definition :: "account_id \<Rightarrow> token_definition \<Rightarrow> token_holding" where
  "zeroized_from_definition i (FungibleDefinition _ _ _) = FungibleHolding i 0"
| "zeroized_from_definition i (NonFungibleDefinition _ _ _) = NftPrintedCopy i False"

fun definition_id :: "token_holding \<Rightarrow> account_id" where
  "definition_id (FungibleHolding i _) = i"
| "definition_id (NftMaster i _) = i"
| "definition_id (NftPrintedCopy i _) = i"

section \<open>Operations\<close>

definition transfer_holdings :: "token_holding \<Rightarrow> token_holding \<Rightarrow> u128 \<Rightarrow> (panic, token_holding \<times> token_holding) result" where
  "transfer_holdings sender_holding recipient_holding balance_to_move =
     (case (sender_holding, recipient_holding) of
        (FungibleHolding si sender_balance, FungibleHolding ri recipient_balance) \<Rightarrow>
          expect (checked_sub sender_balance balance_to_move) ''Insufficient balance'' (\<lambda>sb.
          expect (checked_add recipient_balance balance_to_move) ''Recipient balance overflow'' (\<lambda>rb.
          Inr (FungibleHolding si sb, FungibleHolding ri rb)))
      | (NftMaster si sender_print_balance, NftMaster ri recipient_print_balance) \<Rightarrow>
          ensure (recipient_print_balance = 0) ''Invalid balance in recipient account for NFT transfer'' (
          ensure (sender_print_balance = balance_to_move) ''Invalid balance for NFT Master transfer'' (
          Inr (NftMaster si recipient_print_balance, NftMaster ri sender_print_balance)))
      | (NftPrintedCopy si sender_owned, NftPrintedCopy ri recipient_owned) \<Rightarrow>
          ensure (balance_to_move = 1) ''Invalid balance for NFT Printed Copy transfer'' (
          ensure sender_owned ''Sender does not own the NFT Printed Copy'' (
          ensure (\<not> recipient_owned) ''Recipient already owns the NFT Printed Copy'' (
          Inr (NftPrintedCopy si False, NftPrintedCopy ri True))))
      | _ \<Rightarrow> Inl ''Mismatched token holding types for transfer'')"

definition tk_transfer :: "account_meta \<Rightarrow> account_meta \<Rightarrow> u128 \<Rightarrow> (panic, post_state list) result" where
  "tk_transfer sender recipient balance_to_move =
     ensure (is_authorized sender) ''Sender authorization is missing'' (
     expect (token_holding_try_from (data (account sender))) ''Invalid sender data'' (\<lambda>sender_holding.
     expect (if account recipient = default_account then Some (zeroized_clone_from sender_holding)
             else token_holding_try_from (data (account recipient))) ''Invalid recipient data'' (\<lambda>recipient_holding.
     ensure (definition_id sender_holding = definition_id recipient_holding)
       ''Sender and recipient definition id mismatch'' (
     rbind (transfer_holdings sender_holding recipient_holding balance_to_move) (\<lambda>(sender_holding, recipient_holding).
     data_of_holding sender_holding (\<lambda>sd.
     data_of_holding recipient_holding (\<lambda>rd.
     Inr [post_new ((account sender)\<lparr> data := sd \<rparr>),
          new_claimed_if_default ((account recipient)\<lparr> data := rd \<rparr>) Claim_Authorized])))))))"

definition new_fungible_definition :: "account_meta \<Rightarrow> account_meta \<Rightarrow> bytes \<Rightarrow> u128 \<Rightarrow> (panic, post_state list) result" where
  "new_fungible_definition definition_target holding_target name supply =
     ensure (account definition_target = default_account) ''Definition target account must have default values'' (
     ensure (account holding_target = default_account) ''Holding target account must have default values'' (
     let token_definition = FungibleDefinition name supply None;
         token_holding = FungibleHolding (account_id definition_target) supply
     in data_of_definition token_definition (\<lambda>dd.
        data_of_holding token_holding (\<lambda>hb.
        Inr [new_claimed ((account definition_target)\<lparr> data := dd \<rparr>) Claim_Authorized,
             new_claimed ((account holding_target)\<lparr> data := hb \<rparr>) Claim_Authorized]))))"

definition new_definition_with_metadata :: "account_meta \<Rightarrow> account_meta \<Rightarrow> account_meta \<Rightarrow> new_token_definition
    \<Rightarrow> new_token_metadata \<Rightarrow> (panic, post_state list) result" where
  "new_definition_with_metadata definition_target holding_target metadata_target new_definition metadata =
     ensure (account definition_target = default_account) ''Definition target account must have default values'' (
     ensure (account holding_target = default_account) ''Holding target account must have default values'' (
     ensure (account metadata_target = default_account) ''Metadata target account must have default values'' (
     let (token_definition, token_holding) =
           (case new_definition of
              NewFungible name supply \<Rightarrow>
                (FungibleDefinition name supply (Some (account_id metadata_target)),
                 FungibleHolding (account_id definition_target) supply)
            | NewNonFungible name supply \<Rightarrow>
                (NonFungibleDefinition name supply (account_id metadata_target),
                 NftMaster (account_id definition_target) supply));
         token_metadata = \<lparr> tm_definition_id = account_id definition_target, tm_standard = nm_standard metadata,
           tm_uri = nm_uri metadata, tm_creators = nm_creators metadata, tm_primary_sale_date = 0 \<rparr>
     in data_of_definition token_definition (\<lambda>dd.
        data_of_holding token_holding (\<lambda>hb.
        data_of_metadata token_metadata (\<lambda>md.
        Inr [new_claimed ((account definition_target)\<lparr> data := dd \<rparr>) Claim_Authorized,
             new_claimed ((account holding_target)\<lparr> data := hb \<rparr>) Claim_Authorized,
             new_claimed ((account metadata_target)\<lparr> data := md \<rparr>) Claim_Authorized]))))))"

definition tk_initialize_account :: "account_meta \<Rightarrow> account_meta \<Rightarrow> (panic, post_state list) result" where
  "tk_initialize_account definition_account account_to_initialize =
     ensure (account account_to_initialize = default_account) ''Only Uninitialized accounts can be initialized'' (
     expect (token_definition_try_from (data (account definition_account))) ''Definition account must be valid'' (\<lambda>d.
     let holding = zeroized_from_definition (account_id definition_account) d
     in data_of_holding holding (\<lambda>hb.
        Inr [post_new (account definition_account),
             new_claimed ((account account_to_initialize)\<lparr> data := hb \<rparr>) Claim_Authorized])))"

definition burn_units :: "token_definition \<Rightarrow> token_holding \<Rightarrow> u128 \<Rightarrow> (panic, token_definition \<times> token_holding) result" where
  "burn_units d holding amount_to_burn =
     (case (d, holding) of
        (FungibleDefinition name supply m, FungibleHolding i b) \<Rightarrow>
          expect (checked_sub b amount_to_burn) ''Insufficient balance to burn'' (\<lambda>b.
          expect (checked_sub supply amount_to_burn) ''Total supply underflow'' (\<lambda>supply.
          Inr (FungibleDefinition name supply m, FungibleHolding i b)))
      | (NonFungibleDefinition name supply m, NftMaster i b) \<Rightarrow>
          expect (checked_sub supply amount_to_burn) ''Printable supply underflow'' (\<lambda>supply.
          expect (checked_sub b amount_to_burn) ''Insufficient balance to burn'' (\<lambda>b.
          Inr (NonFungibleDefinition name supply m, NftMaster i b)))
      | (NonFungibleDefinition name supply m, NftPrintedCopy i owned) \<Rightarrow>
          ensure (amount_to_burn = 1) ''Invalid balance to burn for NFT Printed Copy'' (
          ensure owned ''Cannot burn unowned NFT Printed Copy'' (
          expect (checked_sub supply 1) ''Printable supply underflow'' (\<lambda>supply.
          Inr (NonFungibleDefinition name supply m, NftPrintedCopy i False))))
      | _ \<Rightarrow> Inl ''Mismatched Token Definition and Token Holding types'')"

definition burn :: "account_meta \<Rightarrow> account_meta \<Rightarrow> u128 \<Rightarrow> (panic, post_state list) result" where
  "burn definition_account user_holding_account amount_to_burn =
     ensure (is_authorized user_holding_account) ''Authorization is missing'' (
     expect (token_definition_try_from (data (account definition_account))) ''Token Definition account must be valid'' (\<lambda>d.
     expect (token_holding_try_from (data (account user_holding_account))) ''Token Holding account must be valid'' (\<lambda>holding.
     ensure (account_id definition_account = definition_id holding) ''Mismatch Token Definition and Token Holding'' (
     rbind (burn_units d holding amount_to_burn) (\<lambda>(d, holding).
     data_of_definition d (\<lambda>dd.
     data_of_holding holding (\<lambda>hb.
     Inr [post_new ((account definition_account)\<lparr> data := dd \<rparr>),
          post_new ((account user_holding_account)\<lparr> data := hb \<rparr>)])))))))"

definition mint_units :: "token_definition \<Rightarrow> token_holding \<Rightarrow> u128 \<Rightarrow> (panic, token_definition \<times> token_holding) result" where
  "mint_units d holding amount_to_mint =
     (case (d, holding) of
        (FungibleDefinition name supply m, FungibleHolding i b) \<Rightarrow>
          expect (checked_add b amount_to_mint) ''Balance overflow on minting'' (\<lambda>b.
          expect (checked_add supply amount_to_mint) ''Total supply overflow'' (\<lambda>supply.
          Inr (FungibleDefinition name supply m, FungibleHolding i b)))
      | (NonFungibleDefinition _ _ _, NftMaster _ _) \<Rightarrow> Inl ''Cannot mint additional supply for Non-Fungible Tokens''
      | (NonFungibleDefinition _ _ _, NftPrintedCopy _ _) \<Rightarrow> Inl ''Cannot mint additional supply for Non-Fungible Tokens''
      | _ \<Rightarrow> Inl ''Mismatched Token Definition and Token Holding types'')"

definition mint :: "account_meta \<Rightarrow> account_meta \<Rightarrow> u128 \<Rightarrow> (panic, post_state list) result" where
  "mint definition_account user_holding_account amount_to_mint =
     ensure (is_authorized definition_account) ''Definition authorization is missing'' (
     expect (token_definition_try_from (data (account definition_account))) ''Token Definition account must be valid'' (\<lambda>d.
     expect (if account user_holding_account = default_account
             then Some (zeroized_from_definition (account_id definition_account) d)
             else token_holding_try_from (data (account user_holding_account))) ''Token Holding account must be valid'' (\<lambda>holding.
     ensure (account_id definition_account = definition_id holding) ''Mismatch Token Definition and Token Holding'' (
     rbind (mint_units d holding amount_to_mint) (\<lambda>(d, holding).
     data_of_definition d (\<lambda>dd.
     data_of_holding holding (\<lambda>hb.
     Inr [post_new ((account definition_account)\<lparr> data := dd \<rparr>),
          new_claimed_if_default ((account user_holding_account)\<lparr> data := hb \<rparr>) Claim_Authorized])))))))"

definition print_nft :: "account_meta \<Rightarrow> account_meta \<Rightarrow> (panic, post_state list) result" where
  "print_nft master_account printed_account =
     ensure (is_authorized master_account) ''Master NFT Account must be authorized'' (
     ensure (account printed_account = default_account) ''Printed Account must be uninitialized'' (
     expect (token_holding_try_from (data (account master_account))) ''Invalid Token Holding data'' (\<lambda>holding.
     case holding of
       NftMaster i print_balance \<Rightarrow>
         ensure (unat print_balance > 1) ''Insufficient balance to print another NFT copy'' (
         expect (checked_sub print_balance 1) ''Checked above'' (\<lambda>print_balance.
         data_of_holding (NftMaster i print_balance) (\<lambda>md.
         data_of_holding (NftPrintedCopy i True) (\<lambda>pd.
         Inr [post_new ((account master_account)\<lparr> data := md \<rparr>),
              new_claimed ((account printed_account)\<lparr> data := pd \<rparr>) Claim_Authorized]))))
     | _ \<Rightarrow> Inl ''Invalid Token Holding provided as NFT Master Account'')))"

definition token_dispatch :: "account_meta list \<Rightarrow> token_instruction \<Rightarrow> (panic, post_state list) result" where
  "token_dispatch pres instr =
     (case instr of
        TK_Transfer n \<Rightarrow> with2 ''Transfer instruction requires exactly two accounts'' pres (\<lambda>s r. tk_transfer s r n)
      | NewFungibleDefinition name supply \<Rightarrow>
          with2 ''NewFungibleDefinition instruction requires exactly two accounts'' pres (\<lambda>d h.
          new_fungible_definition d h name supply)
      | NewDefinitionWithMetadata nd md \<Rightarrow>
          with3 ''NewDefinitionWithMetadata instruction requires exactly three accounts'' pres (\<lambda>d h m.
          new_definition_with_metadata d h m nd md)
      | InitializeAccount \<Rightarrow>
          with2 ''InitializeAccount instruction requires exactly two accounts'' pres tk_initialize_account
      | Burn n \<Rightarrow> with2 ''Burn instruction requires exactly two accounts'' pres (\<lambda>d h. burn d h n)
      | Mint n \<Rightarrow> with2 ''Mint instruction requires exactly two accounts'' pres (\<lambda>d h. mint d h n)
      | PrintNft \<Rightarrow> with2 ''PrintNft instruction requires exactly two accounts'' pres print_nft)"

definition token_main :: "(instruction_data \<Rightarrow> token_instruction option) \<Rightarrow> guest" where
  "token_main dec self caller pres words =
     read_lee_inputs dec words (\<lambda>instr.
     rbind (token_dispatch pres instr) (\<lambda>posts.
     Inr (program_output_new self caller words pres posts)))"

section \<open>Codecs\<close>

fun wf_definition :: "token_definition \<Rightarrow> bool" where
  "wf_definition (FungibleDefinition name supply m) =
     (length name < 2 ^ 32 \<and> utf8_valid name \<and> (case m of None \<Rightarrow> True | Some i \<Rightarrow> wf_id i))"
| "wf_definition (NonFungibleDefinition name supply i) = (length name < 2 ^ 32 \<and> utf8_valid name \<and> wf_id i)"

lemma holding_codec:
  "token_holding_try_from bs = Some h \<longleftrightarrow> wf_id (definition_id h) \<and> bs = token_holding_to_bytes h"
proof
  assume "token_holding_try_from bs = Some h"
  then show "wf_id (definition_id h) \<and> bs = token_holding_to_bytes h"
    by (auto simp: token_holding_try_from_def from_slice_Some de_token_holding_def de_bool_def decoded wf_id_def en_bool_def
        split: if_splits)
next
  assume "wf_id (definition_id h) \<and> bs = token_holding_to_bytes h"
  then show "token_holding_try_from bs = Some h"
    by (cases h) (auto simp: token_holding_try_from_def from_slice_Some de_token_holding_def decode wf_id_def)
qed

lemma definition_codec:
  "token_definition_try_from bs = Some d \<longleftrightarrow> wf_definition d \<and> bs = token_definition_to_bytes d"
proof
  assume "token_definition_try_from bs = Some d"
  then show "wf_definition d \<and> bs = token_definition_to_bytes d"
    by (auto simp: token_definition_try_from_def from_slice_Some de_token_definition_def de_option_def decoded
        wf_id_def en_option_def split: if_splits)
next
  assume wf: "wf_definition d \<and> bs = token_definition_to_bytes d"
  show "token_definition_try_from bs = Some d"
  proof (cases d)
    case (FungibleDefinition name n m)
    with wf have "de_option (de_array 32) (en_option id m) = Some (m, [])"
      by (cases m) (simp_all add: de_option_def en_option_def decode wf_id_def)
    with wf FungibleDefinition show ?thesis
      by (auto simp: token_definition_try_from_def from_slice_Some de_token_definition_def decode)
  next
    case (NonFungibleDefinition name n i)
    with wf show ?thesis
      by (auto simp: token_definition_try_from_def from_slice_Some de_token_definition_def decode wf_id_def)
  qed
qed

section \<open>Conservation of units\<close>

text \<open>What a holding counts for, and what a definition has issued.\<close>

fun units :: "token_holding \<Rightarrow> nat" where
  "units (FungibleHolding _ b) = unat b"
| "units (NftMaster _ b) = unat b"
| "units (NftPrintedCopy _ owned) = of_bool owned"

fun issued_by :: "token_definition \<Rightarrow> nat" where
  "issued_by (FungibleDefinition _ s _) = unat s"
| "issued_by (NonFungibleDefinition _ s _) = unat s"

definition holding_units :: "account_id \<Rightarrow> account \<Rightarrow> nat" where
  "holding_units t a =
     (case token_holding_try_from (data a) of Some h \<Rightarrow> if definition_id h = t then units h else 0 | None \<Rightarrow> 0)"

definition definition_units :: "account_id \<Rightarrow> account_id \<Rightarrow> account \<Rightarrow> nat" where
  "definition_units t i a =
     (case token_definition_try_from (data a) of Some d \<Rightarrow> if i = t then issued_by d else 0 | None \<Rightarrow> 0)"

text \<open>The accounts an instruction uses as definitions and as holdings.\<close>

definition issued :: "account_id \<Rightarrow> token_instruction \<Rightarrow> account_id list \<Rightarrow> account list \<Rightarrow> nat" where
  "issued t instr ids as =
     (if instr = PrintNft \<or> (\<exists>n. instr = TK_Transfer n) then 0 else definition_units t (ids ! 0) (as ! 0))"

definition held :: "account_id \<Rightarrow> token_instruction \<Rightarrow> account list \<Rightarrow> nat" where
  "held t instr as =
     (if instr = PrintNft \<or> (\<exists>n. instr = TK_Transfer n) then holding_units t (as ! 0) else 0) + holding_units t (as ! 1)"

text \<open>Strings of an instruction are valid UTF-8, as the type \<open>String\<close> guarantees.\<close>

fun wf_token_instruction :: "token_instruction \<Rightarrow> bool" where
  "wf_token_instruction (NewFungibleDefinition name _) = utf8_valid name"
| "wf_token_instruction (NewDefinitionWithMetadata (NewFungible name _) _) = utf8_valid name"
| "wf_token_instruction (NewDefinitionWithMetadata (NewNonFungible name _) _) = utf8_valid name"
| "wf_token_instruction _ = True"

lemma transfer_holdings_units:
  "transfer_holdings s r n = Inr (s', r') \<Longrightarrow> definition_id s' = definition_id s \<and> definition_id r' = definition_id r
     \<and> units s' + units r' = units s + units r \<and> units s' \<le> units s"
  by (cases s; cases r) (auto simp: transfer_holdings_def res_simps arith_simps)

lemma burn_units_units:
  "burn_units d h n = Inr (d', h') \<Longrightarrow> wf_definition d \<Longrightarrow> definition_id h' = definition_id h \<and> wf_definition d'
     \<and> issued_by d' + units h = issued_by d + units h' \<and> units h' \<le> units h"
  by (cases d; cases h) (auto simp: burn_units_def res_simps arith_simps)

lemma mint_units_units:
  "mint_units d h n = Inr (d', h') \<Longrightarrow> wf_definition d \<Longrightarrow> definition_id h' = definition_id h \<and> wf_definition d'
     \<and> issued_by d' + units h = issued_by d + units h' \<and> units h \<le> units h'"
  by (cases d; cases h) (auto simp: mint_units_def res_simps arith_simps)

lemma holding_units_new:
  "wf_id (definition_id h) \<Longrightarrow> holding_units t (a\<lparr> data := token_holding_to_bytes h \<rparr>)
     = (if definition_id h = t then units h else 0)"
  using holding_codec [of "token_holding_to_bytes h" h] by (simp add: holding_units_def)

lemma definition_units_new:
  "wf_definition d \<Longrightarrow> definition_units t i (a\<lparr> data := token_definition_to_bytes d \<rparr>) = (if i = t then issued_by d else 0)"
  using definition_codec [of "token_definition_to_bytes d" d] by (simp add: definition_units_def)

lemma units_default [simp]: "holding_units t default_account = 0" "definition_units t i default_account = 0"
  by (simp_all add: holding_units_def definition_units_def token_holding_try_from_def token_definition_try_from_def
      from_slice_def de_token_holding_def de_token_definition_def dbind_def de_u8_def)

lemma zeroized_clone [simp]: "definition_id (zeroized_clone_from h) = definition_id h" "units (zeroized_clone_from h) = 0"
  by (cases h; simp)+

lemma zeroized_definition [simp]: "definition_id (zeroized_from_definition i d) = i" "units (zeroized_from_definition i d) = 0"
  by (cases d; simp)+

lemma holding_read:
  "token_holding_try_from (data a) = Some h \<Longrightarrow> wf_id (definition_id h) \<and> holding_units t a = (if definition_id h = t then units h else 0)"
  using holding_codec [of "data a" h] by (simp add: holding_units_def)

lemma definition_read:
  "token_definition_try_from (data a) = Some d \<Longrightarrow> wf_definition d \<and> definition_units t i a = (if i = t then issued_by d else 0)"
  using definition_codec [of "data a" d] by (simp add: definition_units_def)

lemma tk_transfer_units:
  assumes "tk_transfer s r n = Inr posts"
  shows "is_authorized s
    \<and> holding_units t (ps_account (posts ! 0)) + holding_units t (ps_account (posts ! 1))
      = holding_units t (account s) + holding_units t (account r)
    \<and> holding_units t (account r) \<le> holding_units t (ps_account (posts ! 1))"
proof -
  obtain sh rh sh' rh' where s: "is_authorized s" "token_holding_try_from (data (account s)) = Some sh"
    and r: "(if account r = default_account then Some (zeroized_clone_from sh)
             else token_holding_try_from (data (account r))) = Some rh"
    and eq: "definition_id sh = definition_id rh" and t: "transfer_holdings sh rh n = Inr (sh', rh')"
    and posts: "posts = [post_new ((account s)\<lparr> data := token_holding_to_bytes sh' \<rparr>),
      new_claimed_if_default ((account r)\<lparr> data := token_holding_to_bytes rh' \<rparr>) Claim_Authorized]"
    using assms by (auto simp: tk_transfer_def data_of_holding_def res_simps)
  have wf: "wf_id (definition_id sh)" using holding_read [OF s(2)] by simp
  have ru: "holding_units t (account r) = (if definition_id rh = t then units rh else 0)"
    using r holding_read [of "account r" rh t] by (auto split: if_splits)
  show ?thesis
    using s transfer_holdings_units [OF t] posts eq wf ru holding_read [OF s(2)]
    by (auto simp: holding_units_new new_claimed_if_default_def)
qed

lemma burn_units_conserved:
  assumes "burn d h n = Inr posts"
  shows "is_authorized h
    \<and> definition_units t (account_id d) (ps_account (posts ! 0)) + holding_units t (account h)
      = definition_units t (account_id d) (account d) + holding_units t (ps_account (posts ! 1))
    \<and> holding_units t (ps_account (posts ! 1)) \<le> holding_units t (account h)"
proof -
  obtain df hd df' hd' where h: "is_authorized h" "token_definition_try_from (data (account d)) = Some df"
    "token_holding_try_from (data (account h)) = Some hd" "account_id d = definition_id hd"
    and b: "burn_units df hd n = Inr (df', hd')"
    and posts: "posts = [post_new ((account d)\<lparr> data := token_definition_to_bytes df' \<rparr>),
      post_new ((account h)\<lparr> data := token_holding_to_bytes hd' \<rparr>)]"
    using assms by (auto simp: burn_def data_of_holding_def data_of_definition_def res_simps)
  show ?thesis
    using h posts definition_read [OF h(2)] holding_read [OF h(3)] burn_units_units [OF b]
    by (auto simp: holding_units_new definition_units_new)
qed

lemma mint_units_conserved:
  assumes "mint d h n = Inr posts" and wf: "wf_id (account_id d)"
  shows "is_authorized d
    \<and> definition_units t (account_id d) (ps_account (posts ! 0)) + holding_units t (account h)
      = definition_units t (account_id d) (account d) + holding_units t (ps_account (posts ! 1))
    \<and> holding_units t (account h) \<le> holding_units t (ps_account (posts ! 1))"
proof -
  obtain df hd df' hd' where h: "is_authorized d" "token_definition_try_from (data (account d)) = Some df"
    "(if account h = default_account then Some (zeroized_from_definition (account_id d) df)
      else token_holding_try_from (data (account h))) = Some hd" "account_id d = definition_id hd"
    and b: "mint_units df hd n = Inr (df', hd')"
    and posts: "posts = [post_new ((account d)\<lparr> data := token_definition_to_bytes df' \<rparr>),
      new_claimed_if_default ((account h)\<lparr> data := token_holding_to_bytes hd' \<rparr>) Claim_Authorized]"
    using assms(1) by (auto simp: mint_def data_of_holding_def data_of_definition_def res_simps)
  have "units hd = 0" if "account h = default_account" using h(3) that zeroized_definition(2) by auto
  then have hu: "holding_units t (account h) = (if definition_id hd = t then units hd else 0)"
    using h(3,4) holding_read [of "account h" hd t] by (auto split: if_splits)
  show ?thesis
    using h posts wf hu definition_read [OF h(2)] mint_units_units [OF b]
    by (auto simp: holding_units_new definition_units_new new_claimed_if_default_def)
qed

lemma print_nft_units:
  assumes "print_nft m p = Inr posts"
  shows "is_authorized m
    \<and> holding_units t (ps_account (posts ! 0)) + holding_units t (ps_account (posts ! 1))
      = holding_units t (account m) + holding_units t (account p)
    \<and> holding_units t (account p) \<le> holding_units t (ps_account (posts ! 1))"
proof -
  obtain hg where "token_holding_try_from (data (account m)) = Some hg" using assms by (auto simp: print_nft_def res_simps)
  with assms obtain i b where m: "is_authorized m" "account p = default_account"
    "token_holding_try_from (data (account m)) = Some (NftMaster i b)" and b: "unat b > 1"
    and posts: "posts = [post_new ((account m)\<lparr> data := token_holding_to_bytes (NftMaster i (b - 1)) \<rparr>),
      new_claimed ((account p)\<lparr> data := token_holding_to_bytes (NftPrintedCopy i True) \<rparr>) Claim_Authorized]"
    by (cases hg) (auto simp: print_nft_def data_of_holding_def res_simps checked_sub_def split: if_splits)
  have "unat (b - 1) = unat b - 1" using b by (simp add: unat_sub_no_wrap)
  then show ?thesis
    using m posts b holding_read [OF m(3), of t] holding_units_new [of "NftMaster i (b - 1)" t]
      holding_units_new [of "NftPrintedCopy i True" t] by (auto simp: new_claimed_def)
qed

lemma new_definition_units:
  assumes "wf_id (account_id d)" "wf_definition df" "definition_id hg = account_id d" "units hg = issued_by df"
  shows "definition_units t (account_id d) (a\<lparr> data := token_definition_to_bytes df \<rparr>)
    = holding_units t (b\<lparr> data := token_holding_to_bytes hg \<rparr>)"
  using assms by (simp add: holding_units_new definition_units_new)

lemma name_short: "length (token_definition_to_bytes df) \<le> DATA_MAX_LENGTH \<Longrightarrow>
    (case df of FungibleDefinition name _ _ \<Rightarrow> length name | NonFungibleDefinition name _ _ \<Rightarrow> length name) < 2 ^ 32"
  by (cases df) (auto simp: en_string_def DATA_MAX_LENGTH_def)

lemma new_fungible_units:
  assumes "new_fungible_definition d h name n = Inr posts" "wf_id (account_id d)" "utf8_valid name"
  shows "definition_units t (account_id d) (ps_account (posts ! 0)) + holding_units t (account h)
    = definition_units t (account_id d) (account d) + holding_units t (ps_account (posts ! 1))"
proof -
  let ?df = "FungibleDefinition name n None"
  have "wf_definition ?df"
    using assms name_short [of ?df] by (auto simp: new_fungible_definition_def data_of_definition_def res_simps)
  with assms new_definition_units [of d ?df "FungibleHolding (account_id d) n" t] show ?thesis
    by (auto simp: new_fungible_definition_def data_of_definition_def data_of_holding_def res_simps new_claimed_def)
qed

lemma new_metadata_units:
  assumes "new_definition_with_metadata d h m nd md = Inr posts" "wf_id (account_id d)" "wf_id (account_id m)"
    and "wf_token_instruction (NewDefinitionWithMetadata nd md)"
  shows "definition_units t (account_id d) (ps_account (posts ! 0)) + holding_units t (account h)
    = definition_units t (account_id d) (account d) + holding_units t (ps_account (posts ! 1))"
proof (cases nd)
  case (NewFungible name k)
  let ?df = "FungibleDefinition name k (Some (account_id m))"
  have "wf_definition ?df"
    using assms NewFungible name_short [of ?df]
    by (auto simp: new_definition_with_metadata_def data_of_definition_def res_simps)
  with assms NewFungible new_definition_units [of d ?df "FungibleHolding (account_id d) k" t] show ?thesis
    by (auto simp: new_definition_with_metadata_def data_of_definition_def data_of_holding_def data_of_metadata_def
        res_simps new_claimed_def)
next
  case (NewNonFungible name k)
  let ?df = "NonFungibleDefinition name k (account_id m)"
  have "wf_definition ?df"
    using assms NewNonFungible name_short [of ?df]
    by (auto simp: new_definition_with_metadata_def data_of_definition_def res_simps)
  with assms NewNonFungible new_definition_units [of d ?df "NftMaster (account_id d) k" t] show ?thesis
    by (auto simp: new_definition_with_metadata_def data_of_definition_def data_of_holding_def data_of_metadata_def
        res_simps new_claimed_def)
qed

section \<open>Contract\<close>

lemmas token_ops = tk_transfer_def new_fungible_definition_def new_definition_with_metadata_def
  tk_initialize_account_def burn_def mint_def print_nft_def data_of_definition_def data_of_holding_def
  data_of_metadata_def new_claimed_def new_claimed_if_default_def Let_def

lemma token_dispatch_neutral:
  assumes "token_dispatch pres instr = Inr posts"
  shows "list_all2 (\<lambda>a b. frame_ok a b \<and> balance b = balance a) (map account pres) (map ps_account posts)"
proof (cases instr)
  case PrintNft
  with assms obtain m p where p: "pres = [m, p]" "print_nft m p = Inr posts" by (auto simp: token_dispatch_def res_simps)
  then obtain hg where "token_holding_try_from (data (account m)) = Some hg" by (auto simp: print_nft_def res_simps)
  with p show ?thesis by (cases hg) (auto simp: token_ops res_simps neutral_data)
next
  case (NewDefinitionWithMetadata nd md)
  with assms show ?thesis
    by (cases nd) (auto simp: token_dispatch_def token_ops res_simps neutral_data)
qed (use assms in \<open>auto simp: token_dispatch_def token_ops res_simps neutral_data\<close>)

interpretation token: balance_neutral_guest "token_main dec" for dec
proof
  fix self caller pres words out
  assume run: "token_main dec self caller pres words = Inr out"
  then show "echoes self caller pres words out" by (auto simp: token_main_def res_simps)
  from run show "list_all2 (\<lambda>a b. frame_ok a b \<and> balance b = balance a)
      (map account pres) (map ps_account (post_states out))"
    by (auto simp: token_main_def res_simps dest: token_dispatch_neutral)
qed

section \<open>What the token program guarantees\<close>

text \<open>
  C12: units are conserved.  For every instruction and every token, what definitions have issued
  minus what holdings hold is the same before and after: minting, burning and the creation of a
  definition change the supply and the holding by the same amount, transfers and prints keep both.
  The law covers fungible tokens, the print balance of an NFT master and owned printed copies.
\<close>

theorem token_units_conserved:
  assumes "token_dispatch pres instr = Inr posts"
    and "\<forall>p \<in> set pres. wf_id (account_id p)" and "wf_token_instruction instr"
  shows "issued t instr (map account_id pres) (map ps_account posts) + held t instr (map account pres)
    = issued t instr (map account_id pres) (map account pres) + held t instr (map ps_account posts)"
proof -
  have len: "length posts = length pres"
    using list_all2_lengthD [OF token_dispatch_neutral [OF assms(1)]] by simp
  show ?thesis
  proof (cases instr)
    case (TK_Transfer n)
    with assms(1) len tk_transfer_units [of "pres ! 0" "pres ! 1" n posts t] show ?thesis
      by (auto simp: token_dispatch_def res_simps issued_def held_def)
  next
    case (NewFungibleDefinition name n)
    with assms len new_fungible_units [of "pres ! 0" "pres ! 1" name n posts t] show ?thesis
      by (auto simp: token_dispatch_def res_simps issued_def held_def)
  next
    case (NewDefinitionWithMetadata nd md)
    with assms len new_metadata_units [of "pres ! 0" "pres ! 1" "pres ! 2" nd md posts t] show ?thesis
      by (auto simp: token_dispatch_def res_simps issued_def held_def numeral_2_eq_2)
  next
    case InitializeAccount
    with assms len show ?thesis
      by (auto simp: token_dispatch_def res_simps issued_def held_def token_ops holding_units_new)
  next
    case (Burn n)
    with assms(1) len burn_units_conserved [of "pres ! 0" "pres ! 1" n posts t] show ?thesis
      by (auto simp: token_dispatch_def res_simps issued_def held_def)
  next
    case (Mint n)
    with assms len mint_units_conserved [of "pres ! 0" "pres ! 1" n posts t] show ?thesis
      by (auto simp: token_dispatch_def res_simps issued_def held_def)
  next
    case PrintNft
    with assms(1) len print_nft_units [of "pres ! 0" "pres ! 1" posts t] show ?thesis
      by (auto simp: token_dispatch_def res_simps issued_def held_def)
  qed
qed


section \<open>Witnesses\<close>

definition tk_def :: account_id where
  "tk_def = replicate 32 5"

definition tk_sender :: account_meta where
  "tk_sender = new_account_meta \<lparr> program_owner = [9], balance = 0,
     data = token_holding_to_bytes (FungibleHolding tk_def 10), nonce = 0 \<rparr> True (replicate 32 1)"

definition tk_recipient :: account_meta where
  "tk_recipient = new_account_meta default_account True (replicate 32 2)"

definition tk_posts :: "post_state list" where
  "tk_posts = [post_new ((account tk_sender)\<lparr> data := token_holding_to_bytes (FungibleHolding tk_def 6) \<rparr>),
     new_claimed (default_account\<lparr> data := token_holding_to_bytes (FungibleHolding tk_def 4) \<rparr>) Claim_Authorized]"

lemma tk_holding: "token_holding_try_from (token_holding_to_bytes (FungibleHolding tk_def n)) = Some (FungibleHolding tk_def n)"
  using holding_codec [of "token_holding_to_bytes (FungibleHolding tk_def n)" "FungibleHolding tk_def n"]
  by (simp add: wf_id_def tk_def_def)

lemma tk_data: "data_of_holding (FungibleHolding tk_def n) k = k (token_holding_to_bytes (FungibleHolding tk_def n))"
  by (simp add: data_of_holding_def into_data_def data_try_from_def tk_def_def DATA_MAX_LENGTH_def)

lemma tk_example: "token_dispatch [tk_sender, tk_recipient] (TK_Transfer 4) = Inr tk_posts"
  by (simp add: token_dispatch_def tk_transfer_def tk_sender_def tk_recipient_def tk_holding tk_data transfer_holdings_def
      checked_sub_def checked_add_def tk_posts_def new_claimed_if_default_def new_claimed_def
      del: token_holding_to_bytes.simps)

theorem token_units_conserved_witness:
  "held tk_def (TK_Transfer 4) (map account [tk_sender, tk_recipient]) = held tk_def (TK_Transfer 4) (map ps_account tk_posts)"
  using token_units_conserved [OF tk_example, of tk_def]
  by (simp add: issued_def tk_sender_def tk_recipient_def wf_id_def)


end
