(* ===== verification/AMM.thy ===== *)
theory AMM
  imports Token
begin

text \<open>
  The automated market maker: pools of two tokens with a constant product rule (\<open>programs/amm\<close>, its
  core crate and the guest \<open>program_methods/guest/src/bin/amm.rs\<close>).  The guest keeps the pool
  definition and asks the token program, by chained calls, to move tokens.  Plain operators take
  the flag \<open>oc\<close>: true for a build with overflow checks, false for a release build.
\<close>

section \<open>Data\<close>

datatype amm_instruction =
    NewDefinition u128 u128 program_id
  | AddLiquidity u128 u128 u128
  | RemoveLiquidity u128 u128 u128
  | SwapExactInput u128 u128 account_id
  | SwapExactOutput u128 u128 account_id

record pool_definition =
  definition_token_a_id :: account_id
  definition_token_b_id :: account_id
  vault_a_id :: account_id
  vault_b_id :: account_id
  liquidity_pool_id :: account_id
  liquidity_pool_supply :: u128
  reserve_a :: u128
  reserve_b :: u128
  fees :: u128
  active :: bool

definition default_pool :: pool_definition where
  "default_pool = \<lparr> definition_token_a_id = replicate 32 0, definition_token_b_id = replicate 32 0,
     vault_a_id = replicate 32 0, vault_b_id = replicate 32 0, liquidity_pool_id = replicate 32 0,
     liquidity_pool_supply = 0, reserve_a = 0, reserve_b = 0, fees = 0, active = False \<rparr>"

definition de_pool :: "pool_definition decoder" where
  "de_pool =
     dbind (de_array 32) (\<lambda>a. dbind (de_array 32) (\<lambda>b. dbind (de_array 32) (\<lambda>va. dbind (de_array 32) (\<lambda>vb.
     dbind (de_array 32) (\<lambda>l. dbind de_u128 (\<lambda>supply. dbind de_u128 (\<lambda>ra. dbind de_u128 (\<lambda>rb.
     dbind de_u128 (\<lambda>fee. dbind de_bool (\<lambda>act.
     dreturn \<lparr> definition_token_a_id = a, definition_token_b_id = b, vault_a_id = va, vault_b_id = vb,
       liquidity_pool_id = l, liquidity_pool_supply = supply, reserve_a = ra, reserve_b = rb,
       fees = fee, active = act \<rparr>))))))))))"

definition pool_try_from :: "bytes \<Rightarrow> pool_definition option" where
  "pool_try_from = from_slice de_pool"

definition pool_to_bytes :: "pool_definition \<Rightarrow> bytes" where
  "pool_to_bytes p = definition_token_a_id p @ definition_token_b_id p @ vault_a_id p @ vault_b_id p
     @ liquidity_pool_id p @ to_le_bytes (liquidity_pool_supply p) @ to_le_bytes (reserve_a p)
     @ to_le_bytes (reserve_b p) @ to_le_bytes (fees p) @ en_bool (active p)"

definition data_of_pool :: "pool_definition \<Rightarrow> (bytes \<Rightarrow> (panic, 'b) result) \<Rightarrow> (panic, 'b) result" where
  "data_of_pool p = into_data ''Token definition encoded data should fit into Data'' (pool_to_bytes p)"

text \<open>The order of account ids: lexicographic on their bytes.\<close>

fun bytes_less :: "bytes \<Rightarrow> bytes \<Rightarrow> bool" where
  "bytes_less _ [] = False"
| "bytes_less [] (_ # _) = True"
| "bytes_less (x # xs) (y # ys) = (x < y \<or> (x = y \<and> bytes_less xs ys))"

definition compute_pool_pda_seed :: "hash_fn \<Rightarrow> account_id \<Rightarrow> account_id \<Rightarrow> (panic, pda_seed) result" where
  "compute_pool_pda_seed H a b =
     (if bytes_less a b then Inr (H (b @ a))
      else if bytes_less b a then Inr (H (a @ b))
      else Inl ''Definitions match'')"

definition compute_pool_pda :: "hash_fn \<Rightarrow> program_id \<Rightarrow> account_id \<Rightarrow> account_id \<Rightarrow> (panic, account_id) result" where
  "compute_pool_pda H amm a b = rbind (compute_pool_pda_seed H a b) (\<lambda>seed. Inr (for_public_pda H amm seed))"

definition compute_vault_pda_seed :: "hash_fn \<Rightarrow> account_id \<Rightarrow> account_id \<Rightarrow> pda_seed" where
  "compute_vault_pda_seed H pool_id token_id = H (pool_id @ token_id)"

definition compute_vault_pda :: "hash_fn \<Rightarrow> program_id \<Rightarrow> account_id \<Rightarrow> account_id \<Rightarrow> account_id" where
  "compute_vault_pda H amm pool_id token_id = for_public_pda H amm (compute_vault_pda_seed H pool_id token_id)"

definition compute_liquidity_token_pda_seed :: "hash_fn \<Rightarrow> account_id \<Rightarrow> pda_seed" where
  "compute_liquidity_token_pda_seed H pool_id = H (pool_id @ replicate 32 0)"

definition compute_liquidity_token_pda :: "hash_fn \<Rightarrow> program_id \<Rightarrow> account_id \<Rightarrow> account_id" where
  "compute_liquidity_token_pda H amm pool_id = for_public_pda H amm (compute_liquidity_token_pda_seed H pool_id)"

section \<open>Arithmetic\<close>

definition OVERFLOW :: panic where
  "OVERFLOW = ''attempt to compute with overflow''"

definition DIV_ZERO :: panic where
  "DIV_ZERO = ''attempt to divide by zero''"

text \<open>\<open>x * y / z\<close>, as the pool computes its shares.\<close>

definition mul_div :: "bool \<Rightarrow> u128 \<Rightarrow> u128 \<Rightarrow> u128 \<Rightarrow> (panic, u128) result" where
  "mul_div oc x y z = expect (op_mul oc x y) OVERFLOW (\<lambda>m. expect (op_div m z) DIV_ZERO Inr)"

text \<open>\<open>u128::isqrt\<close>: the square root, rounded down.\<close>

fun isqrt_nat :: "nat \<Rightarrow> nat" where
  "isqrt_nat n =
     (if n = 0 then 0
      else let r = 2 * isqrt_nat (n div 4) in if (r + 1) * (r + 1) \<le> n then r + 1 else r)"

declare isqrt_nat.simps [simp del]

definition isqrt :: "u128 \<Rightarrow> u128" where
  "isqrt w = word_of_nat (isqrt_nat (unat w))"

section \<open>Operations\<close>

type_synonym amm_result = "(panic, post_state list \<times> chained_call list) result"

text \<open>The balance of an account that has to be a fungible holding.\<close>

definition fungible_balance :: "panic \<Rightarrow> panic \<Rightarrow> account_meta \<Rightarrow> (u128 \<Rightarrow> (panic, 'b) result) \<Rightarrow> (panic, 'b) result" where
  "fungible_balance invalid not_fungible a k =
     expect (token_holding_try_from (data (account a))) invalid (\<lambda>h.
     case h of FungibleHolding _ b \<Rightarrow> k b | _ \<Rightarrow> Inl not_fungible)"

definition validate_swap_setup :: "account_meta \<Rightarrow> account_meta \<Rightarrow> account_meta \<Rightarrow> (panic, pool_definition) result" where
  "validate_swap_setup pool vault_a vault_b =
     expect (pool_try_from (data (account pool))) ''AMM Program expects a valid Pool Definition Account'' (\<lambda>p.
     ensure (active p) ''Pool is inactive'' (
     ensure (account_id vault_a = vault_a_id p) ''Vault A was not provided'' (
     ensure (account_id vault_b = vault_b_id p) ''Vault B was not provided'' (
     fungible_balance ''AMM Program expects a valid Token Holding Account for Vault A''
       ''AMM Program expects a valid Fungible Token Holding Account for Vault A'' vault_a (\<lambda>vault_a_balance.
     ensure (vault_a_balance \<ge> reserve_a p) ''Reserve for Token A exceeds vault balance'' (
     fungible_balance ''AMM Program expects a valid Token Holding Account for Vault B''
       ''AMM Program expects a valid Fungible Token Holding Account for Vault B'' vault_b (\<lambda>vault_b_balance.
     ensure (vault_b_balance \<ge> reserve_b p) ''Reserve for Token B exceeds vault balance'' (
     Inr p))))))))"

definition create_swap_post_states :: "bool \<Rightarrow> account_meta \<Rightarrow> pool_definition \<Rightarrow> account_meta \<Rightarrow> account_meta
    \<Rightarrow> account_meta \<Rightarrow> account_meta \<Rightarrow> u128 \<Rightarrow> u128 \<Rightarrow> u128 \<Rightarrow> u128 \<Rightarrow> (panic, post_state list) result" where
  "create_swap_post_states oc pool p vault_a vault_b user_a user_b deposit_a withdraw_a deposit_b withdraw_b =
     expect (op_add oc (reserve_a p) deposit_a) OVERFLOW (\<lambda>ra. expect (op_sub oc ra withdraw_a) OVERFLOW (\<lambda>ra.
     expect (op_add oc (reserve_b p) deposit_b) OVERFLOW (\<lambda>rb. expect (op_sub oc rb withdraw_b) OVERFLOW (\<lambda>rb.
     data_of_pool (p\<lparr> reserve_a := ra, reserve_b := rb \<rparr>) (\<lambda>d.
     Inr (post_new ((account pool)\<lparr> data := d \<rparr>) # unchanged_post_states [vault_a, vault_b, user_a, user_b]))))))"

text \<open>The two transfers of a swap: into one vault, and out of the other in the name of the program.\<close>

definition swap_calls :: "hash_fn \<Rightarrow> (token_instruction \<Rightarrow> instruction_data) \<Rightarrow> panic \<Rightarrow> account_meta \<Rightarrow> account_meta
    \<Rightarrow> account_meta \<Rightarrow> account_meta \<Rightarrow> account_id \<Rightarrow> u128 \<Rightarrow> u128 \<Rightarrow> (panic, chained_call list) result" where
  "swap_calls H enc_tk invalid user_deposit vault_deposit vault_withdraw user_withdraw pool_id deposit withdraw =
     (let token_program_id = program_owner (account user_deposit);
          vault_withdraw = vault_withdraw\<lparr> is_authorized := True \<rparr>
      in expect (token_holding_try_from (data (account vault_withdraw))) invalid (\<lambda>h.
         let pda_seed = compute_vault_pda_seed H pool_id (definition_id h)
         in Inr [chained_call_new enc_tk token_program_id [user_deposit, vault_deposit] (TK_Transfer deposit),
                 with_pda_seeds (chained_call_new enc_tk token_program_id [vault_withdraw, user_withdraw]
                   (TK_Transfer withdraw)) [pda_seed]]))"

definition swap_logic :: "bool \<Rightarrow> hash_fn \<Rightarrow> (token_instruction \<Rightarrow> instruction_data) \<Rightarrow> account_meta \<Rightarrow> account_meta
    \<Rightarrow> account_meta \<Rightarrow> account_meta \<Rightarrow> u128 \<Rightarrow> u128 \<Rightarrow> u128 \<Rightarrow> u128 \<Rightarrow> account_id
    \<Rightarrow> (panic, chained_call list \<times> u128 \<times> u128) result" where
  "swap_logic oc H enc_tk user_deposit vault_deposit vault_withdraw user_withdraw swap_amount_in min_amount_out
       reserve_deposit reserve_withdraw pool_id =
     expect (checked_mul reserve_withdraw swap_amount_in) ''reserve * amount_in overflows u128'' (\<lambda>m.
     expect (op_add oc reserve_deposit swap_amount_in) OVERFLOW (\<lambda>sum.
     expect (op_div m sum) DIV_ZERO (\<lambda>withdraw_amount.
     ensure (min_amount_out \<le> withdraw_amount) ''Withdraw amount is less than minimal amount out'' (
     ensure (withdraw_amount \<noteq> 0) ''Withdraw amount should be nonzero'' (
     rbind (swap_calls H enc_tk ''Swap Logic: AMM Program expects valid token data''
       user_deposit vault_deposit vault_withdraw user_withdraw pool_id swap_amount_in withdraw_amount) (\<lambda>calls.
     Inr (calls, swap_amount_in, withdraw_amount)))))))"

definition exact_output_swap_logic :: "hash_fn \<Rightarrow> (token_instruction \<Rightarrow> instruction_data) \<Rightarrow> account_meta \<Rightarrow> account_meta
    \<Rightarrow> account_meta \<Rightarrow> account_meta \<Rightarrow> u128 \<Rightarrow> u128 \<Rightarrow> u128 \<Rightarrow> u128 \<Rightarrow> account_id
    \<Rightarrow> (panic, chained_call list \<times> u128 \<times> u128) result" where
  "exact_output_swap_logic H enc_tk user_deposit vault_deposit vault_withdraw user_withdraw exact_amount_out max_amount_in
       reserve_deposit reserve_withdraw pool_id =
     ensure (exact_amount_out \<noteq> 0) ''Exact amount out must be nonzero'' (
     ensure (exact_amount_out < reserve_withdraw) ''Exact amount out exceeds reserve'' (
     expect (checked_mul reserve_deposit exact_amount_out) ''reserve * amount_out overflows u128'' (\<lambda>m.
     expect (op_div_ceil m (reserve_withdraw - exact_amount_out)) DIV_ZERO (\<lambda>deposit_amount.
     ensure (deposit_amount \<le> max_amount_in) ''Required input exceeds maximum amount in'' (
     rbind (swap_calls H enc_tk ''Exact Output Swap Logic: AMM Program expects valid token data''
       user_deposit vault_deposit vault_withdraw user_withdraw pool_id deposit_amount exact_amount_out) (\<lambda>calls.
     Inr (calls, deposit_amount, exact_amount_out)))))))"

text \<open>The direction of a swap, which the two swap instructions share.\<close>

definition swap_with :: "(account_meta \<Rightarrow> account_meta \<Rightarrow> account_meta \<Rightarrow> account_meta \<Rightarrow> u128 \<Rightarrow> u128
      \<Rightarrow> (panic, chained_call list \<times> u128 \<times> u128) result)
    \<Rightarrow> bool \<Rightarrow> account_meta \<Rightarrow> account_meta \<Rightarrow> account_meta \<Rightarrow> account_meta \<Rightarrow> account_meta \<Rightarrow> account_id \<Rightarrow> amm_result" where
  "swap_with logic oc pool vault_a vault_b user_a user_b token_in_id =
     rbind (validate_swap_setup pool vault_a vault_b) (\<lambda>p.
     rbind (if token_in_id = definition_token_a_id p
            then rbind (logic user_a vault_a vault_b user_b (reserve_a p) (reserve_b p)) (\<lambda>(calls, deposit_a, withdraw_b).
                 Inr (calls, deposit_a, 0, 0, withdraw_b))
            else if token_in_id = definition_token_b_id p
            then rbind (logic user_b vault_b vault_a user_a (reserve_b p) (reserve_a p)) (\<lambda>(calls, deposit_b, withdraw_a).
                 Inr (calls, 0, withdraw_a, deposit_b, 0))
            else Inl ''AccountId is not a token type for the pool'')
       (\<lambda>(calls, deposit_a, withdraw_a, deposit_b, withdraw_b).
     rbind (create_swap_post_states oc pool p vault_a vault_b user_a user_b deposit_a withdraw_a deposit_b withdraw_b)
       (\<lambda>posts. Inr (posts, calls))))"

definition swap_exact_input :: "bool \<Rightarrow> hash_fn \<Rightarrow> (token_instruction \<Rightarrow> instruction_data) \<Rightarrow> account_meta \<Rightarrow> account_meta
    \<Rightarrow> account_meta \<Rightarrow> account_meta \<Rightarrow> account_meta \<Rightarrow> u128 \<Rightarrow> u128 \<Rightarrow> account_id \<Rightarrow> amm_result" where
  "swap_exact_input oc H enc_tk pool vault_a vault_b user_a user_b swap_amount_in min_amount_out token_in_id =
     swap_with (\<lambda>ud vd vw uw rd rw. swap_logic oc H enc_tk ud vd vw uw swap_amount_in min_amount_out rd rw (account_id pool))
       oc pool vault_a vault_b user_a user_b token_in_id"

definition swap_exact_output :: "bool \<Rightarrow> hash_fn \<Rightarrow> (token_instruction \<Rightarrow> instruction_data) \<Rightarrow> account_meta \<Rightarrow> account_meta
    \<Rightarrow> account_meta \<Rightarrow> account_meta \<Rightarrow> account_meta \<Rightarrow> u128 \<Rightarrow> u128 \<Rightarrow> account_id \<Rightarrow> amm_result" where
  "swap_exact_output oc H enc_tk pool vault_a vault_b user_a user_b exact_amount_out max_amount_in token_in_id =
     swap_with (\<lambda>ud vd vw uw rd rw. exact_output_swap_logic H enc_tk ud vd vw uw exact_amount_out max_amount_in rd rw (account_id pool))
       oc pool vault_a vault_b user_a user_b token_in_id"

text \<open>What is deposited and minted for the offered maxima.\<close>

definition add_amounts :: "bool \<Rightarrow> pool_definition \<Rightarrow> u128 \<Rightarrow> u128 \<Rightarrow> u128 \<Rightarrow> (panic, u128 \<times> u128 \<times> u128) result" where
  "add_amounts oc p min_amount_liquidity max_a max_b =
     rbind (mul_div oc (reserve_a p) max_b (reserve_b p)) (\<lambda>ideal_a.
     rbind (mul_div oc (reserve_b p) max_a (reserve_a p)) (\<lambda>ideal_b.
     let actual_amount_a = (if ideal_a > max_a then max_a else ideal_a);
         actual_amount_b = (if ideal_b > max_b then max_b else ideal_b)
     in ensure (max_a \<ge> actual_amount_a) ''Actual trade amounts cannot exceed max_amounts'' (
        ensure (max_b \<ge> actual_amount_b) ''Actual trade amounts cannot exceed max_amounts'' (
        ensure (actual_amount_a \<noteq> 0) ''A trade amount is 0'' (
        ensure (actual_amount_b \<noteq> 0) ''A trade amount is 0'' (
        rbind (mul_div oc (liquidity_pool_supply p) actual_amount_a (reserve_a p)) (\<lambda>lp_a.
        rbind (mul_div oc (liquidity_pool_supply p) actual_amount_b (reserve_b p)) (\<lambda>lp_b.
        let delta_lp = min lp_a lp_b
        in ensure (delta_lp \<noteq> 0) ''Payable LP must be nonzero'' (
           ensure (delta_lp \<ge> min_amount_liquidity) ''Payable LP is less than provided minimum LP amount'' (
           Inr (actual_amount_a, actual_amount_b, delta_lp)))))))))))"

definition add_liquidity :: "bool \<Rightarrow> hash_fn \<Rightarrow> (token_instruction \<Rightarrow> instruction_data) \<Rightarrow> account_meta \<Rightarrow> account_meta
    \<Rightarrow> account_meta \<Rightarrow> account_meta \<Rightarrow> account_meta \<Rightarrow> account_meta \<Rightarrow> account_meta \<Rightarrow> u128 \<Rightarrow> u128 \<Rightarrow> u128 \<Rightarrow> amm_result" where
  "add_liquidity oc H enc_tk pool vault_a vault_b pool_definition_lp user_a user_b user_lp min_amount_liquidity max_a max_b =
     expect (pool_try_from (data (account pool)))
       ''Add liquidity: AMM Program expects valid Pool Definition Account'' (\<lambda>p.
     ensure (account_id vault_a = vault_a_id p) ''Vault A was not provided'' (
     ensure (liquidity_pool_id p = account_id pool_definition_lp) ''LP definition mismatch'' (
     ensure (account_id vault_b = vault_b_id p) ''Vault B was not provided'' (
     ensure (max_a \<noteq> 0 \<and> max_b \<noteq> 0) ''Both max-balances must be nonzero'' (
     fungible_balance ''Add liquidity: AMM Program expects valid Token Holding Account for Vault B''
       ''Add liquidity: AMM Program expects valid Fungible Token Holding Account for Vault B'' vault_b (\<lambda>vault_b_balance.
     fungible_balance ''Add liquidity: AMM Program expects valid Token Holding Account for Vault A''
       ''Add liquidity: AMM Program expects valid Fungible Token Holding Account for Vault A'' vault_a (\<lambda>vault_a_balance.
     ensure (reserve_a p \<noteq> 0) ''Reserves must be nonzero'' (
     ensure (reserve_b p \<noteq> 0) ''Reserves must be nonzero'' (
     ensure (vault_a_balance \<ge> reserve_a p) ''Vaults' balances must be at least the reserve amounts'' (
     ensure (vault_b_balance \<ge> reserve_b p) ''Vaults' balances must be at least the reserve amounts'' (
     rbind (add_amounts oc p min_amount_liquidity max_a max_b) (\<lambda>(actual_amount_a, actual_amount_b, delta_lp).
     expect (op_add oc (liquidity_pool_supply p) delta_lp) OVERFLOW (\<lambda>supply.
     expect (op_add oc (reserve_a p) actual_amount_a) OVERFLOW (\<lambda>ra.
     expect (op_add oc (reserve_b p) actual_amount_b) OVERFLOW (\<lambda>rb.
     data_of_pool (p\<lparr> liquidity_pool_supply := supply, reserve_a := ra, reserve_b := rb \<rparr>) (\<lambda>d.
     let token_program_id = program_owner (account user_a);
         call_token_a = chained_call_new enc_tk token_program_id [user_a, vault_a] (TK_Transfer actual_amount_a);
         call_token_b = chained_call_new enc_tk token_program_id [user_b, vault_b] (TK_Transfer actual_amount_b);
         call_token_lp = with_pda_seeds (chained_call_new enc_tk token_program_id
           [pool_definition_lp\<lparr> is_authorized := True \<rparr>, user_lp] (Mint delta_lp))
           [compute_liquidity_token_pda_seed H (account_id pool)]
     in Inr (post_new ((account pool)\<lparr> data := d \<rparr>)
               # unchanged_post_states [vault_a, vault_b, pool_definition_lp, user_a, user_b, user_lp],
             [call_token_lp, call_token_b, call_token_a])))))))))))))))))"

text \<open>What is paid out and burned for an amount of liquidity.\<close>

definition remove_amounts :: "bool \<Rightarrow> pool_definition \<Rightarrow> u128 \<Rightarrow> u128 \<Rightarrow> u128 \<Rightarrow> (panic, u128 \<times> u128 \<times> u128) result" where
  "remove_amounts oc p remove_liquidity_amount min_a min_b =
     rbind (mul_div oc (reserve_a p) remove_liquidity_amount (liquidity_pool_supply p)) (\<lambda>withdraw_amount_a.
     rbind (mul_div oc (reserve_b p) remove_liquidity_amount (liquidity_pool_supply p)) (\<lambda>withdraw_amount_b.
     ensure (withdraw_amount_a \<ge> min_a)
       ''Insufficient minimal withdraw amount (Token A) provided for liquidity amount'' (
     ensure (withdraw_amount_b \<ge> min_b)
       ''Insufficient minimal withdraw amount (Token B) provided for liquidity amount'' (
     rbind (mul_div oc (liquidity_pool_supply p) remove_liquidity_amount (liquidity_pool_supply p)) (\<lambda>delta_lp.
     Inr (withdraw_amount_a, withdraw_amount_b, delta_lp))))))"

definition remove_liquidity :: "bool \<Rightarrow> hash_fn \<Rightarrow> (token_instruction \<Rightarrow> instruction_data) \<Rightarrow> account_meta \<Rightarrow> account_meta
    \<Rightarrow> account_meta \<Rightarrow> account_meta \<Rightarrow> account_meta \<Rightarrow> account_meta \<Rightarrow> account_meta \<Rightarrow> u128 \<Rightarrow> u128 \<Rightarrow> u128 \<Rightarrow> amm_result" where
  "remove_liquidity oc H enc_tk pool vault_a vault_b pool_definition_lp user_a user_b user_lp remove_liquidity_amount min_a min_b =
     expect (pool_try_from (data (account pool)))
       ''Remove liquidity: AMM Program expects a valid Pool Definition Account'' (\<lambda>p.
     ensure (active p) ''Pool is inactive'' (
     ensure (liquidity_pool_id p = account_id pool_definition_lp) ''LP definition mismatch'' (
     ensure (account_id vault_a = vault_a_id p) ''Vault A was not provided'' (
     ensure (account_id vault_b = vault_b_id p) ''Vault B was not provided'' (
     ensure (min_a \<noteq> 0) ''Minimum withdraw amount must be nonzero'' (
     ensure (min_b \<noteq> 0) ''Minimum withdraw amount must be nonzero'' (
     expect (token_holding_try_from (data (account user_lp)))
       ''Remove liquidity: AMM Program expects a valid Token Account for liquidity token'' (\<lambda>user_holding_lp_data.
     fungible_balance ''Remove liquidity: AMM Program expects a valid Token Account for liquidity token''
       ''Remove liquidity: AMM Program expects a valid Fungible Token Holding Account for liquidity token'' user_lp (\<lambda>user_lp_balance.
     ensure (user_lp_balance \<le> liquidity_pool_supply p) ''Invalid liquidity account provided'' (
     ensure (definition_id user_holding_lp_data = liquidity_pool_id p) ''Invalid liquidity account provided'' (
     rbind (remove_amounts oc p remove_liquidity_amount min_a min_b) (\<lambda>(withdraw_amount_a, withdraw_amount_b, delta_lp).
     expect (op_sub oc (liquidity_pool_supply p) delta_lp) OVERFLOW (\<lambda>supply.
     expect (op_sub oc (reserve_a p) withdraw_amount_a) OVERFLOW (\<lambda>ra.
     expect (op_sub oc (reserve_b p) withdraw_amount_b) OVERFLOW (\<lambda>rb.
     data_of_pool (p\<lparr> liquidity_pool_supply := supply, reserve_a := ra, reserve_b := rb, active := (supply \<noteq> 0) \<rparr>) (\<lambda>d.
     let token_program_id = program_owner (account user_a);
         call_token_a = with_pda_seeds (chained_call_new enc_tk token_program_id
           [vault_a\<lparr> is_authorized := True \<rparr>, user_a] (TK_Transfer withdraw_amount_a))
           [compute_vault_pda_seed H (account_id pool) (definition_token_a_id p)];
         call_token_b = with_pda_seeds (chained_call_new enc_tk token_program_id
           [vault_b\<lparr> is_authorized := True \<rparr>, user_b] (TK_Transfer withdraw_amount_b))
           [compute_vault_pda_seed H (account_id pool) (definition_token_b_id p)];
         call_token_lp = with_pda_seeds (chained_call_new enc_tk token_program_id
           [pool_definition_lp\<lparr> is_authorized := True \<rparr>, user_lp] (Burn delta_lp))
           [compute_liquidity_token_pda_seed H (account_id pool)]
     in Inr (post_new ((account pool)\<lparr> data := d \<rparr>)
               # unchanged_post_states [vault_a, vault_b, pool_definition_lp, user_a, user_b, user_lp],
             [call_token_lp, call_token_b, call_token_a])))))))))))))))))"

definition LP_TOKEN_NAME :: bytes where
  "LP_TOKEN_NAME = [76, 80, 32, 84, 111, 107, 101, 110]"

definition amm_new_definition :: "bool \<Rightarrow> hash_fn \<Rightarrow> (token_instruction \<Rightarrow> instruction_data) \<Rightarrow> account_meta \<Rightarrow> account_meta
    \<Rightarrow> account_meta \<Rightarrow> account_meta \<Rightarrow> account_meta \<Rightarrow> account_meta \<Rightarrow> account_meta \<Rightarrow> u128 \<Rightarrow> u128 \<Rightarrow> program_id \<Rightarrow> amm_result" where
  "amm_new_definition oc H enc_tk pool vault_a vault_b pool_definition_lp user_a user_b user_lp token_a_amount token_b_amount amm_program_id =
     expect (token_holding_try_from (data (account user_a)))
       ''New definition: AMM Program expects valid Token Holding account for Token A'' (\<lambda>ha.
     expect (token_holding_try_from (data (account user_b)))
       ''New definition: AMM Program expects valid Token Holding account for Token B'' (\<lambda>hb.
     let token_a_id = definition_id ha; token_b_id = definition_id hb;
         token_program = program_owner (account user_a) in
     ensure (program_owner (account user_b) = token_program) ''User Token holdings must use the same Token Program'' (
     ensure (token_a_id \<noteq> token_b_id) ''Cannot set up a swap for a token with itself'' (
     rbind (compute_pool_pda H amm_program_id token_a_id token_b_id) (\<lambda>pool_pda.
     ensure (account_id pool = pool_pda) ''Pool Definition Account ID does not match PDA'' (
     ensure (account_id vault_a = compute_vault_pda H amm_program_id (account_id pool) token_a_id) ''Vault ID does not match PDA'' (
     ensure (account_id vault_b = compute_vault_pda H amm_program_id (account_id pool) token_b_id) ''Vault ID does not match PDA'' (
     ensure (account_id pool_definition_lp = compute_liquidity_token_pda H amm_program_id (account_id pool))
       ''Liquidity pool Token Definition Account ID does not match PDA'' (
     expect (if account pool = default_account then Some default_pool else pool_try_from (data (account pool)))
       ''AMM program expects a valid Pool account'' (\<lambda>pool_account_data.
     ensure (\<not> active pool_account_data) ''Cannot initialize an active Pool Definition'' (
     expect (op_mul oc token_a_amount token_b_amount) OVERFLOW (\<lambda>product.
     let initial_lp = isqrt product;
         instruction = (if account pool = default_account then NewFungibleDefinition LP_TOKEN_NAME initial_lp else Mint initial_lp)
     in data_of_pool \<lparr> definition_token_a_id = token_a_id, definition_token_b_id = token_b_id,
          vault_a_id = account_id vault_a, vault_b_id = account_id vault_b,
          liquidity_pool_id = account_id pool_definition_lp, liquidity_pool_supply = initial_lp,
          reserve_a = token_a_amount, reserve_b = token_b_amount, fees = 0, active = True \<rparr> (\<lambda>d.
     rbind (compute_pool_pda_seed H token_a_id token_b_id) (\<lambda>pool_pda_seed.
     let pool_post = new_claimed_if_default ((account pool)\<lparr> data := d \<rparr>) (Claim_Pda pool_pda_seed);
         call_token_a = with_pda_seeds (chained_call_new enc_tk token_program
           [user_a, vault_a\<lparr> is_authorized := True \<rparr>] (TK_Transfer token_a_amount))
           [compute_vault_pda_seed H (account_id pool) token_a_id];
         call_token_b = with_pda_seeds (chained_call_new enc_tk token_program
           [user_b, vault_b\<lparr> is_authorized := True \<rparr>] (TK_Transfer token_b_amount))
           [compute_vault_pda_seed H (account_id pool) token_b_id];
         call_token_lp = with_pda_seeds (chained_call_new enc_tk token_program
           [pool_definition_lp\<lparr> is_authorized := True \<rparr>, user_lp] instruction)
           [compute_liquidity_token_pda_seed H (account_id pool)]
     in Inr (pool_post # unchanged_post_states [vault_a, vault_b, pool_definition_lp, user_a, user_b, user_lp],
             [call_token_lp, call_token_b, call_token_a])))))))))))))))"

definition with5 :: "panic \<Rightarrow> 'a list \<Rightarrow> ('a \<Rightarrow> 'a \<Rightarrow> 'a \<Rightarrow> 'a \<Rightarrow> 'a \<Rightarrow> (panic, 'b) result) \<Rightarrow> (panic, 'b) result" where
  "with5 msg xs k = (case xs of [a, b, c, d, e] \<Rightarrow> k a b c d e | _ \<Rightarrow> Inl msg)"

definition with7 :: "panic \<Rightarrow> 'a list \<Rightarrow> ('a \<Rightarrow> 'a \<Rightarrow> 'a \<Rightarrow> 'a \<Rightarrow> 'a \<Rightarrow> 'a \<Rightarrow> 'a \<Rightarrow> (panic, 'b) result) \<Rightarrow> (panic, 'b) result" where
  "with7 msg xs k = (case xs of [a, b, c, d, e, f, g] \<Rightarrow> k a b c d e f g | _ \<Rightarrow> Inl msg)"

definition amm_dispatch :: "bool \<Rightarrow> hash_fn \<Rightarrow> (token_instruction \<Rightarrow> instruction_data) \<Rightarrow> account_meta list
    \<Rightarrow> amm_instruction \<Rightarrow> amm_result" where
  "amm_dispatch oc H enc_tk pres instr =
     (case instr of
        NewDefinition token_a_amount token_b_amount amm_program_id \<Rightarrow>
          with7 ''Transfer instruction requires exactly seven accounts'' pres (\<lambda>pool va vb lp ua ub ul.
          ensure (token_a_amount \<noteq> 0) ''Token A should have a nonzero amount'' (
          ensure (token_b_amount \<noteq> 0) ''Token B should have a nonzero amount'' (
          amm_new_definition oc H enc_tk pool va vb lp ua ub ul token_a_amount token_b_amount amm_program_id)))
      | AddLiquidity min_amount_liquidity max_a max_b \<Rightarrow>
          with7 ''Transfer instruction requires exactly seven accounts'' pres (\<lambda>pool va vb lp ua ub ul.
          ensure (min_amount_liquidity \<noteq> 0) ''Min amount of liquidity should be nonzero'' (
          add_liquidity oc H enc_tk pool va vb lp ua ub ul min_amount_liquidity max_a max_b))
      | RemoveLiquidity remove_liquidity_amount min_a min_b \<Rightarrow>
          with7 ''Transfer instruction requires exactly seven accounts'' pres (\<lambda>pool va vb lp ua ub ul.
          ensure (remove_liquidity_amount \<noteq> 0) ''Remove liquidity amount must be nonzero'' (
          remove_liquidity oc H enc_tk pool va vb lp ua ub ul remove_liquidity_amount min_a min_b))
      | SwapExactInput swap_amount_in min_amount_out token_in_id \<Rightarrow>
          with5 ''SwapExactInput instruction requires exactly five accounts'' pres (\<lambda>pool va vb ua ub.
          swap_exact_input oc H enc_tk pool va vb ua ub swap_amount_in min_amount_out token_in_id)
      | SwapExactOutput exact_amount_out max_amount_in token_in_id \<Rightarrow>
          with5 ''SwapExactOutput instruction requires exactly five accounts'' pres (\<lambda>pool va vb ua ub.
          swap_exact_output oc H enc_tk pool va vb ua ub exact_amount_out max_amount_in token_in_id))"

definition amm_main :: "bool \<Rightarrow> hash_fn \<Rightarrow> (instruction_data \<Rightarrow> amm_instruction option)
    \<Rightarrow> (token_instruction \<Rightarrow> instruction_data) \<Rightarrow> guest" where
  "amm_main oc H dec enc_tk self caller pres words =
     read_lee_inputs dec words (\<lambda>instr.
     rbind (amm_dispatch oc H enc_tk pres instr) (\<lambda>(posts, calls).
     Inr (with_chained_calls (program_output_new self caller words pres posts) calls)))"

section \<open>Codec and arithmetic facts\<close>

definition wf_pool :: "pool_definition \<Rightarrow> bool" where
  "wf_pool p \<longleftrightarrow> wf_id (definition_token_a_id p) \<and> wf_id (definition_token_b_id p) \<and> wf_id (vault_a_id p)
     \<and> wf_id (vault_b_id p) \<and> wf_id (liquidity_pool_id p)"

lemma pool_codec: "pool_try_from bs = Some p \<longleftrightarrow> wf_pool p \<and> bs = pool_to_bytes p"
proof
  assume "pool_try_from bs = Some p"
  then show "wf_pool p \<and> bs = pool_to_bytes p"
    by (auto simp: pool_try_from_def from_slice_Some de_pool_def de_bool_def decoded wf_pool_def wf_id_def
        pool_to_bytes_def en_bool_def split: if_splits)
next
  assume "wf_pool p \<and> bs = pool_to_bytes p"
  then show "pool_try_from bs = Some p"
    by (simp add: pool_try_from_def from_slice_Some de_pool_def decode wf_pool_def wf_id_def pool_to_bytes_def)
qed

lemma isqrt_nat_bounds: "isqrt_nat n * isqrt_nat n \<le> n \<and> n < (isqrt_nat n + 1) * (isqrt_nat n + 1)"
proof (induction n rule: isqrt_nat.induct)
  case (1 n)
  show ?case
  proof (cases "n = 0")
    case False
    let ?s = "isqrt_nat (n div 4)"
    have s: "?s * ?s \<le> n div 4" "n div 4 < (?s + 1) * (?s + 1)" using 1 False by blast+
    have a: "(2 * ?s) * (2 * ?s) \<le> n" using s(1) by simp
    have b: "n < (2 * ?s + 2) * (2 * ?s + 2)" using s(2) by simp
    have "isqrt_nat n = (if (2 * ?s + 1) * (2 * ?s + 1) \<le> n then 2 * ?s + 1 else 2 * ?s)"
      using False by (subst isqrt_nat.simps) (simp add: Let_def)
    then show ?thesis using a b by auto
  qed (simp add: isqrt_nat.simps)
qed

lemma mul_div_True:
  "mul_div True x y z = Inr r \<longleftrightarrow> unat x * unat y < 2 ^ 128 \<and> z \<noteq> 0 \<and> unat r = unat x * unat y div unat z"
proof -
  have "r = x * y div z \<longleftrightarrow> unat r = unat (x * y) div unat z"
    by (simp add: word_unat_eq_iff unat_div)
  then show ?thesis
    by (auto simp: mul_div_def op_mul_def checked_mul_def op_div_Some res_simps unat_mult_no_wrap split: if_splits)
qed

lemma op_True [arith_simps]:
  "op_add True a b = checked_add a b" "op_sub True a b = checked_sub a b"
  by (simp_all add: op_add_def op_sub_def)

lemma data_of_pool_Inr [res_simps]:
  "data_of_pool p k = Inr x \<longleftrightarrow> length (pool_to_bytes p) \<le> DATA_MAX_LENGTH \<and> k (pool_to_bytes p) = Inr x"
  by (simp add: data_of_pool_def res_simps)

lemma fungible_balance_Inr [res_simps]:
  "fungible_balance m n a k = Inr x \<longleftrightarrow>
     (\<exists>i b. token_holding_try_from (data (account a)) = Some (FungibleHolding i b) \<and> k b = Inr x)"
proof (cases "token_holding_try_from (data (account a))")
  case (Some h)
  then show ?thesis by (cases h) (simp_all add: fungible_balance_def)
qed (simp add: fungible_balance_def)

lemma with57_Inr [res_simps]:
  "with5 m5 xs k5 = Inr x \<longleftrightarrow> (\<exists>a b c d e. xs = [a, b, c, d, e] \<and> k5 a b c d e = Inr x)"
  "with7 m7 ys k7 = Inr y \<longleftrightarrow> (\<exists>a b c d e f g. ys = [a, b, c, d, e, f, g] \<and> k7 a b c d e f g = Inr y)"
  by (auto simp: with5_def with7_def split: list.splits)

text \<open>
  The worth of a share: the product of the reserves, relative to the square of the supply of
  liquidity tokens.
\<close>

definition share_kept :: "pool_definition \<Rightarrow> pool_definition \<Rightarrow> bool" where
  "share_kept p q \<longleftrightarrow>
     unat (reserve_a p) * unat (reserve_b p) * unat (liquidity_pool_supply q) ^ 2
     \<le> unat (reserve_a q) * unat (reserve_b q) * unat (liquidity_pool_supply p) ^ 2"

lemma share_keptI:
  assumes "unat (liquidity_pool_supply q) * unat (reserve_a p) \<le> unat (liquidity_pool_supply p) * unat (reserve_a q)"
    and "unat (liquidity_pool_supply q) * unat (reserve_b p) \<le> unat (liquidity_pool_supply p) * unat (reserve_b q)"
  shows "share_kept p q"
  using mult_le_mono [OF assms] by (simp add: share_kept_def power2_eq_square ac_simps)

section \<open>Swaps\<close>

text \<open>
  The rule of a swap: what it pays out is in the reserve, and the product of the reserves does not
  go down.  Both swap instructions follow it.
\<close>

locale swap_rule =
  fixes logic :: "account_meta \<Rightarrow> account_meta \<Rightarrow> account_meta \<Rightarrow> account_meta \<Rightarrow> u128 \<Rightarrow> u128
      \<Rightarrow> (panic, chained_call list \<times> u128 \<times> u128) result"
  assumes product: "logic ud vd vw uw rd rw = Inr (calls, d, w) \<Longrightarrow>
    unat w \<le> unat rw \<and> unat rd * unat rw \<le> (unat rd + unat d) * (unat rw - unat w)"
begin

lemma swap_keeps_share:
  assumes "swap_with logic True pool va vb ua ub i = Inr (posts, calls)" "pool_try_from (data (account pool)) = Some p"
  shows "\<exists>p'. pool_try_from (data (ps_account (posts ! 0))) = Some p' \<and> share_kept p p'"
proof -
  from assms obtain da wa db wb where
    post: "create_swap_post_states True pool p va vb ua ub da wa db wb = Inr posts"
    and dir: "(\<exists>c. logic ua va vb ub (reserve_a p) (reserve_b p) = Inr (c, da, wb)) \<and> wa = 0 \<and> db = 0
      \<or> (\<exists>c. logic ub vb va ua (reserve_b p) (reserve_a p) = Inr (c, db, wa)) \<and> wb = 0 \<and> da = 0"
    by (auto simp: swap_with_def validate_swap_setup_def res_simps split: if_splits)
  from post obtain ra rb where r: "unat ra + unat wa = unat (reserve_a p) + unat da"
    "unat rb + unat wb = unat (reserve_b p) + unat db"
    and "posts = post_new ((account pool)\<lparr> data := pool_to_bytes (p\<lparr> reserve_a := ra, reserve_b := rb \<rparr>) \<rparr>) # unchanged_post_states [va, vb, ua, ub]"
    by (auto simp: create_swap_post_states_def res_simps arith_simps)
  then have d: "data (ps_account (posts ! 0)) = pool_to_bytes (p\<lparr> reserve_a := ra, reserve_b := rb \<rparr>)" by simp
  have "wf_pool (p\<lparr> reserve_a := ra, reserve_b := rb \<rparr>)" using assms(2) by (simp add: pool_codec wf_pool_def)
  moreover from dir have "unat (reserve_a p) * unat (reserve_b p) \<le> unat ra * unat rb"
  proof (elim disjE conjE exE)
    fix c assume *: "logic ua va vb ub (reserve_a p) (reserve_b p) = Inr (c, da, wb)" "wa = 0" "db = 0"
    then have "unat ra = unat (reserve_a p) + unat da" "unat rb = unat (reserve_b p) - unat wb" using r by simp_all
    with product [OF *(1)] show ?thesis by simp
  next
    fix c assume *: "logic ub vb va ua (reserve_b p) (reserve_a p) = Inr (c, db, wa)" "wb = 0" "da = 0"
    then have "unat rb = unat (reserve_b p) + unat db" "unat ra = unat (reserve_a p) - unat wa" using r by simp_all
    with product [OF *(1)] show ?thesis by (simp add: mult.commute)
  qed
  ultimately show ?thesis
    by (intro exI [of _ "p\<lparr> reserve_a := ra, reserve_b := rb \<rparr>"]) (simp add: d pool_codec share_kept_def mult_le_mono1)
qed

end

lemma product_of_input:
  fixes rd rw x w :: nat
  assumes "w * (rd + x) \<le> rw * x" "0 < x \<or> 0 < rd"
  shows "w \<le> rw \<and> rd * rw \<le> (rd + x) * (rw - w)"
proof
  have "rw * x \<le> rw * (rd + x)" by (simp add: algebra_simps)
  with assms show "w \<le> rw" by (metis le_trans mult_le_cancel2 add_gr_0)
  have "(rd + x) * (rw - w) = (rd + x) * rw - (rd + x) * w" by (rule diff_mult_distrib2)
  moreover have "(rd + x) * rw = rd * rw + rw * x" by (simp add: algebra_simps)
  ultimately show "rd * rw \<le> (rd + x) * (rw - w)" using assms by (simp add: mult.commute)
qed

lemma product_of_output:
  fixes rd rw d w :: nat
  assumes "rd * w \<le> d * (rw - w)" "w \<le> rw"
  shows "rd * rw \<le> (rd + d) * (rw - w)"
proof -
  have "rd * rw = rd * (rw - w) + rd * w" using assms(2) by (simp flip: distrib_left)
  also have "\<dots> \<le> rd * (rw - w) + d * (rw - w)" using assms(1) by simp
  also have "\<dots> = (rd + d) * (rw - w)" by (simp add: distrib_right)
  finally show ?thesis .
qed

lemma div_ceil_covers: "op_div_ceil (m :: u128) z = Some d \<Longrightarrow> unat m \<le> unat d * unat z"
proof -
  assume a: "op_div_ceil m z = Some d"
  then have z: "0 < unat z" by (auto simp: op_div_ceil_def unat_gt_0 split: if_splits)
  show ?thesis
  proof (cases "m mod z = 0")
    case True
    then have "unat m mod unat z = 0" by (metis unat_0 unat_mod)
    with a True show ?thesis by (auto simp: op_div_ceil_def unat_div split: if_splits)
  next
    case False
    then have nz: "unat m mod unat z \<noteq> 0" by (metis unat_mod unat_eq_zero)
    have "unat m div unat z < unat m"
    proof (rule div_less_dividend)
      show "1 < unat z" using nz z by (cases "unat z = 1") simp_all
      show "0 < unat m" using nz by (cases "unat m = 0") simp_all
    qed
    then have "unat m div unat z + 1 < 2 ^ LENGTH(128)" using unat_lt2p [of m] by linarith
    then have "unat d = unat m div unat z + 1"
      using a False by (auto simp: op_div_ceil_def unat_div unat_add_no_wrap split: if_splits)
    moreover have "unat m < (unat m div unat z + 1) * unat z" using z
      by (simp add: dividend_less_div_times)
    ultimately show ?thesis by simp
  qed
qed

interpretation exact_in: swap_rule "\<lambda>ud vd vw uw rd rw. swap_logic True H enc_tk ud vd vw uw x m rd rw i" for H enc_tk x m i
proof
  fix ud vd vw uw rd rw calls d w
  assume "swap_logic True H enc_tk ud vd vw uw x m rd rw i = Inr (calls, d, w)"
  then obtain pr sm where "unat pr = unat rw * unat x" "unat sm = unat rd + unat x" "w = pr div sm" "sm \<noteq> 0" "d = x"
    by (auto simp: swap_logic_def res_simps arith_simps)
  moreover from this have "unat w * unat sm \<le> unat rw * unat x" by (simp add: unat_div)
  moreover have "0 < unat x \<or> 0 < unat rd" using calculation(2,4) by (metis add_is_0 gr0I unat_eq_zero)
  ultimately show "unat w \<le> unat rw \<and> unat rd * unat rw \<le> (unat rd + unat d) * (unat rw - unat w)"
    using product_of_input [of "unat w" "unat rd" "unat x" "unat rw"] by simp
qed

interpretation exact_out: swap_rule "\<lambda>ud vd vw uw rd rw. exact_output_swap_logic H enc_tk ud vd vw uw x m rd rw i" for H enc_tk x m i
proof
  fix ud vd vw uw rd rw calls d w
  assume "exact_output_swap_logic H enc_tk ud vd vw uw x m rd rw i = Inr (calls, d, w)"
  then obtain pr where *: "unat pr = unat rd * unat x" "op_div_ceil pr (rw - x) = Some d" "w = x" "x < rw"
    by (auto simp: exact_output_swap_logic_def res_simps arith_simps)
  then have "unat w \<le> unat rw" "unat (rw - x) = unat rw - unat w"
    by (simp_all add: word_less_nat_alt unat_sub_no_wrap)
  with div_ceil_covers [OF *(2)] *(1,3) show "unat w \<le> unat rw \<and> unat rd * unat rw \<le> (unat rd + unat d) * (unat rw - unat w)"
    using product_of_output [of "unat rd" "unat w" "unat d" "unat rw"] by simp
qed

section \<open>Liquidity\<close>

lemma add_amounts_share:
  assumes "add_amounts True p m x y = Inr (a, b, lp)"
  shows "unat lp * unat (reserve_a p) \<le> unat (liquidity_pool_supply p) * unat a"
    "unat lp * unat (reserve_b p) \<le> unat (liquidity_pool_supply p) * unat b"
    "a \<le> x" "b \<le> y" "m \<le> lp"
proof -
  let ?S = "unat (liquidity_pool_supply p)"
  from assms obtain la lb where l: "unat la = ?S * unat a div unat (reserve_a p)" "unat lb = ?S * unat b div unat (reserve_b p)"
    "lp = min la lb" and "a \<le> x" "b \<le> y" "m \<le> lp"
    by (auto simp: add_amounts_def Let_def res_simps mul_div_True)
  then show "a \<le> x" "b \<le> y" "m \<le> lp" by simp_all
  have le: "unat lp \<le> unat la" "unat lp \<le> unat lb" using l(3) by (simp_all add: word_le_nat_alt [symmetric])
  have "unat la * unat (reserve_a p) \<le> ?S * unat a" "unat lb * unat (reserve_b p) \<le> ?S * unat b" by (simp_all add: l(1,2))
  then show "unat lp * unat (reserve_a p) \<le> ?S * unat a" "unat lp * unat (reserve_b p) \<le> ?S * unat b"
    using le by (meson le_trans mult_le_mono1)+
qed

lemma remove_amounts_share:
  assumes "remove_amounts True p l x y = Inr (a, b, lp)"
  shows "unat a * unat (liquidity_pool_supply p) \<le> unat (reserve_a p) * unat l"
    "unat b * unat (liquidity_pool_supply p) \<le> unat (reserve_b p) * unat l" "lp = l" "x \<le> a" "y \<le> b"
proof -
  let ?S = "unat (liquidity_pool_supply p)"
  from assms have l: "unat a = unat (reserve_a p) * unat l div ?S" "unat b = unat (reserve_b p) * unat l div ?S"
    "liquidity_pool_supply p \<noteq> 0" "unat lp = ?S * unat l div ?S" and "x \<le> a" "y \<le> b"
    by (auto simp: remove_amounts_def res_simps mul_div_True)
  then show "x \<le> a" "y \<le> b" by simp_all
  from l(3) have "?S \<noteq> 0" by (simp add: unat_eq_zero)
  with l(4) show "lp = l" by (simp add: word_unat_eq_iff)
  show "unat a * ?S \<le> unat (reserve_a p) * unat l" "unat b * ?S \<le> unat (reserve_b p) * unat l" by (simp_all add: l(1,2))
qed

lemma add_liquidity_share:
  assumes "add_liquidity True H enc_tk pool va vb lpd ua ub ul m x y = Inr (posts, calls)"
    and "pool_try_from (data (account pool)) = Some p"
  shows "\<exists>q. pool_try_from (data (ps_account (posts ! 0))) = Some q \<and> share_kept p q"
proof -
  from assms obtain a b lp s ra rb where am: "add_amounts True p m x y = Inr (a, b, lp)"
    and n: "unat s = unat (liquidity_pool_supply p) + unat lp" "unat ra = unat (reserve_a p) + unat a"
      "unat rb = unat (reserve_b p) + unat b"
    and d: "data (ps_account (posts ! 0)) = pool_to_bytes (p\<lparr> liquidity_pool_supply := s, reserve_a := ra, reserve_b := rb \<rparr>)"
    by (auto simp: add_liquidity_def res_simps arith_simps Let_def)
  let ?q = "p\<lparr> liquidity_pool_supply := s, reserve_a := ra, reserve_b := rb \<rparr>"
  have "share_kept p ?q"
    using add_amounts_share(1,2) [OF am] by (intro share_keptI) (simp_all add: n algebra_simps)
  moreover have "wf_pool ?q" using assms(2) by (simp add: pool_codec wf_pool_def)
  ultimately show ?thesis by (intro exI [of _ ?q]) (simp add: d pool_codec)
qed

lemma remove_liquidity_share:
  assumes "remove_liquidity True H enc_tk pool va vb lpd ua ub ul l x y = Inr (posts, calls)"
    and "pool_try_from (data (account pool)) = Some p"
  shows "\<exists>q. pool_try_from (data (ps_account (posts ! 0))) = Some q \<and> share_kept p q"
proof -
  from assms obtain a b lp s ra rb where am: "remove_amounts True p l x y = Inr (a, b, lp)"
    and n: "unat (liquidity_pool_supply p) = unat s + unat lp" "unat (reserve_a p) = unat ra + unat a"
      "unat (reserve_b p) = unat rb + unat b"
    and d: "data (ps_account (posts ! 0)) = pool_to_bytes
      (p\<lparr> liquidity_pool_supply := s, reserve_a := ra, reserve_b := rb, active := (s \<noteq> 0) \<rparr>)"
    by (auto simp: remove_liquidity_def res_simps arith_simps Let_def)
  let ?q = "p\<lparr> liquidity_pool_supply := s, reserve_a := ra, reserve_b := rb, active := (s \<noteq> 0) \<rparr>"
  have "share_kept p ?q"
    using remove_amounts_share(1,2) [OF am] unfolding remove_amounts_share(3) [OF am, symmetric]
    by (intro share_keptI) (simp_all add: n algebra_simps)
  moreover have "wf_pool ?q" using assms(2) by (simp add: pool_codec wf_pool_def)
  ultimately show ?thesis by (intro exI [of _ ?q]) (simp add: d pool_codec)
qed

text \<open>
  C14: liquidity is never diluted.  With overflow checks, an accepted swap, deposit or withdrawal
  leaves a valid pool in which the product of the reserves, relative to the square of the supply of
  liquidity tokens, is at least what it was; a swap alone does not lower the product.
\<close>

theorem amm_share_value_kept:
  assumes "amm_dispatch True H enc_tk pres instr = Inr (posts, calls)"
    and "\<forall>x y i. instr \<noteq> NewDefinition x y i" and "pool_try_from (data (account (pres ! 0))) = Some p"
  shows "\<exists>q. pool_try_from (data (ps_account (posts ! 0))) = Some q \<and> share_kept p q"
proof (cases instr)
  case (NewDefinition x y i)
  then show ?thesis using assms(2) by simp
next
  case (AddLiquidity m x y)
  with assms(1,3) show ?thesis by (auto simp: amm_dispatch_def res_simps intro: add_liquidity_share)
next
  case (RemoveLiquidity l x y)
  with assms(1,3) show ?thesis by (auto simp: amm_dispatch_def res_simps intro: remove_liquidity_share)
next
  case (SwapExactInput x m i)
  with assms(1,3) show ?thesis
    by (auto simp: amm_dispatch_def res_simps swap_exact_input_def intro: exact_in.swap_keeps_share)
next
  case (SwapExactOutput x m i)
  with assms(1,3) show ?thesis
    by (auto simp: amm_dispatch_def res_simps swap_exact_output_def intro: exact_out.swap_keeps_share)
qed

section \<open>The guest contract\<close>

lemma amm_dispatch_neutral:
  assumes "amm_dispatch oc H enc_tk pres instr = Inr (posts, calls)"
  shows "list_all2 (\<lambda>a b. frame_ok a b \<and> balance b = balance a) (map account pres) (map ps_account posts)"
proof (cases instr)
  case NewDefinition
  with assms show ?thesis
    by (auto simp: amm_dispatch_def res_simps amm_new_definition_def Let_def unchanged_post_states_def neutral_data)
next
  case AddLiquidity
  with assms show ?thesis
    by (auto simp: amm_dispatch_def res_simps add_liquidity_def Let_def unchanged_post_states_def neutral_data)
next
  case RemoveLiquidity
  with assms show ?thesis
    by (auto simp: amm_dispatch_def res_simps remove_liquidity_def Let_def unchanged_post_states_def neutral_data)
next
  case SwapExactInput
  with assms show ?thesis
    by (auto simp: amm_dispatch_def res_simps swap_exact_input_def swap_with_def create_swap_post_states_def unchanged_post_states_def neutral_data)
next
  case SwapExactOutput
  with assms show ?thesis
    by (auto simp: amm_dispatch_def res_simps swap_exact_output_def swap_with_def create_swap_post_states_def unchanged_post_states_def neutral_data)
qed

interpretation amm: balance_neutral_guest "amm_main oc H dec enc_tk" for oc H dec enc_tk
proof
  fix self caller pres words out
  assume run: "amm_main oc H dec enc_tk self caller pres words = Inr out"
  then show "echoes self caller pres words out" by (auto simp: amm_main_def res_simps)
  from run show "list_all2 (\<lambda>a b. frame_ok a b \<and> balance b = balance a)
      (map account pres) (map ps_account (post_states out))"
    by (auto simp: amm_main_def res_simps with_chained_calls_def dest: amm_dispatch_neutral)
qed

section \<open>A pool\<close>

definition aid :: "u8 \<Rightarrow> account_id" where
  "aid k = replicate 32 k"

lemma aid_facts [simp]: "aid j = aid k \<longleftrightarrow> j = k" "length (aid k) = 32" "wf_id (aid k)"
  by (simp_all add: aid_def wf_id_def)

definition ex_pool :: "u128 \<Rightarrow> u128 \<Rightarrow> u128 \<Rightarrow> pool_definition" where
  "ex_pool s ra rb = \<lparr> definition_token_a_id = aid 1, definition_token_b_id = aid 2,
     vault_a_id = aid 5, vault_b_id = aid 6, liquidity_pool_id = aid 4,
     liquidity_pool_supply = s, reserve_a = ra, reserve_b = rb, fees = 0, active = True \<rparr>"

definition ex_pool_meta :: "pool_definition \<Rightarrow> account_meta" where
  "ex_pool_meta p = \<lparr> account = \<lparr> program_owner = [9], balance = 0, data = pool_to_bytes p, nonce = 0 \<rparr>,
     is_authorized = False, account_id = aid 7 \<rparr>"

definition ex_holding_meta :: "u8 \<Rightarrow> u8 \<Rightarrow> u128 \<Rightarrow> account_meta" where
  "ex_holding_meta i t b = \<lparr> account = \<lparr> program_owner = [8], balance = 0,
     data = token_holding_to_bytes (FungibleHolding (aid t) b), nonce = 0 \<rparr>,
     is_authorized = False, account_id = aid i \<rparr>"

definition ex_lp_meta :: "u128 \<Rightarrow> account_meta" where
  "ex_lp_meta n = \<lparr> account = \<lparr> program_owner = [8], balance = 0,
     data = token_definition_to_bytes (FungibleDefinition LP_TOKEN_NAME n None), nonce = 0 \<rparr>,
     is_authorized = False, account_id = aid 4 \<rparr>"

lemma ex_meta_sel [simp]:
  "account_id (ex_pool_meta p) = aid 7" "account_id (ex_holding_meta i t b) = aid i"
  "account_id (ex_lp_meta n) = aid 4"
  "program_owner (account (ex_holding_meta i t b)) = [8]"
  by (simp_all add: ex_pool_meta_def ex_holding_meta_def ex_lp_meta_def)

lemma ex_meta_decode [simp]:
  "pool_try_from (data (account (ex_pool_meta (ex_pool n ra rb)))) = Some (ex_pool n ra rb)"
  "token_holding_try_from (data (account (ex_holding_meta i t b))) = Some (FungibleHolding (aid t) b)"
  by (simp_all add: ex_pool_meta_def ex_holding_meta_def pool_codec holding_codec wf_pool_def wf_id_def ex_pool_def)

lemma ex_pool_sel [simp]:
  "definition_token_a_id (ex_pool n ra rb) = aid 1" "definition_token_b_id (ex_pool n ra rb) = aid 2"
  "vault_a_id (ex_pool n ra rb) = aid 5" "vault_b_id (ex_pool n ra rb) = aid 6"
  "liquidity_pool_id (ex_pool n ra rb) = aid 4" "liquidity_pool_supply (ex_pool n ra rb) = n"
  "reserve_a (ex_pool n ra rb) = ra" "reserve_b (ex_pool n ra rb) = rb" "active (ex_pool n ra rb)"
  by (simp_all add: ex_pool_def)

lemma length_pool_bytes: "wf_pool p \<Longrightarrow> length (pool_to_bytes p) \<le> DATA_MAX_LENGTH"
  by (simp add: pool_to_bytes_def wf_pool_def wf_id_def en_bool_def DATA_MAX_LENGTH_def)

lemma data_of_pool_ok: "wf_pool p \<Longrightarrow> data_of_pool p k = k (pool_to_bytes p)"
  using length_pool_bytes [of p] by (simp add: data_of_pool_def into_data_def data_try_from_def)

lemma wf_ex_pool: "wf_pool (ex_pool n ra rb)"
  "wf_pool (ex_pool n ra rb\<lparr> reserve_a := x, reserve_b := y \<rparr>)"
  "wf_pool (ex_pool n ra rb\<lparr> liquidity_pool_supply := m, reserve_a := x, reserve_b := y, active := act \<rparr>)"
  by (simp_all add: wf_pool_def wf_id_def ex_pool_def)

lemma fungible_balance_ex [simp]: "fungible_balance m n (ex_holding_meta i t b) k = k b"
  by (simp add: fungible_balance_def)

lemma ex_swap_setup:
  "ra \<le> x \<Longrightarrow> rb \<le> y \<Longrightarrow>
     validate_swap_setup (ex_pool_meta (ex_pool n ra rb)) (ex_holding_meta 5 1 x) (ex_holding_meta 6 2 y) = Inr (ex_pool n ra rb)"
  by (simp add: validate_swap_setup_def)

lemma ex_swap:
  "\<exists>posts calls. amm_dispatch True H enc_tk [ex_pool_meta (ex_pool 1000 1000 1000), ex_holding_meta 5 1 1000,
     ex_holding_meta 6 2 1000, ex_holding_meta 10 1 500, ex_holding_meta 11 2 0] (SwapExactInput 100 90 (aid 1))
   = Inr (posts, calls)"
  by (simp add: amm_dispatch_def with5_def swap_exact_input_def swap_with_def ex_swap_setup swap_logic_def
      swap_calls_def create_swap_post_states_def op_add_def op_sub_def checked_mul_def checked_add_def checked_sub_def
      op_div_def data_of_pool_ok wf_ex_pool Let_def)

theorem amm_share_value_kept_witness:
  "\<exists>posts calls q. amm_dispatch True (\<lambda>_. []) (\<lambda>_. []) [ex_pool_meta (ex_pool 1000 1000 1000), ex_holding_meta 5 1 1000,
     ex_holding_meta 6 2 1000, ex_holding_meta 10 1 500, ex_holding_meta 11 2 0] (SwapExactInput 100 90 (aid 1))
   = Inr (posts, calls)
   \<and> pool_try_from (data (ps_account (posts ! 0))) = Some q \<and> share_kept (ex_pool 1000 1000 1000) q"
proof -
  obtain posts calls where r: "amm_dispatch True (\<lambda>_. []) (\<lambda>_. []) [ex_pool_meta (ex_pool 1000 1000 1000), ex_holding_meta 5 1 1000,
     ex_holding_meta 6 2 1000, ex_holding_meta 10 1 500, ex_holding_meta 11 2 0] (SwapExactInput 100 90 (aid 1))
   = Inr (posts, calls)" using ex_swap by blast
  from amm_share_value_kept [OF r, of "ex_pool 1000 1000 1000"] r show ?thesis by auto
qed

definition ex_withdrawal :: "account_meta list" where
  "ex_withdrawal = [ex_pool_meta (ex_pool (2 ^ 64) (2 ^ 64 + 1000) (2 ^ 64 - 999)), ex_holding_meta 5 1 (2 ^ 64 + 1000),
      ex_holding_meta 6 2 (2 ^ 64 - 999), ex_lp_meta (2 ^ 64), ex_holding_meta 10 1 0, ex_holding_meta 11 2 0, ex_holding_meta 12 4 0]"


end
