(* ===== verification/Market.thy ===== *)
theory Market
  imports Examples AMM
begin

text \<open>
  A swap as a transaction on the ledger: the market maker asks the owner program of the user's
  account, not the owner of its own vault, to move the tokens.  Evaluated on a small ledger in
  which the user's account belongs to a hostile program.
\<close>

section \<open>The ledger\<close>

definition mk_hash :: hash_fn where
  "mk_hash bs = aid (if bs = [] then 0 else last bs + 2)"

definition mk_swap :: "instruction_data \<Rightarrow> amm_instruction option" where
  "mk_swap ws = (case ws of [n] \<Rightarrow> Some (SwapExactInput (ucast n) 1 (aid 1)) | _ \<Rightarrow> None)"

definition mk_encode :: "token_instruction \<Rightarrow> instruction_data" where
  "mk_encode i = (case i of TK_Transfer n \<Rightarrow> [ucast n] | _ \<Rightarrow> [])"

definition mk_decode :: "instruction_data \<Rightarrow> token_instruction option" where
  "mk_decode ws = (case ws of [n] \<Rightarrow> Some (TK_Transfer (ucast n)) | _ \<Rightarrow> None)"

text \<open>
  The hostile program changes nothing; handed an authorized account it asks the token program to
  transfer 1000 units out of it.
\<close>

definition mk_thief :: guest where
  "mk_thief self caller pres words =
     Inr (with_chained_calls (program_output_new self caller words pres (unchanged_post_states pres))
       (if is_authorized (pres ! 0) then [chained_call_new mk_encode [8] pres (TK_Transfer 1000)] else []))"

definition mk_rt :: runtime where
  "mk_rt = install [5] mk_thief (install [8] (token_main mk_decode)
     (install [9] (amm_main False mk_hash mk_swap mk_encode) (ex_rt\<lparr> rt_hash := mk_hash \<rparr>)))"

definition mk_own :: account where
  "mk_own = \<lparr> program_owner = [5], balance = 0, data = [], nonce = 0 \<rparr>"

definition mk_holding :: "u128 \<Rightarrow> u8 \<Rightarrow> account" where
  "mk_holding b t = \<lparr> program_owner = [8], balance = 0, data = token_holding_to_bytes (FungibleHolding (aid t) b), nonce = 0 \<rparr>"

definition mk_pool :: "u128 \<Rightarrow> u128 \<Rightarrow> account" where
  "mk_pool ra rb = \<lparr> program_owner = [9], balance = 0, data = pool_to_bytes (ex_pool 1000 ra rb), nonce = 0 \<rparr>"

definition mk_state :: v03_state where
  "mk_state = ex_state\<lparr> public_state := fmupd (aid 7) (mk_pool 1000 1000) (fmupd (aid 5) (mk_holding 1000 1)
       (fmupd (aid 6) (mk_holding 1000 2) (fmupd (aid 10) mk_own (fmupd (aid 11) (mk_holding 0 2) fmempty)))),
     programs := fmupd [5] \<lparr> prog_id = [5], prog_elf = [] \<rparr> (fmupd [8] \<lparr> prog_id = [8], prog_elf = [] \<rparr>
       (fmupd [9] \<lparr> prog_id = [9], prog_elf = [] \<rparr> fmempty)) \<rparr>"

definition mk_tx :: public_transaction where
  "mk_tx = \<lparr> pt_message = \<lparr> pm_program_id = [9], pm_account_ids = [aid 7, aid 5, aid 6, aid 10, aid 11],
      pm_nonces = [], pm_instruction_data = [100] \<rparr>, pt_witness_set = [] \<rparr>"

section \<open>The run\<close>

lemma mk_rt_sel: "rt_hash mk_rt = mk_hash"
  "prog_id prog = [5] \<Longrightarrow> rt_execute mk_rt prog caller pres words = map_err ProgramExecutionFailed (mk_thief [5] caller pres words)"
  "prog_id prog = [8] \<Longrightarrow> rt_execute mk_rt prog caller pres words
     = map_err ProgramExecutionFailed (token_main mk_decode [8] caller pres words)"
  "prog_id prog = [9] \<Longrightarrow> rt_execute mk_rt prog caller pres words
     = map_err ProgramExecutionFailed (amm_main False mk_hash mk_swap mk_encode [9] caller pres words)"
  by (simp_all add: mk_rt_def install_def)

lemma mk_lookup:
  "get_account_by_id mk_state (aid 7) = mk_pool 1000 1000" "get_account_by_id mk_state (aid 5) = mk_holding 1000 1"
  "get_account_by_id mk_state (aid 6) = mk_holding 1000 2" "get_account_by_id mk_state (aid 10) = mk_own"
  "get_account_by_id mk_state (aid 11) = mk_holding 0 2"
  "fmlookup (programs mk_state) [5] = Some \<lparr> prog_id = [5], prog_elf = [] \<rparr>"
  "fmlookup (programs mk_state) [8] = Some \<lparr> prog_id = [8], prog_elf = [] \<rparr>"
  "fmlookup (programs mk_state) [9] = Some \<lparr> prog_id = [9], prog_elf = [] \<rparr>"
  by (simp_all add: mk_state_def get_account_by_id_def)

lemma mk_owners: "program_owner (mk_holding b t) = [8]" "program_owner (mk_pool ra rb) = [9]" "program_owner mk_own = [5]"
  "balance (mk_holding b t) = 0" "balance (mk_pool ra rb) = 0" "balance mk_own = 0"
  "nonce (mk_holding b t) = 0" "nonce (mk_pool ra rb) = 0" "nonce mk_own = 0"
  by (simp_all add: mk_holding_def mk_pool_def mk_own_def)

lemma mk_not_default: "[5] \<noteq> DEFAULT_PROGRAM_ID" "[8] \<noteq> DEFAULT_PROGRAM_ID" "[9] \<noteq> DEFAULT_PROGRAM_ID"
  "mk_holding b t \<noteq> default_account"
  by (simp_all add: DEFAULT_PROGRAM_ID_def numeral_eq_Suc mk_holding_def default_account_def)

text \<open>The four calls: the swap, the deposit that does not happen, the loot, and the transfer it asks for.\<close>

definition mk_pres :: "account_meta list" where
  "mk_pres = [new_account_meta (mk_pool 1000 1000) False (aid 7), new_account_meta (mk_holding 1000 1) False (aid 5),
     new_account_meta (mk_holding 1000 2) False (aid 6), new_account_meta mk_own False (aid 10),
     new_account_meta (mk_holding 0 2) False (aid 11)]"

definition mk_posts :: "post_state list" where
  "mk_posts = map post_new [mk_pool 1100 910, mk_holding 1000 1, mk_holding 1000 2, mk_own, mk_holding 0 2]"

definition mk_pay_in :: "account_meta list" where
  "mk_pay_in = [new_account_meta mk_own False (aid 10), new_account_meta (mk_holding 1000 1) False (aid 5)]"

definition mk_pay_out :: "account_meta list" where
  "mk_pay_out = [new_account_meta (mk_holding 1000 2) True (aid 6), new_account_meta (mk_holding 0 2) False (aid 11)]"

definition mk_calls :: "chained_call list" where
  "mk_calls = [\<lparr> cc_program_id = [5], cc_pre_states = mk_pay_in, cc_instruction_data = [100], cc_pda_seeds = [] \<rparr>,
     \<lparr> cc_program_id = [5], cc_pre_states = mk_pay_out, cc_instruction_data = [90], cc_pda_seeds = [aid 4] \<rparr>]"

definition mk_loot :: chained_call where
  "mk_loot = \<lparr> cc_program_id = [8], cc_pre_states = mk_pay_out, cc_instruction_data = [1000], cc_pda_seeds = [] \<rparr>"

lemma mk_seeds: "compute_vault_pda_seed mk_hash (aid 7) (aid 2) = aid 4"
  "compute_public_authorized_pdas mk_hash (Some [9]) [aid 4] = {aid 6}"
  by (simp_all add: compute_vault_pda_seed_def mk_hash_def compute_public_authorized_pdas_def for_public_pda_def
      public_pda_preimage_def) (simp_all add: aid_def)

lemma mk_codec:
  "pool_try_from (data (mk_pool ra rb)) = Some (ex_pool 1000 ra rb)"
  "token_holding_try_from (data (mk_holding b t)) = Some (FungibleHolding (aid t) b)"
  by (simp_all add: mk_pool_def mk_holding_def pool_codec holding_codec wf_pool_def)

lemma mk_fungible [simp]: "account m = mk_holding b t \<Longrightarrow> fungible_balance e f m k = k b"
  by (simp add: fungible_balance_def mk_codec)

lemma mk_amm: "amm_main False mk_hash mk_swap mk_encode [9] None mk_pres [100]
    = Inr (with_chained_calls (program_output_new [9] None [100] mk_pres mk_posts) mk_calls)"
proof -
  have "validate_swap_setup (mk_pres ! 0) (mk_pres ! 1) (mk_pres ! 2) = Inr (ex_pool 1000 1000 1000)"
    by (simp add: mk_pres_def validate_swap_setup_def mk_codec new_account_meta_def)
  moreover have "ex_pool 1000 1000 1000\<lparr> reserve_a := 1100, reserve_b := 910 \<rparr> = ex_pool 1000 1100 910"
    by (simp add: ex_pool_def)
  ultimately show ?thesis
    by (simp add: amm_main_def read_lee_inputs_def mk_swap_def amm_dispatch_def with5_def mk_pres_def swap_exact_input_def
        swap_with_def swap_logic_def checked_mul_def op_add_def op_sub_def op_div_def swap_calls_def new_account_meta_def
        mk_codec mk_seeds create_swap_post_states_def data_of_pool_ok wf_ex_pool Let_def mk_calls_def mk_posts_def
        chained_call_new_def with_pda_seeds_def mk_owners mk_pay_in_def mk_pay_out_def mk_encode_def unchanged_post_states_def)
      (simp add: mk_pool_def)
qed

definition mk_out1 :: program_output where
  "mk_out1 = with_chained_calls (program_output_new [9] None [100] mk_pres mk_posts) mk_calls"

definition mk_out2 :: program_output where
  "mk_out2 = program_output_new [5] (Some [9]) [100] mk_pay_in (unchanged_post_states mk_pay_in)"

definition mk_out3 :: program_output where
  "mk_out3 = with_chained_calls (program_output_new [5] (Some [9]) [90] mk_pay_out (unchanged_post_states mk_pay_out)) [mk_loot]"

definition mk_moved :: "post_state list" where
  "mk_moved = [post_new (mk_holding 0 2), post_new (mk_holding 1000 2)]"

definition mk_out4 :: program_output where
  "mk_out4 = program_output_new [8] (Some [5]) [1000] mk_pay_out mk_moved"

lemma mk_thief_runs:
  "mk_thief [5] (Some [9]) mk_pay_in [100] = Inr mk_out2" "mk_thief [5] (Some [9]) mk_pay_out [90] = Inr mk_out3"
  by (simp_all add: mk_thief_def mk_out2_def mk_out3_def mk_pay_in_def mk_pay_out_def new_account_meta_def mk_loot_def
      chained_call_new_def mk_encode_def with_chained_calls_def program_output_new_def)

lemma mk_token: "token_main mk_decode [8] (Some [5]) mk_pay_out [1000] = Inr mk_out4"
proof -
  have "data_of_holding (FungibleHolding (aid 2) b) k = k (token_holding_to_bytes (FungibleHolding (aid 2) b))"
    for b and k :: "bytes \<Rightarrow> (panic, post_state list) result"
    by (simp add: data_of_holding_def into_data_def data_try_from_def DATA_MAX_LENGTH_def)
  then show ?thesis
    by (simp add: token_main_def read_lee_inputs_def mk_decode_def token_dispatch_def mk_pay_out_def tk_transfer_def mk_codec
        new_account_meta_def mk_not_default transfer_holdings_def checked_sub_def checked_add_def mk_out4_def mk_moved_def
        new_claimed_if_default_def mk_owners) (simp add: mk_holding_def post_new_def)
qed

lemma mk_wb: "validate_execution mk_pres mk_posts [9] = Inr ()"
  "validate_execution mk_pay_in (unchanged_post_states mk_pay_in) [5] = Inr ()"
  "validate_execution mk_pay_out (unchanged_post_states mk_pay_out) [5] = Inr ()"
  "validate_execution mk_pay_out mk_moved [8] = Inr ()"
  by (simp_all add: validate_execution_Inr well_behaved_def mk_pres_def mk_posts_def mk_pay_in_def mk_pay_out_def mk_moved_def
      pair_ok_def total_def mk_owners mk_not_default unchanged_post_states_def)

definition mk_diff1 :: diff_map where
  "mk_diff1 = fmupd (aid 11) (mk_holding 0 2) (fmupd (aid 10) mk_own (fmupd (aid 6) (mk_holding 1000 2)
     (fmupd (aid 5) (mk_holding 1000 1) (fmupd (aid 7) (mk_pool 1100 910) fmempty))))"

definition mk_diff2 :: diff_map where
  "mk_diff2 = fmupd (aid 5) (mk_holding 1000 1) (fmupd (aid 10) mk_own mk_diff1)"

definition mk_diff3 :: diff_map where
  "mk_diff3 = fmupd (aid 11) (mk_holding 0 2) (fmupd (aid 6) (mk_holding 1000 2) mk_diff2)"

definition mk_diff :: diff_map where
  "mk_diff = fmupd (aid 11) (mk_holding 1000 2) (fmupd (aid 6) (mk_holding 0 2) mk_diff3)"

lemmas mk_diffs = mk_diff1_def mk_diff2_def mk_diff3_def mk_diff_def

lemmas mk_lists = mk_pres_def mk_posts_def mk_pay_in_def mk_pay_out_def mk_moved_def

lemma mk_out_sel [simp]:
  "pre_states mk_out1 = mk_pres" "post_states mk_out1 = mk_posts" "chained_calls mk_out1 = mk_calls"
  "pre_states mk_out2 = mk_pay_in" "post_states mk_out2 = unchanged_post_states mk_pay_in" "chained_calls mk_out2 = []"
  "pre_states mk_out3 = mk_pay_out" "post_states mk_out3 = unchanged_post_states mk_pay_out" "chained_calls mk_out3 = [mk_loot]"
  "pre_states mk_out4 = mk_pay_out" "post_states mk_out4 = mk_moved" "chained_calls mk_out4 = []"
  by (simp_all add: mk_out1_def mk_out2_def mk_out3_def mk_out4_def with_chained_calls_def)

lemma mk_out_echo [simp]:
  "self_program_id mk_out1 = [9]" "caller_program_id mk_out1 = None"
  "self_program_id mk_out2 = [5]" "caller_program_id mk_out2 = Some [9]"
  "self_program_id mk_out3 = [5]" "caller_program_id mk_out3 = Some [9]"
  "self_program_id mk_out4 = [8]" "caller_program_id mk_out4 = Some [5]"
  "is_valid_for (block_validity_window mk_out1) b" "is_valid_for (timestamp_validity_window mk_out1) b"
  "is_valid_for (block_validity_window mk_out2) b" "is_valid_for (timestamp_validity_window mk_out2) b"
  "is_valid_for (block_validity_window mk_out3) b" "is_valid_for (timestamp_validity_window mk_out3) b"
  "is_valid_for (block_validity_window mk_out4) b" "is_valid_for (timestamp_validity_window mk_out4) b"
  by (simp_all add: mk_out1_def mk_out2_def mk_out3_def mk_out4_def with_chained_calls_def program_output_new_def)

lemma mk_claims:
  "apply_claims mk_hash p (zip mk_pres mk_posts) = Inr mk_posts"
  "apply_claims mk_hash p (zip mk_pay_in (unchanged_post_states mk_pay_in)) = Inr (unchanged_post_states mk_pay_in)"
  "apply_claims mk_hash p (zip mk_pay_out (unchanged_post_states mk_pay_out)) = Inr (unchanged_post_states mk_pay_out)"
  "apply_claims mk_hash p (zip mk_pay_out mk_moved) = Inr mk_moved"
  by (simp_all add: mk_lists unchanged_post_states_def apply_claim_def)

lemma mk_updates:
  "update_diff mk_pres mk_posts fmempty = mk_diff1"
  "update_diff mk_pay_in (unchanged_post_states mk_pay_in) mk_diff1 = mk_diff2"
  "update_diff mk_pay_out (unchanged_post_states mk_pay_out) mk_diff2 = mk_diff3"
  "update_diff mk_pay_out mk_moved mk_diff3 = mk_diff"
  by (simp_all add: mk_lists unchanged_post_states_def update_diff_def mk_diffs)

lemma mk_checked:
  "for_each (check_pre_state mk_state fmempty (\<lambda>i. False)) mk_pres = Inr ()"
  "for_each (check_pre_state mk_state mk_diff1 (\<lambda>i. False)) mk_pay_in = Inr ()"
  "for_each (check_pre_state mk_state mk_diff2 (\<lambda>i. i = aid 6)) mk_pay_out = Inr ()"
  "for_each (check_pre_state mk_state mk_diff3 (\<lambda>i. i = aid 6)) mk_pay_out = Inr ()"
  by (simp_all add: mk_lists check_pre_state_def expected_pre_def mk_lookup mk_diffs Let_def)

abbreviation mk_caller :: "program_id option \<Rightarrow> account_id set \<Rightarrow> caller_data" where
  "mk_caller p as \<equiv> \<lparr> cd_program_id = p, cd_authorized_accounts = as \<rparr>"

abbreviation mk_first :: chained_call where
  "mk_first \<equiv> \<lparr> cc_program_id = [9], cc_pre_states = mk_pres, cc_instruction_data = [100], cc_pda_seeds = [] \<rparr>"

lemma mk_processed:
  "process_call mk_rt mk_state 0 0 mk_first (mk_caller None {}) fmempty = Inr (mk_out1, mk_diff1)"
  "process_call mk_rt mk_state 0 0 (mk_calls ! 0) (mk_caller (Some [9]) {}) mk_diff1 = Inr (mk_out2, mk_diff2)"
  "process_call mk_rt mk_state 0 0 (mk_calls ! Suc 0) (mk_caller (Some [9]) {}) mk_diff2 = Inr (mk_out3, mk_diff3)"
  "process_call mk_rt mk_state 0 0 mk_loot (mk_caller (Some [5]) {aid 6}) mk_diff3 = Inr (mk_out4, mk_diff)"
proof -
  show "process_call mk_rt mk_state 0 0 mk_first (mk_caller None {}) fmempty = Inr (mk_out1, mk_diff1)"
    using mk_wb(1) mk_checked(1) by (simp add: process_call_def mk_lookup mk_rt_sel mk_amm [folded mk_out1_def] mk_claims mk_updates
        compute_public_authorized_pdas_def)
  show "process_call mk_rt mk_state 0 0 (mk_calls ! 0) (mk_caller (Some [9]) {}) mk_diff1 = Inr (mk_out2, mk_diff2)"
    using mk_wb(2) mk_checked(2) by (simp add: process_call_def mk_lookup mk_rt_sel mk_calls_def mk_thief_runs mk_claims mk_updates
        compute_public_authorized_pdas_def)
  show "process_call mk_rt mk_state 0 0 (mk_calls ! Suc 0) (mk_caller (Some [9]) {}) mk_diff2 = Inr (mk_out3, mk_diff3)"
    using mk_wb(3) mk_checked(3) by (simp add: process_call_def mk_lookup mk_rt_sel mk_calls_def mk_thief_runs mk_claims mk_updates mk_seeds)
  show "process_call mk_rt mk_state 0 0 mk_loot (mk_caller (Some [5]) {aid 6}) mk_diff3 = Inr (mk_out4, mk_diff)"
    using mk_wb(4) mk_checked(4) by (simp add: process_call_def mk_lookup mk_rt_sel mk_loot_def mk_token mk_claims mk_updates
        compute_public_authorized_pdas_def)
qed

lemma mk_run: "run_calls mk_rt mk_state 0 0 0 (initial_queue mk_state [] (pt_message mk_tx)) fmempty = Inr mk_diff"
proof -
  have "initial_queue mk_state [] (pt_message mk_tx) = [(mk_first, mk_caller None {})]"
    by (simp add: initial_queue_def input_pre_states_def mk_tx_def mk_pres_def mk_lookup)
  moreover have "next_calls mk_first (mk_caller None {}) mk_out1
      = [(mk_calls ! 0, mk_caller (Some [9]) {}), (mk_calls ! Suc 0, mk_caller (Some [9]) {})]"
    by (simp add: next_calls_def authorized_after_def mk_pres_def mk_calls_def)
  moreover have "next_calls (mk_calls ! 0) (mk_caller (Some [9]) {}) mk_out2 = []" by (simp add: next_calls_def)
  moreover have "next_calls (mk_calls ! Suc 0) (mk_caller (Some [9]) {}) mk_out3 = [(mk_loot, mk_caller (Some [5]) {aid 6})]"
    by (simp add: next_calls_def authorized_after_def mk_pay_out_def mk_calls_def)
  moreover have "next_calls mk_loot (mk_caller (Some [5]) {aid 6}) mk_out4 = []" by (simp add: next_calls_def)
  ultimately show ?thesis by (simp add: mk_processed MAX_NUMBER_CHAINED_CALLS_def)
qed

lemma mk_claimed: "check_claimed mk_state mk_diff = Inr ()"
  by (simp add: check_claimed_def for_each_Inr ensure_Inr unclaimed_def mk_diffs mk_lookup Let_def mk_owners mk_not_default)

lemma mk_transition:
  obtains s' where "transition_from_public_transaction mk_rt mk_tx mk_state 0 0 = Inr (Some s')"
    "public_state s' = fmadd (public_state mk_state) mk_diff"
proof -
  have d: "from_public_transaction mk_rt mk_tx mk_state 0 0 = Inr \<lparr> sd_signer_account_ids = [],
      sd_public_diff = mk_diff, sd_new_commitments = [], sd_new_nullifiers = [], sd_program = None \<rparr>"
    using mk_run mk_claimed
    by (simp add: from_public_transaction_def mk_tx_def witness_is_valid_for_def signer_account_ids_def check_nonces_def Let_def)
  obtain cs where "cs_extend mk_hash [] (commitment_state mk_state) = Some cs"
    using ex_extend(1) by (auto simp: mk_state_def cs_extend_def)
  then show thesis
    using that by (simp add: transition_from_public_transaction_def d apply_state_diff_def mk_rt_sel Let_def)
qed


end
