(* ===== verification/Token_Apps.thy ===== *)
theory Token_Apps
  imports Token
begin

text \<open>
  Two small users of the token program: associated token accounts, whose address derives from an
  owner and a token (\<open>programs/associated_token_account\<close>), and the pinata, which pays a prize for the
  solution of a hash puzzle (\<open>program_methods/guest/src/bin/pinata.rs\<close>, \<open>pinata_token.rs\<close>).
\<close>

section \<open>Associated token accounts\<close>

datatype ata_instruction =
    ATA_Create program_id
  | ATA_Transfer program_id u128
  | ATA_Burn program_id u128

definition compute_ata_seed :: "hash_fn \<Rightarrow> account_id \<Rightarrow> account_id \<Rightarrow> pda_seed" where
  "compute_ata_seed H owner_id token_id = H (owner_id @ token_id)"

definition get_associated_token_account_id :: "hash_fn \<Rightarrow> program_id \<Rightarrow> pda_seed \<Rightarrow> account_id" where
  "get_associated_token_account_id H ata_program_id seed = for_public_pda H ata_program_id seed"

definition verify_ata_and_get_seed :: "hash_fn \<Rightarrow> account_meta \<Rightarrow> account_meta \<Rightarrow> account_id \<Rightarrow> program_id
    \<Rightarrow> (panic, pda_seed) result" where
  "verify_ata_and_get_seed H ata_account owner token_id ata_program_id =
     (let seed = compute_ata_seed H (account_id owner) token_id;
          expected_id = get_associated_token_account_id H ata_program_id seed
      in ensure (account_id ata_account = expected_id) ''ATA account ID does not match expected derivation'' (Inr seed))"

definition create_associated_token_account :: "hash_fn \<Rightarrow> (token_instruction \<Rightarrow> instruction_data) \<Rightarrow> account_meta
    \<Rightarrow> account_meta \<Rightarrow> account_meta \<Rightarrow> program_id \<Rightarrow> (panic, post_state list \<times> chained_call list) result" where
  "create_associated_token_account H enc_tk owner token_definition ata_account ata_program_id =
     (let token_program_id = program_owner (account token_definition) in
      rbind (verify_ata_and_get_seed H ata_account owner (account_id token_definition) ata_program_id) (\<lambda>ata_seed.
      let post_states = [new_claimed_if_default (account owner) Claim_Authorized, post_new (account token_definition),
            post_new (account ata_account)] in
      if account ata_account \<noteq> default_account then Inr (post_states, [])
      else Inr (post_states, [with_pda_seeds (chained_call_new enc_tk token_program_id
             [token_definition, ata_account\<lparr> is_authorized := True \<rparr>] InitializeAccount) [ata_seed]])))"

definition transfer_from_associated_token_account :: "hash_fn \<Rightarrow> (token_instruction \<Rightarrow> instruction_data) \<Rightarrow> account_meta
    \<Rightarrow> account_meta \<Rightarrow> account_meta \<Rightarrow> program_id \<Rightarrow> u128 \<Rightarrow> (panic, post_state list \<times> chained_call list) result" where
  "transfer_from_associated_token_account H enc_tk owner sender_ata recipient ata_program_id amount =
     (let token_program_id = program_owner (account sender_ata) in
      ensure (is_authorized owner) ''Owner authorization is missing'' (
      expect (token_holding_try_from (data (account sender_ata))) ''Sender ATA must hold a valid token'' (\<lambda>h.
      rbind (verify_ata_and_get_seed H sender_ata owner (definition_id h) ata_program_id) (\<lambda>seed.
      Inr (unchanged_post_states [owner, sender_ata, recipient],
           [with_pda_seeds (chained_call_new enc_tk token_program_id
              [sender_ata\<lparr> is_authorized := True \<rparr>, recipient] (TK_Transfer amount)) [seed]])))))"

definition burn_from_associated_token_account :: "hash_fn \<Rightarrow> (token_instruction \<Rightarrow> instruction_data) \<Rightarrow> account_meta
    \<Rightarrow> account_meta \<Rightarrow> account_meta \<Rightarrow> program_id \<Rightarrow> u128 \<Rightarrow> (panic, post_state list \<times> chained_call list) result" where
  "burn_from_associated_token_account H enc_tk owner holder_ata token_definition ata_program_id amount =
     (let token_program_id = program_owner (account holder_ata) in
      ensure (is_authorized owner) ''Owner authorization is missing'' (
      expect (token_holding_try_from (data (account holder_ata))) ''Holder ATA must hold a valid token'' (\<lambda>h.
      rbind (verify_ata_and_get_seed H holder_ata owner (definition_id h) ata_program_id) (\<lambda>seed.
      Inr (unchanged_post_states [owner, holder_ata, token_definition],
           [with_pda_seeds (chained_call_new enc_tk token_program_id
              [token_definition, holder_ata\<lparr> is_authorized := True \<rparr>] (Burn amount)) [seed]])))))"

definition ata_dispatch :: "hash_fn \<Rightarrow> (token_instruction \<Rightarrow> instruction_data) \<Rightarrow> account_meta list \<Rightarrow> ata_instruction
    \<Rightarrow> (panic, post_state list \<times> chained_call list) result" where
  "ata_dispatch H enc_tk pres instr =
     (case instr of
        ATA_Create ata_program_id \<Rightarrow>
          with3 ''Create instruction requires exactly three accounts'' pres (\<lambda>owner token_definition ata_account.
          create_associated_token_account H enc_tk owner token_definition ata_account ata_program_id)
      | ATA_Transfer ata_program_id amount \<Rightarrow>
          with3 ''Transfer instruction requires exactly three accounts'' pres (\<lambda>owner sender_ata recipient.
          transfer_from_associated_token_account H enc_tk owner sender_ata recipient ata_program_id amount)
      | ATA_Burn ata_program_id amount \<Rightarrow>
          with3 ''Burn instruction requires exactly three accounts'' pres (\<lambda>owner holder_ata token_definition.
          burn_from_associated_token_account H enc_tk owner holder_ata token_definition ata_program_id amount))"

definition ata_main :: "hash_fn \<Rightarrow> (instruction_data \<Rightarrow> ata_instruction option)
    \<Rightarrow> (token_instruction \<Rightarrow> instruction_data) \<Rightarrow> guest" where
  "ata_main H dec enc_tk self caller pres words =
     read_lee_inputs dec words (\<lambda>instr.
     rbind (ata_dispatch H enc_tk pres instr) (\<lambda>(posts, calls).
     Inr (with_chained_calls (program_output_new self caller words pres posts) calls)))"

section \<open>Pinata\<close>

definition PRIZE :: u128 where
  "PRIZE = 150"

record challenge =
  difficulty :: u8
  ch_seed :: bytes

definition challenge_new :: "bytes \<Rightarrow> (panic, challenge) result" where
  "challenge_new bs =
     ensure (length bs = 33) ''assertion failed: bytes.len() == 33'' (
     let d = bs ! 0 in
     ensure (d \<le> 32) ''assertion failed: difficulty <= 32'' (
     Inr \<lparr> difficulty = d, ch_seed = drop 1 bs \<rparr>))"

definition validate_solution :: "hash_fn \<Rightarrow> challenge \<Rightarrow> u128 \<Rightarrow> bool" where
  "validate_solution H c solution =
     list_all (\<lambda>b. b = 0) (take (unat (difficulty c)) (H (ch_seed c @ to_le_bytes solution)))"

definition next_data :: "hash_fn \<Rightarrow> challenge \<Rightarrow> bytes" where
  "next_data H c = difficulty c # H (ch_seed c)"

definition pinata_main :: "hash_fn \<Rightarrow> (instruction_data \<Rightarrow> u128 option) \<Rightarrow> guest" where
  "pinata_main H dec self caller pres words =
     read_lee_inputs dec words (\<lambda>solution.
     with2 NO_OUTPUT pres (\<lambda>pinata winner.
     rbind (challenge_new (data (account pinata))) (\<lambda>c.
     ensure (validate_solution H c solution) NO_OUTPUT (
     expect (checked_sub (balance (account pinata)) PRIZE) ''Not enough balance in the pinata'' (\<lambda>pb.
     into_data ''33 bytes should fit into Data'' (next_data H c) (\<lambda>d.
     expect (checked_add (balance (account winner)) PRIZE) ''Overflow when adding prize to winner'' (\<lambda>wb.
     Inr (program_output_new self caller words [pinata, winner]
       [new_claimed_if_default ((account pinata)\<lparr> balance := pb, data := d \<rparr>) Claim_Authorized,
        post_new ((account winner)\<lparr> balance := wb \<rparr>)]))))))))"

definition pinata_token_main :: "hash_fn \<Rightarrow> (instruction_data \<Rightarrow> u128 option) \<Rightarrow> (token_instruction \<Rightarrow> instruction_data)
    \<Rightarrow> guest" where
  "pinata_token_main H dec enc_tk self caller pres words =
     read_lee_inputs dec words (\<lambda>solution.
     with3 NO_OUTPUT pres (\<lambda>pinata_definition pinata_token_holding winner_token_holding.
     rbind (challenge_new (data (account pinata_definition))) (\<lambda>c.
     ensure (validate_solution H c solution) NO_OUTPUT (
     into_data ''should fit'' (next_data H c) (\<lambda>d.
     Inr (with_chained_calls
       (program_output_new self caller words [pinata_definition, pinata_token_holding, winner_token_holding]
         (post_new ((account pinata_definition)\<lparr> data := d \<rparr>)
            # unchanged_post_states [pinata_token_holding, winner_token_holding]))
       [with_pda_seeds (chained_call_new enc_tk (program_owner (account pinata_token_holding))
          [pinata_token_holding\<lparr> is_authorized := True \<rparr>, winner_token_holding] (TK_Transfer PRIZE)) [replicate 32 0]]))))))"

section \<open>The guest contract\<close>

lemma ata_dispatch_neutral:
  "ata_dispatch H enc_tk pres instr = Inr (posts, calls) \<Longrightarrow>
     list_all2 (\<lambda>a b. frame_ok a b \<and> balance b = balance a) (map account pres) (map ps_account posts)"
  by (cases instr)
    (auto simp: ata_dispatch_def create_associated_token_account_def transfer_from_associated_token_account_def
      burn_from_associated_token_account_def res_simps Let_def unchanged_post_states_def neutral_data split: if_splits)

interpretation ata: balance_neutral_guest "ata_main H dec enc_tk" for H dec enc_tk
proof
  fix self caller pres words out
  assume run: "ata_main H dec enc_tk self caller pres words = Inr out"
  then show "echoes self caller pres words out" by (auto simp: ata_main_def res_simps)
  from run show "list_all2 (\<lambda>a b. frame_ok a b \<and> balance b = balance a)
      (map account pres) (map ps_account (post_states out))"
    by (auto simp: ata_main_def res_simps with_chained_calls_def dest: ata_dispatch_neutral)
qed

interpretation pinata: guest_program "pinata_main H dec" for H dec
proof
  fix self caller pres words out
  assume run: "pinata_main H dec self caller pres words = Inr out"
  then show "echoes self caller pres words out" by (auto simp: pinata_main_def res_simps)
  from run show "list_all2 frame_ok (map account pres) (map ps_account (post_states out))"
    by (auto simp: pinata_main_def res_simps frame_ok_def)
  from run show "total (map ps_account (post_states out)) = total (map account pres)"
    by (auto simp: pinata_main_def res_simps arith_simps total_def)
qed

interpretation pinata_token: balance_neutral_guest "pinata_token_main H dec enc_tk" for H dec enc_tk
proof
  fix self caller pres words out
  assume run: "pinata_token_main H dec enc_tk self caller pres words = Inr out"
  then show "echoes self caller pres words out" by (auto simp: pinata_token_main_def res_simps)
  from run show "list_all2 (\<lambda>a b. frame_ok a b \<and> balance b = balance a)
      (map account pres) (map ps_account (post_states out))"
    by (auto simp: pinata_token_main_def res_simps with_chained_calls_def unchanged_post_states_def neutral_data)
qed

section \<open>What they guarantee\<close>

lemma ata_id_inj:
  assumes "inj_on H {i @ d, j @ e, public_pda_preimage p (compute_ata_seed H i d), public_pda_preimage q (compute_ata_seed H j e)}"
    and "wf_id i" "wf_id j" "wf_program_id p" "wf_program_id q"
    and "get_associated_token_account_id H p (compute_ata_seed H i d) = get_associated_token_account_id H q (compute_ata_seed H j e)"
  shows "i = j \<and> d = e \<and> p = q"
proof -
  have "public_pda_preimage p (compute_ata_seed H i d) = public_pda_preimage q (compute_ata_seed H j e)"
    by (rule inj_onD [OF assms(1)]) (use assms(6) in \<open>simp_all add: get_associated_token_account_id_def for_public_pda_def\<close>)
  then have "p = q" "H (i @ d) = H (j @ e)"
    using assms(4,5) by (simp_all add: public_pda_preimage_eq compute_ata_seed_def)
  moreover from this(2) have "i @ d = j @ e" by (rule inj_onD [OF assms(1)]) simp_all
  ultimately show ?thesis using assms(2,3) by (auto simp: wf_id_def)
qed

lemma ata_spend:
  assumes "ata_dispatch H enc_tk [owner, x, y] instr = Inr (posts, calls)" "instr = ATA_Transfer p n \<or> instr = ATA_Burn p n"
  shows "is_authorized owner \<and> (\<exists>h. token_holding_try_from (data (account x)) = Some h
     \<and> account_id x = get_associated_token_account_id H p (compute_ata_seed H (account_id owner) (definition_id h))
     \<and> map cc_pda_seeds calls = [[compute_ata_seed H (account_id owner) (definition_id h)]])"
  using assms
  by (auto simp: ata_dispatch_def transfer_from_associated_token_account_def burn_from_associated_token_account_def
      verify_ata_and_get_seed_def res_simps Let_def with_pda_seeds_def)

text \<open>
  C16: an associated token account is spent only by its owner.  If the guest asks the token program
  to move or burn tokens of the account that derives from an owner and a token, then the caller is
  that owner, is authorized, and the holding is of that token, unless the hash collides on the
  strings that derive the two addresses.
\<close>

theorem ata_spent_by_owner:
  assumes "ata_dispatch H enc_tk [owner, x, y] instr = Inr (posts, calls)"
    and "instr = ATA_Transfer p n \<or> instr = ATA_Burn p n"
    and "account_id x = get_associated_token_account_id H q (compute_ata_seed H i d)"
    and "token_holding_try_from (data (account x)) = Some h"
    and "wf_id i" "wf_id (account_id owner)" "wf_program_id p" "wf_program_id q"
    and "inj_on H {account_id owner @ definition_id h, i @ d,
      public_pda_preimage p (compute_ata_seed H (account_id owner) (definition_id h)), public_pda_preimage q (compute_ata_seed H i d)}"
  shows "account_id owner = i \<and> is_authorized owner \<and> p = q \<and> definition_id h = d
    \<and> map cc_pda_seeds calls = [[compute_ata_seed H i d]]"
proof -
  have "is_authorized owner"
    "account_id x = get_associated_token_account_id H p (compute_ata_seed H (account_id owner) (definition_id h))"
    "map cc_pda_seeds calls = [[compute_ata_seed H (account_id owner) (definition_id h)]]"
    using ata_spend [OF assms(1,2)] assms(4) by auto
  with ata_id_inj [OF assms(9,6,5,7,8)] assms(3) show ?thesis by simp
qed

definition ata_hash :: hash_fn where
  "ata_hash bs = (if bs = replicate 32 1 @ replicate 32 2 then replicate 32 3
     else if bs = public_pda_preimage (replicate 8 6) (replicate 32 3) then replicate 32 4 else replicate 32 0)"

definition ata_owner :: account_meta where
  "ata_owner = \<lparr> account = default_account, is_authorized = True, account_id = replicate 32 1 \<rparr>"

definition ata_holding :: account_meta where
  "ata_holding = \<lparr> account = \<lparr> program_owner = [8], balance = 0,
     data = token_holding_to_bytes (FungibleHolding (replicate 32 2) 50), nonce = 0 \<rparr>,
     is_authorized = False, account_id = replicate 32 4 \<rparr>"

lemma ata_ids:
  "compute_ata_seed ata_hash (replicate 32 1) (replicate 32 2) = replicate 32 3"
  "get_associated_token_account_id ata_hash (replicate 8 6) (replicate 32 3) = replicate 32 4"
  "public_pda_preimage p s \<noteq> replicate 32 1 @ replicate 32 2"
proof -
  have "take 1 PDA_PREFIX = [47]" by code_simp
  then have "take 1 (public_pda_preimage p s) = [47]" for p s by (cases PDA_PREFIX) (simp_all add: public_pda_preimage_def)
  moreover have "take 1 (replicate 32 1 @ replicate 32 2 :: bytes) = [1]" by (simp add: numeral_eq_Suc)
  ultimately have t: "take 1 (public_pda_preimage p s) \<noteq> take 1 (replicate 32 1 @ replicate 32 2)" for p s by simp
  show *: "public_pda_preimage p s \<noteq> replicate 32 1 @ replicate 32 2" for p s
    by (rule notI, drule arg_cong [where f = "take 1"]) (rule notE [OF t])
  show "compute_ata_seed ata_hash (replicate 32 1) (replicate 32 2) = replicate 32 3"
    by (simp add: compute_ata_seed_def ata_hash_def)
  show "get_associated_token_account_id ata_hash (replicate 8 6) (replicate 32 3) = replicate 32 4"
    using * by (simp add: get_associated_token_account_id_def for_public_pda_def ata_hash_def)
qed

lemma ata_holding_decodes: "token_holding_try_from (data (account ata_holding)) = Some (FungibleHolding (replicate 32 2) 50)"
  by (simp add: ata_holding_def holding_codec wf_id_def)

theorem ata_spent_by_owner_witness:
  "\<exists>posts calls. ata_dispatch ata_hash (\<lambda>_. []) [ata_owner, ata_holding, ata_holding] (ATA_Transfer (replicate 8 6) 10) = Inr (posts, calls)
     \<and> account_id ata_owner = replicate 32 1 \<and> is_authorized ata_owner
     \<and> map cc_pda_seeds calls = [[compute_ata_seed ata_hash (replicate 32 1) (replicate 32 2)]]"
proof -
  have sel: "account_id ata_owner = replicate 32 1" "is_authorized ata_owner" "account_id ata_holding = replicate 32 4"
    by (simp_all add: ata_owner_def ata_holding_def)
  obtain posts calls where r: "ata_dispatch ata_hash (\<lambda>_. []) [ata_owner, ata_holding, ata_holding] (ATA_Transfer (replicate 8 6) 10) = Inr (posts, calls)"
    by (simp add: ata_dispatch_def transfer_from_associated_token_account_def verify_ata_and_get_seed_def Let_def
        ata_holding_decodes sel ata_ids)
  have "inj_on ata_hash {account_id ata_owner @ replicate 32 2, replicate 32 1 @ replicate 32 2,
      public_pda_preimage (replicate 8 6) (replicate 32 3), public_pda_preimage (replicate 8 6) (replicate 32 3)}"
    using ata_ids(3) by (auto simp: inj_on_def sel ata_hash_def)
  with ata_spent_by_owner [OF r, of "replicate 8 6" 10 "replicate 8 6" "replicate 32 1" "replicate 32 2" "FungibleHolding (replicate 32 2) 50"] r
  show ?thesis by (simp add: sel ata_holding_decodes ata_ids wf_id_def wf_program_id_def)
qed

end
