(* ===== verification/Blocks.thy ===== *)
theory Blocks
  imports Ledger
begin

text \<open>
  Blocks (\<open>lez/common/src/block.rs\<close>) and the pool of waiting transactions
  (\<open>lez/mempool/src/lib.rs\<close>).  The Borsh encoding of a block, the encoding of a transaction and the
  signing key are parameters.
\<close>

section \<open>Blocks\<close>

datatype bedrock_status = Pending | Safe | Finalized

record block_meta =
  bm_id :: u64
  bm_hash :: bytes

record block_header =
  bh_block_id :: u64
  bh_prev_block_hash :: bytes
  bh_hash :: bytes
  bh_timestamp :: u64
  bh_signature :: signature

record block =
  bk_header :: block_header
  bk_transactions :: "lee_transaction list"
  bk_bedrock_status :: bedrock_status

record hashable_block_data =
  hb_block_id :: u64
  hb_prev_block_hash :: bytes
  hb_timestamp :: u64
  hb_transactions :: "lee_transaction list"

definition GENESIS_BLOCK_ID :: u64 where
  "GENESIS_BLOCK_ID = 1"

definition BLOCK_PREFIX :: bytes where
  "BLOCK_PREFIX = ascii ''/LEE/v0.3/Message/Block/'' @ replicate 8 0"

definition into_pending_block :: "hash_fn \<Rightarrow> (hashable_block_data \<Rightarrow> bytes) \<Rightarrow> (bytes \<Rightarrow> signature) \<Rightarrow> hashable_block_data \<Rightarrow> block" where
  "into_pending_block H block_bytes sign d =
     (let hash = H (BLOCK_PREFIX @ block_bytes d); sig = sign hash
      in \<lparr> bk_header = \<lparr> bh_block_id = hb_block_id d, bh_prev_block_hash = hb_prev_block_hash d, bh_hash = hash,
             bh_timestamp = hb_timestamp d, bh_signature = sig \<rparr>,
           bk_transactions = hb_transactions d, bk_bedrock_status = Pending \<rparr>)"

definition hashable_of_block :: "block \<Rightarrow> hashable_block_data" where
  "hashable_of_block b = \<lparr> hb_block_id = bh_block_id (bk_header b), hb_prev_block_hash = bh_prev_block_hash (bk_header b),
     hb_timestamp = bh_timestamp (bk_header b), hb_transactions = bk_transactions b \<rparr>"

lemma hashable_of_pending [simp]: "hashable_of_block (into_pending_block H enc sign d) = d"
  by (simp add: hashable_of_block_def into_pending_block_def Let_def)

lemma into_pending_block_sel [simp]:
  "bk_transactions (into_pending_block H enc sign d) = hb_transactions d"
  "bh_block_id (bk_header (into_pending_block H enc sign d)) = hb_block_id d"
  "bh_prev_block_hash (bk_header (into_pending_block H enc sign d)) = hb_prev_block_hash d"
  "bh_timestamp (bk_header (into_pending_block H enc sign d)) = hb_timestamp d"
  "bh_hash (bk_header (into_pending_block H enc sign d)) = H (BLOCK_PREFIX @ enc d)"
  "bk_bedrock_status (into_pending_block H enc sign d) = Pending"
  by (simp_all add: into_pending_block_def Let_def)

text \<open>The numbers \<open>first..=last_id\<close>.\<close>

definition id_range :: "u64 \<Rightarrow> u64 \<Rightarrow> u64 list" where
  "id_range first last_id = map word_of_nat [unat first ..< Suc (unat last_id)]"

section \<open>The pool of waiting transactions\<close>

text \<open>A bounded channel, and a buffer of items that were put back.\<close>

record 'a mempool =
  mp_receiver :: "'a list"
  mp_front_buffer :: "'a list"
  mp_max_size :: nat

definition mempool_new :: "nat \<Rightarrow> 'a mempool" where
  "mempool_new max_size = \<lparr> mp_receiver = [], mp_front_buffer = [], mp_max_size = max_size \<rparr>"

text \<open>The node keeps a sender for as long as it runs, so the channel is never disconnected.\<close>

definition mempool_pop :: "'a mempool \<Rightarrow> ('a \<times> 'a mempool) option" where
  "mempool_pop m =
     (if mp_front_buffer m \<noteq> []
      then Some (last (mp_front_buffer m), m\<lparr> mp_front_buffer := butlast (mp_front_buffer m) \<rparr>)
      else case mp_receiver m of
             [] \<Rightarrow> None
           | item # rest \<Rightarrow> Some (item, m\<lparr> mp_receiver := rest \<rparr>))"

definition mempool_push_front :: "'a \<Rightarrow> 'a mempool \<Rightarrow> 'a mempool" where
  "mempool_push_front item m = m\<lparr> mp_front_buffer := mp_front_buffer m @ [item] \<rparr>"

text \<open>Sending waits while the channel is full (\<open>None\<close>).\<close>

definition mempool_push :: "'a \<Rightarrow> 'a mempool \<Rightarrow> 'a mempool option" where
  "mempool_push item m =
     (if length (mp_receiver m) < mp_max_size m then Some (m\<lparr> mp_receiver := mp_receiver m @ [item] \<rparr>) else None)"

text \<open>
  What a client relies on: the items in the order in which they will be taken.  An item put back is
  taken next, one that is sent is taken last.
\<close>

locale work_queue =
  fixes contents :: "'q \<Rightarrow> 'a list" and pop :: "'q \<Rightarrow> ('a \<times> 'q) option"
    and push_front :: "'a \<Rightarrow> 'q \<Rightarrow> 'q" and push :: "'a \<Rightarrow> 'q \<Rightarrow> 'q option"
  assumes pop_None: "pop q = None \<longleftrightarrow> contents q = []"
    and pop_Some: "pop q = Some (a, q') \<Longrightarrow> contents q = a # contents q'"
    and contents_push_front: "contents (push_front a q) = a # contents q"
    and contents_push: "push a q = Some q' \<Longrightarrow> contents q' = contents q @ [a]"
begin

lemma put_back: "pop q = Some (a, q') \<Longrightarrow> contents (push_front a q') = contents q"
  by (simp add: contents_push_front pop_Some)

lemma pop_shrinks: "pop q = Some (a, q') \<Longrightarrow> length (contents q') < length (contents q)"
  by (simp add: pop_Some)

lemma pop_push_front: "\<exists>q'. pop (push_front a q) = Some (a, q') \<and> contents q' = contents q"
proof -
  have "pop (push_front a q) \<noteq> None" by (simp add: pop_None contents_push_front)
  then obtain b q' where "pop (push_front a q) = Some (b, q')" by auto
  moreover from pop_Some [OF this] have "b = a" "contents q' = contents q" by (simp_all add: contents_push_front)
  ultimately show ?thesis by blast
qed

end

definition mempool_contents :: "'a mempool \<Rightarrow> 'a list" where
  "mempool_contents m = rev (mp_front_buffer m) @ mp_receiver m"

interpretation pool: work_queue mempool_contents mempool_pop mempool_push_front mempool_push
proof
  fix q q' :: "'a mempool" and a
  show "mempool_pop q = None \<longleftrightarrow> mempool_contents q = []"
    by (auto simp: mempool_pop_def mempool_contents_def split: list.splits)
  show "mempool_contents q = a # mempool_contents q'" if "mempool_pop q = Some (a, q')"
    using that by (cases "mp_front_buffer q" rule: rev_cases)
      (auto simp: mempool_pop_def mempool_contents_def split: list.splits)
  show "mempool_contents (mempool_push_front a q) = a # mempool_contents q"
    by (simp add: mempool_push_front_def mempool_contents_def)
  show "mempool_contents q' = mempool_contents q @ [a]" if "mempool_push a q = Some q'"
    using that by (auto simp: mempool_push_def mempool_contents_def split: if_splits)
qed

end
