(* ===== verification/Sequencer_Store.thy ===== *)
theory Sequencer_Store
  imports Blocks
begin

text \<open>
  The database of the sequencer (\<open>lez/storage/src/sequencer\<close>): the cells of its column families,
  single writes, batches and the operations on them.  Reads and writes of the key-value store and
  the encoding of a cell succeed; what is modelled is which cell an operation reads and writes, and
  that a batch is applied at once, at its end.
\<close>

section \<open>Cells\<close>

record pending_deposit_event_record =
  pd_deposit_op_id :: bytes
  pd_source_tx_hash :: bytes
  pd_amount :: u64
  pd_metadata :: bytes
  pd_submitted_in_block_id :: "u64 option"

record withdrawal_reconciliation_key =
  wk_amount :: u64
  wk_bedrock_account_pk :: bytes

record sequencer_db =
  db_first_block :: "u64 option"
  db_first_block_set :: "bool option"
  db_last_block :: "u64 option"
  db_last_finalized :: "u64 option option"
  db_latest_block_meta :: "block_meta option"
  db_checkpoint :: "bytes option"
  db_pending_deposits :: "pending_deposit_event_record list option"
  db_unseen_withdraws :: "withdrawal_reconciliation_key \<Rightarrow> u64 option"
  db_blocks :: "u64 \<Rightarrow> block option"
  db_lee_state :: "v03_state option"

definition empty_db :: sequencer_db where
  "empty_db = \<lparr> db_first_block = None, db_first_block_set = None, db_last_block = None, db_last_finalized = None,
     db_latest_block_meta = None, db_checkpoint = None, db_pending_deposits = None, db_unseen_withdraws = Map.empty,
     db_blocks = Map.empty, db_lee_state = None \<rparr>"

datatype db_error = DbInteractionError string

text \<open>\<open>get\<close> of a cell that must be there.\<close>

definition cell_missing :: "string \<Rightarrow> db_error" where
  "cell_missing name = DbInteractionError ([CHR 0x22] @ name @ [CHR 0x22] @ '' not found'')"

definition get_cell :: "string \<Rightarrow> 'a option \<Rightarrow> (db_error, 'a) result" where
  "get_cell name c = (case c of None \<Rightarrow> Inl (cell_missing name) | Some a \<Rightarrow> Inr a)"

text \<open>The writes that occur in batches.\<close>

datatype db_write =
    PutLastBlock u64
  | PutLatestBlockMeta block_meta
  | PutBlock block
  | PutPendingDeposits "pending_deposit_event_record list"
  | PutUnseenWithdraw withdrawal_reconciliation_key u64
  | PutLeeState v03_state

fun apply_write :: "db_write \<Rightarrow> sequencer_db \<Rightarrow> sequencer_db" where
  "apply_write (PutLastBlock n) db = db\<lparr> db_last_block := Some n \<rparr>"
| "apply_write (PutLatestBlockMeta m) db = db\<lparr> db_latest_block_meta := Some m \<rparr>"
| "apply_write (PutBlock b) db = db\<lparr> db_blocks := (db_blocks db)(bh_block_id (bk_header b) \<mapsto> b) \<rparr>"
| "apply_write (PutPendingDeposits rs) db = db\<lparr> db_pending_deposits := Some rs \<rparr>"
| "apply_write (PutUnseenWithdraw k n) db = db\<lparr> db_unseen_withdraws := (db_unseen_withdraws db)(k \<mapsto> n) \<rparr>"
| "apply_write (PutLeeState s) db = db\<lparr> db_lee_state := Some s \<rparr>"

definition write_batch :: "db_write list \<Rightarrow> sequencer_db \<Rightarrow> sequencer_db" where
  "write_batch ws db = fold apply_write ws db"

section \<open>Operations\<close>

definition get_meta_last_block_in_db :: "sequencer_db \<Rightarrow> (db_error, u64) result" where
  "get_meta_last_block_in_db db = get_cell ''last_block_in_db'' (db_last_block db)"

definition latest_block_meta :: "sequencer_db \<Rightarrow> (db_error, block_meta) result" where
  "latest_block_meta db = get_cell ''latest_block_meta'' (db_latest_block_meta db)"

definition get_pending_deposit_events :: "sequencer_db \<Rightarrow> pending_deposit_event_record list" where
  "get_pending_deposit_events db = (case db_pending_deposits db of None \<Rightarrow> [] | Some rs \<Rightarrow> rs)"

text \<open>The writes of \<open>put_block\<close>; the first block leaves the meta cells alone.\<close>

definition put_block :: "block \<Rightarrow> bool \<Rightarrow> sequencer_db \<Rightarrow> (db_error, db_write list) result" where
  "put_block b first db =
     (if first then Inr [PutBlock b]
      else rbind (get_meta_last_block_in_db db) (\<lambda>last_curr_block.
        Inr ((if bh_block_id (bk_header b) > last_curr_block
              then [PutLastBlock (bh_block_id (bk_header b)),
                    PutLatestBlockMeta \<lparr> bm_id = bh_block_id (bk_header b), bm_hash = bh_hash (bk_header b) \<rparr>]
              else []) @ [PutBlock b])))"

definition db_create :: "block \<Rightarrow> v03_state \<Rightarrow> sequencer_db \<Rightarrow> (db_error, sequencer_db) result" where
  "db_create genesis_block genesis_state db =
     (if db_first_block_set db \<noteq> None then Inr db
      else let block_id = bh_block_id (bk_header genesis_block);
               db = db\<lparr> db_first_block := Some block_id \<rparr>
           in rbind (put_block genesis_block True db) (\<lambda>batch.
              let db = write_batch batch db in
              Inr (db\<lparr> db_first_block_set := Some True, db_last_block := Some block_id, db_last_finalized := Some None,
                       db_latest_block_meta := Some \<lparr> bm_id = block_id, bm_hash = bh_hash (bk_header genesis_block) \<rparr>,
                       db_lee_state := Some genesis_state \<rparr>)))"

definition add_pending_deposit_event :: "pending_deposit_event_record \<Rightarrow> sequencer_db \<Rightarrow> bool \<times> sequencer_db" where
  "add_pending_deposit_event event db =
     (let records = get_pending_deposit_events db in
      if list_ex (\<lambda>r. pd_deposit_op_id r = pd_deposit_op_id event) records then (False, db)
      else (True, db\<lparr> db_pending_deposits := Some (records @ [event]) \<rparr>))"

definition mark_pending_deposit_events_submitted :: "bytes list \<Rightarrow> u64 \<Rightarrow> sequencer_db \<Rightarrow> db_write list" where
  "mark_pending_deposit_events_submitted deposit_op_ids submitted_block_id db =
     (let records = get_pending_deposit_events db;
          marked = map (\<lambda>r. if pd_deposit_op_id r \<in> set deposit_op_ids
                            then r\<lparr> pd_submitted_in_block_id := Some submitted_block_id \<rparr> else r) records
      in if list_ex (\<lambda>r. pd_deposit_op_id r \<in> set deposit_op_ids) records then [PutPendingDeposits marked] else [])"

definition remove_fulfilled_pending_deposit_events_up_to_block :: "u64 \<Rightarrow> sequencer_db \<Rightarrow> nat \<times> sequencer_db" where
  "remove_fulfilled_pending_deposit_events_up_to_block finalized_block_id db =
     (let records = get_pending_deposit_events db;
          kept = filter (\<lambda>r. case pd_submitted_in_block_id r of None \<Rightarrow> True | Some n \<Rightarrow> n > finalized_block_id) records;
          removed = length records - length kept
      in (removed, if removed > 0 then db\<lparr> db_pending_deposits := Some kept \<rparr> else db))"

definition increment_unseen_withdraw_count :: "withdrawal_reconciliation_key \<Rightarrow> sequencer_db \<Rightarrow> (db_error, db_write list) result" where
  "increment_unseen_withdraw_count withdrawal db =
     (let current = (case db_unseen_withdraws db withdrawal of None \<Rightarrow> 0 | Some n \<Rightarrow> n)
      in expect (checked_add current 1) (DbInteractionError ''Unseen withdraw counter overflow'') (\<lambda>next_count.
         Inr [PutUnseenWithdraw withdrawal next_count]))"

definition consume_unseen_withdraw_count :: "withdrawal_reconciliation_key \<Rightarrow> sequencer_db \<Rightarrow> bool \<times> sequencer_db" where
  "consume_unseen_withdraw_count withdrawal db =
     (case db_unseen_withdraws db withdrawal of
        None \<Rightarrow> (False, db)
      | Some current \<Rightarrow>
          (case checked_sub current 1 of
             Some n \<Rightarrow> (True, db\<lparr> db_unseen_withdraws := (db_unseen_withdraws db)(withdrawal \<mapsto> n) \<rparr>)
           | None \<Rightarrow> (True, db\<lparr> db_unseen_withdraws := (db_unseen_withdraws db)(withdrawal := None) \<rparr>)))"

definition delete_block :: "u64 \<Rightarrow> sequencer_db \<Rightarrow> (db_error, sequencer_db) result" where
  "delete_block block_id db =
     (if db_blocks db block_id = None then Inl (DbInteractionError ''Block not found'')
      else Inr (db\<lparr> db_blocks := (db_blocks db)(block_id := None) \<rparr>))"

definition mark_block_as_finalized :: "u64 \<Rightarrow> sequencer_db \<Rightarrow> (db_error, sequencer_db) result" where
  "mark_block_as_finalized block_id db =
     (case db_blocks db block_id of
        None \<Rightarrow> Inl (DbInteractionError ''Block not found'')
      | Some b \<Rightarrow> Inr (db\<lparr> db_blocks := (db_blocks db)(block_id \<mapsto> b\<lparr> bk_bedrock_status := Finalized \<rparr>) \<rparr>))"

text \<open>
  \<open>clean_pending_blocks_up_to\<close> on the keys that the iterator over the block column yields.  The marks
  are single writes: those before a failure stay.
\<close>

fun mark_all_finalized :: "u64 list \<Rightarrow> sequencer_db \<Rightarrow> sequencer_db \<times> (db_error, unit) result" where
  "mark_all_finalized [] db = (db, Inr ())"
| "mark_all_finalized (i # ids) db =
     (case mark_block_as_finalized i db of Inl e \<Rightarrow> (db, Inl e) | Inr db \<Rightarrow> mark_all_finalized ids db)"

definition clean_pending_blocks_up_to :: "u64 list \<Rightarrow> u64 \<Rightarrow> sequencer_db \<Rightarrow> sequencer_db \<times> (db_error, unit) result" where
  "clean_pending_blocks_up_to keys last_finalized db =
     (let stored = List.map_filter (db_blocks db) keys;
          pending_ids = filter (\<lambda>i. i \<le> last_finalized)
            (map (bh_block_id \<circ> bk_header) (filter (\<lambda>b. bk_bedrock_status b = Pending) stored))
      in mark_all_finalized pending_ids db)"

text \<open>All writes of a new block in one batch; each part reads the database as it was.\<close>

fun increment_all :: "withdrawal_reconciliation_key list \<Rightarrow> sequencer_db \<Rightarrow> (db_error, db_write list) result" where
  "increment_all [] db = Inr []"
| "increment_all (w # ws) db =
     rbind (increment_unseen_withdraw_count w db) (\<lambda>b. rbind (increment_all ws db) (\<lambda>bs. Inr (b @ bs)))"

definition atomic_update :: "block \<Rightarrow> bytes list \<Rightarrow> withdrawal_reconciliation_key list \<Rightarrow> v03_state \<Rightarrow> sequencer_db
    \<Rightarrow> (db_error, sequencer_db) result" where
  "atomic_update b deposit_op_ids withdrawals state db =
     (let block_id = bh_block_id (bk_header b) in
      rbind (put_block b False db) (\<lambda>batch1.
      let batch2 = mark_pending_deposit_events_submitted deposit_op_ids block_id db in
      rbind (increment_all withdrawals db) (\<lambda>batch3.
      Inr (write_batch (batch1 @ batch2 @ batch3 @ [PutLeeState state]) db))))"

section \<open>Deposits\<close>

definition deposits_distinct :: "sequencer_db \<Rightarrow> bool" where
  "deposits_distinct db \<longleftrightarrow> distinct (map pd_deposit_op_id (get_pending_deposit_events db))"

lemma write_batch_simps [simp]:
  "write_batch [] db = db" "write_batch (w # ws) db = write_batch ws (apply_write w db)"
  "write_batch (ws @ vs) db = write_batch vs (write_batch ws db)"
  by (simp_all add: write_batch_def)

lemma get_pending_put [simp]:
  "get_pending_deposit_events (db\<lparr> db_pending_deposits := Some rs \<rparr>) = rs"
  by (simp add: get_pending_deposit_events_def)

lemma add_pending_distinct:
  assumes "deposits_distinct db" "add_pending_deposit_event e db = (added, db')"
  shows "deposits_distinct db'" "added \<longleftrightarrow> pd_deposit_op_id e \<notin> pd_deposit_op_id ` set (get_pending_deposit_events db)"
  using assms by (fastforce simp: add_pending_deposit_event_def deposits_distinct_def Let_def list_ex_iff image_iff split: if_splits)+

lemma remove_fulfilled_distinct:
  "deposits_distinct db \<Longrightarrow> deposits_distinct (snd (remove_fulfilled_pending_deposit_events_up_to_block n db))"
  by (auto simp: remove_fulfilled_pending_deposit_events_up_to_block_def deposits_distinct_def Let_def distinct_map_filter)

lemma increment_all_Inr:
  "increment_all ws db = Inr bs \<longleftrightarrow>
     (\<forall>w \<in> set ws. unat (case db_unseen_withdraws db w of None \<Rightarrow> 0 | Some n \<Rightarrow> n) + 1 < 2 ^ 64)
     \<and> bs = map (\<lambda>w. PutUnseenWithdraw w ((case db_unseen_withdraws db w of None \<Rightarrow> 0 | Some n \<Rightarrow> n) + 1)) ws"
proof (induction ws arbitrary: bs)
  case (Cons w ws)
  have "increment_unseen_withdraw_count w db = Inr b \<longleftrightarrow>
      unat (case db_unseen_withdraws db w of None \<Rightarrow> 0 | Some n \<Rightarrow> n) + 1 < 2 ^ 64
      \<and> b = [PutUnseenWithdraw w ((case db_unseen_withdraws db w of None \<Rightarrow> 0 | Some n \<Rightarrow> n) + 1)]" for b
    by (auto simp: increment_unseen_withdraw_count_def Let_def checked_add_def res_simps split: if_splits)
  with Cons.IH show ?case by (auto simp: res_simps)
qed auto

text \<open>A batch leaves the cells alone that none of its writes names.\<close>

lemma increments_only_withdraws:
  "write_batch (map (\<lambda>w. PutUnseenWithdraw w (f w)) ws) db =
     db\<lparr> db_unseen_withdraws := \<lambda>k. if k \<in> set ws then Some (f k) else db_unseen_withdraws db k \<rparr>"
  by (induction ws arbitrary: db) (auto intro!: sequencer_db.equality simp: fun_eq_iff)

lemma put_block_Inr:
  "put_block b False db = Inr ws \<longleftrightarrow> (\<exists>l. db_last_block db = Some l \<and>
     ws = (if l < bh_block_id (bk_header b)
           then [PutLastBlock (bh_block_id (bk_header b)),
                 PutLatestBlockMeta \<lparr> bm_id = bh_block_id (bk_header b), bm_hash = bh_hash (bk_header b) \<rparr>] else []) @ [PutBlock b])"
  by (auto simp: put_block_def get_meta_last_block_in_db_def get_cell_def res_simps split: option.splits)

definition marked :: "bytes list \<Rightarrow> u64 \<Rightarrow> pending_deposit_event_record \<Rightarrow> pending_deposit_event_record" where
  "marked ids n r = (if pd_deposit_op_id r \<in> set ids then r\<lparr> pd_submitted_in_block_id := Some n \<rparr> else r)"

lemma mark_pending_writes:
  "mark_pending_deposit_events_submitted ids n db =
     (if \<exists>r \<in> set (get_pending_deposit_events db). pd_deposit_op_id r \<in> set ids
      then [PutPendingDeposits (map (marked ids n) (get_pending_deposit_events db))] else [])"
  by (simp add: mark_pending_deposit_events_submitted_def Let_def list_ex_iff marked_def [abs_def])

lemma mark_pending_effect:
  "get_pending_deposit_events (write_batch (mark_pending_deposit_events_submitted ids n db) db')
     = map (marked ids n) (get_pending_deposit_events db)"
  if "get_pending_deposit_events db' = get_pending_deposit_events db"
proof (cases "\<exists>r \<in> set (get_pending_deposit_events db). pd_deposit_op_id r \<in> set ids")
  case False
  then have "map (marked ids n) (get_pending_deposit_events db) = get_pending_deposit_events db"
    by (intro map_idI) (auto simp: marked_def)
  with False that show ?thesis by (simp add: mark_pending_writes)
qed (simp add: mark_pending_writes get_pending_deposit_events_def)

text \<open>What a new block leaves in the database.\<close>

lemma atomic_update_effect:
  assumes "atomic_update b ids ws st db = Inr db'"
  shows "db_lee_state db' = Some st" "db_blocks db' = (db_blocks db)(bh_block_id (bk_header b) \<mapsto> b)"
    "get_pending_deposit_events db' = map (marked ids (bh_block_id (bk_header b))) (get_pending_deposit_events db)"
    "db_unseen_withdraws db' = (\<lambda>k. if k \<in> set ws then Some ((case db_unseen_withdraws db k of None \<Rightarrow> 0 | Some n \<Rightarrow> n) + 1)
      else db_unseen_withdraws db k)"
    "\<exists>l. db_last_block db = Some l \<and> (l < bh_block_id (bk_header b) \<longrightarrow> db_last_block db' = Some (bh_block_id (bk_header b))
      \<and> db_latest_block_meta db' = Some \<lparr> bm_id = bh_block_id (bk_header b), bm_hash = bh_hash (bk_header b) \<rparr>)"
proof -
  let ?i = "bh_block_id (bk_header b)"
  let ?count = "\<lambda>w. (case db_unseen_withdraws db w of None \<Rightarrow> 0 | Some n \<Rightarrow> n) + 1"
  from assms obtain b1 l where l: "db_last_block db = Some l" and
    b1: "b1 = (if l < ?i then [PutLastBlock ?i, PutLatestBlockMeta \<lparr> bm_id = ?i, bm_hash = bh_hash (bk_header b) \<rparr>] else []) @ [PutBlock b]"
    and db': "db' = write_batch (b1 @ mark_pending_deposit_events_submitted ids ?i db
      @ map (\<lambda>w. PutUnseenWithdraw w (?count w)) ws @ [PutLeeState st]) db"
    by (auto simp: atomic_update_def Let_def res_simps put_block_Inr increment_all_Inr)
  define m where "m = mark_pending_deposit_events_submitted ids ?i db"
  have m: "m = [] \<or> (\<exists>rs. m = [PutPendingDeposits rs])" by (auto simp: m_def mark_pending_writes)
  note eff = db' [folded m_def, unfolded b1] increments_only_withdraws
  show "db_lee_state db' = Some st" by (simp add: eff)
  show "db_blocks db' = (db_blocks db)(?i \<mapsto> b)" using m by (auto simp: eff)
  show "db_unseen_withdraws db' = (\<lambda>k. if k \<in> set ws then Some (?count k) else db_unseen_withdraws db k)"
    using m by (auto simp: eff fun_eq_iff)
  show "\<exists>l. db_last_block db = Some l \<and> (l < ?i \<longrightarrow> db_last_block db' = Some ?i
      \<and> db_latest_block_meta db' = Some \<lparr> bm_id = ?i, bm_hash = bh_hash (bk_header b) \<rparr>)"
    using m l by (auto simp: eff)
  have "get_pending_deposit_events (write_batch b1 db) = get_pending_deposit_events db"
    by (simp add: b1 get_pending_deposit_events_def)
  from mark_pending_effect [OF this, of ids ?i] show "get_pending_deposit_events db' = map (marked ids ?i) (get_pending_deposit_events db)"
    by (simp add: db' increments_only_withdraws get_pending_deposit_events_def)
qed

lemma atomic_update_distinct:
  assumes "atomic_update b ids ws st db = Inr db'" "deposits_distinct db"
  shows "deposits_distinct db'"
proof -
  have "pd_deposit_op_id \<circ> marked ids n = pd_deposit_op_id" for n by (simp add: marked_def fun_eq_iff)
  with assms(2) show ?thesis by (simp add: deposits_distinct_def atomic_update_effect(3) [OF assms(1)])
qed

section \<open>Withdrawals\<close>

text \<open>Reconciling a number of equal withdraw events, one after the other.\<close>

fun consume_times :: "nat \<Rightarrow> withdrawal_reconciliation_key \<Rightarrow> sequencer_db \<Rightarrow> bool list" where
  "consume_times 0 k db = []"
| "consume_times (Suc m) k db = (case consume_unseen_withdraw_count k db of (ok, db) \<Rightarrow> ok # consume_times m k db)"

lemma consume_times_unknown: "db_unseen_withdraws db k = None \<Longrightarrow> consume_times m k db = replicate m False"
  by (induction m) (simp_all add: consume_unseen_withdraw_count_def)

lemma consume_times_known:
  "db_unseen_withdraws db k = Some n \<Longrightarrow> consume_times (unat n + 1 + m) k db = replicate (unat n + 1) True @ replicate m False"
proof (induction "unat n" arbitrary: n db)
  case 0
  then have n: "n = 0" by (simp add: unat_eq_zero)
  then show ?case using 0(2) by (simp add: consume_unseen_withdraw_count_def checked_sub_def consume_times_unknown)
next
  case (Suc u)
  then have u: "unat (n - 1) = u" "unat (1 :: u64) \<le> unat n" by (simp_all add: unat_sub_no_wrap)
  let ?db = "db\<lparr> db_unseen_withdraws := (db_unseen_withdraws db)(k \<mapsto> n - 1) \<rparr>"
  have "consume_times (unat (n - 1) + 1 + m) k ?db = replicate (unat (n - 1) + 1) True @ replicate m False"
    by (rule Suc.hyps(1)) (simp_all add: u)
  then show ?case
    using Suc.prems u Suc.hyps(2) [symmetric] by (simp add: consume_unseen_withdraw_count_def checked_sub_def)
qed

text \<open>
  C32: reconciliation of withdrawals counts wrongly.  However often a withdrawal occurs in a block,
  its counter goes up by one; and a counter of \<open>n\<close> lets \<open>n + 1\<close> events of the other chain pass as
  expected before the next is reported: after one block with a new withdrawal two events pass.
\<close>

theorem withdraw_reconciliation:
  assumes "atomic_update b ids ws st db = Inr db'" and "k \<in> set ws"
  shows "\<exists>n. db_unseen_withdraws db' k = Some n \<and> n = (case db_unseen_withdraws db k of None \<Rightarrow> 0 | Some c \<Rightarrow> c) + 1
    \<and> (\<forall>m. consume_times (unat n + 1 + m) k db' = replicate (unat n + 1) True @ replicate m False)"
  using assms consume_times_known by (simp add: atomic_update_effect(4) [OF assms(1)])

definition ex_db :: sequencer_db where
  "ex_db = empty_db\<lparr> db_last_block := Some 1 \<rparr>"

definition ex_block :: "u64 \<Rightarrow> block" where
  "ex_block n = \<lparr> bk_header = \<lparr> bh_block_id = n, bh_prev_block_hash = [], bh_hash = [], bh_timestamp = 0, bh_signature = [] \<rparr>,
     bk_transactions = [], bk_bedrock_status = Pending \<rparr>"

definition ex_key :: withdrawal_reconciliation_key where
  "ex_key = \<lparr> wk_amount = 5, wk_bedrock_account_pk = [] \<rparr>"

theorem withdraw_reconciliation_witness:
  "\<forall>st. \<exists>db'. atomic_update (ex_block 2) [] [ex_key, ex_key] st ex_db = Inr db'
    \<and> db_unseen_withdraws db' ex_key = Some 1 \<and> consume_times 3 ex_key db' = [True, True, False]"
proof
  fix st
  obtain db' where db': "atomic_update (ex_block 2) [] [ex_key, ex_key] st ex_db = Inr db'"
    by (simp add: atomic_update_def put_block_def get_meta_last_block_in_db_def get_cell_def ex_db_def empty_db_def
        increment_unseen_withdraw_count_def checked_add_def Let_def)
  have *: "db_unseen_withdraws ex_db ex_key = None" by (simp add: ex_db_def empty_db_def)
  from withdraw_reconciliation [OF db', of ex_key] have c: "db_unseen_withdraws db' ex_key = Some 1"
    and "consume_times (1 + 1 + 1) ex_key db' = replicate (1 + 1) True @ replicate 1 False"
    by (auto simp: * dest: spec [of _ 1])
  then show "\<exists>db'. atomic_update (ex_block 2) [] [ex_key, ex_key] st ex_db = Inr db'
    \<and> db_unseen_withdraws db' ex_key = Some 1 \<and> consume_times 3 ex_key db' = [True, True, False]"
    using db' by (auto simp: numeral_eq_Suc)
qed

end
