(* ===== verification/Block_Clock.thy ===== *)
theory Block_Clock
  imports Ledger
begin

text \<open>
  The clock at the level of the ledger.  Every block ends with an invocation of the clock program,
  and a block whose invocation fails is not produced: here it is shown that the invocation succeeds
  in every state with intact clock accounts, among them the genesis states, and leaves them intact.
\<close>

definition runs_clock :: "runtime \<Rightarrow> builtins \<Rightarrow> (u64 \<Rightarrow> instruction_data) \<Rightarrow> bool" where
  "runs_clock rt bi enc \<longleftrightarrow> (\<exists>dec. (\<forall>ts. dec (enc ts) = Some ts)
     \<and> (\<forall>caller pres words. rt_execute rt (bi_clock bi) caller pres words =
          map_err ProgramExecutionFailed (clock_main dec (prog_id (bi_clock bi)) caller pres words)))"

definition clock_ready :: "builtins \<Rightarrow> clock_account_data \<Rightarrow> v03_state \<Rightarrow> bool" where
  "clock_ready bi d s \<longleftrightarrow>
     prog_id (bi_clock bi) \<noteq> DEFAULT_PROGRAM_ID \<and> fmlookup (programs s) (prog_id (bi_clock bi)) = Some (bi_clock bi)
   \<and> (\<forall>i \<in> set CLOCK_PROGRAM_ACCOUNT_IDS. program_owner (get_account_by_id s i) = prog_id (bi_clock bi))
   \<and> clock_from_bytes (data (get_account_by_id s CLOCK_01_PROGRAM_ACCOUNT_ID)) = Some d
   \<and> cs_digest (commitment_state s) \<noteq> None"

lemma clock_ids_distinct [simp]: "distinct CLOCK_PROGRAM_ACCOUNT_IDS" "n_distinct CLOCK_PROGRAM_ACCOUNT_IDS = 3"
  by code_simp+

lemma clock_ids_neq [simp]:
  "CLOCK_01_PROGRAM_ACCOUNT_ID \<noteq> CLOCK_10_PROGRAM_ACCOUNT_ID" "CLOCK_01_PROGRAM_ACCOUNT_ID \<noteq> CLOCK_50_PROGRAM_ACCOUNT_ID"
  "CLOCK_10_PROGRAM_ACCOUNT_ID \<noteq> CLOCK_50_PROGRAM_ACCOUNT_ID"
  "CLOCK_10_PROGRAM_ACCOUNT_ID \<noteq> CLOCK_01_PROGRAM_ACCOUNT_ID" "CLOCK_50_PROGRAM_ACCOUNT_ID \<noteq> CLOCK_01_PROGRAM_ACCOUNT_ID"
  "CLOCK_50_PROGRAM_ACCOUNT_ID \<noteq> CLOCK_10_PROGRAM_ACCOUNT_ID"
  using clock_ids_distinct(1) by (auto simp: CLOCK_PROGRAM_ACCOUNT_IDS_def)

lemma clock_post_sel [simp]:
  "balance (clock_post m b ts a) = balance a" "nonce (clock_post m b ts a) = nonce a"
  "program_owner (clock_post m b ts a) = program_owner a"
  "data (clock_post (Suc 0) b ts a) = clock_to_bytes \<lparr> cad_block_id = b, cad_timestamp = ts \<rparr>"
  by (simp_all add: clock_post_def)

text \<open>The accounts after the invocation, as a diff.\<close>

definition clock_diff :: "u64 \<Rightarrow> u64 \<Rightarrow> v03_state \<Rightarrow> diff_map" where
  "clock_diff b ts s =
     fmupd CLOCK_50_PROGRAM_ACCOUNT_ID (clock_post 50 b ts (get_account_by_id s CLOCK_50_PROGRAM_ACCOUNT_ID))
      (fmupd CLOCK_10_PROGRAM_ACCOUNT_ID (clock_post 10 b ts (get_account_by_id s CLOCK_10_PROGRAM_ACCOUNT_ID))
        (fmupd CLOCK_01_PROGRAM_ACCOUNT_ID (clock_post 1 b ts (get_account_by_id s CLOCK_01_PROGRAM_ACCOUNT_ID)) fmempty))"

definition clock_pres :: "v03_state \<Rightarrow> account_meta list" where
  "clock_pres s = map (\<lambda>i. new_account_meta (get_account_by_id s i) False i) CLOCK_PROGRAM_ACCOUNT_IDS"

definition clock_posts :: "u64 \<Rightarrow> u64 \<Rightarrow> v03_state \<Rightarrow> post_state list" where
  "clock_posts b ts s = [post_new (clock_post 1 b ts (get_account_by_id s CLOCK_01_PROGRAM_ACCOUNT_ID)),
     post_new (clock_post 10 b ts (get_account_by_id s CLOCK_10_PROGRAM_ACCOUNT_ID)),
     post_new (clock_post 50 b ts (get_account_by_id s CLOCK_50_PROGRAM_ACCOUNT_ID))]"

lemma clock_guest:
  assumes "clock_ready bi d s" "dec words = Some ts" "unat (cad_block_id d) + 1 < 2 ^ 64"
  shows "clock_main dec (prog_id (bi_clock bi)) None (clock_pres s) words =
    Inr (program_output_new (prog_id (bi_clock bi)) None words (clock_pres s) (clock_posts (cad_block_id d + 1) ts s))"
  using assms unfolding clock_pres_def clock_posts_def CLOCK_PROGRAM_ACCOUNT_IDS_def list.map
  by (subst clock_main_eq) (auto simp: clock_accounts_def clock_ready_def CLOCK_PROGRAM_ACCOUNT_IDS_def checked_add_def)

lemma clock_execution_valid:
  assumes "clock_ready bi d s"
  shows "validate_execution (clock_pres s) (clock_posts b ts s) (prog_id (bi_clock bi)) = Inr ()"
proof -
  have "unat (balance a) < 2 ^ 128" for a :: account using unat_lt2p [of "balance a"] by simp
  from this [of "get_account_by_id s CLOCK_01_PROGRAM_ACCOUNT_ID"] this [of "get_account_by_id s CLOCK_10_PROGRAM_ACCOUNT_ID"]
    this [of "get_account_by_id s CLOCK_50_PROGRAM_ACCOUNT_ID"]
  have "total (map account (clock_pres s)) < 2 ^ 256"
    by (simp add: clock_pres_def CLOCK_PROGRAM_ACCOUNT_IDS_def total_def)
  with assms show ?thesis
    by (auto simp: validate_execution_Inr well_behaved_def clock_pres_def clock_posts_def CLOCK_PROGRAM_ACCOUNT_IDS_def
        pair_ok_def total_def clock_ready_def)
qed

lemma clock_call:
  assumes "clock_ready bi d s" "runs_clock rt bi enc" "unat (cad_block_id d) + 1 < 2 ^ 64"
  shows "process_call rt s b t \<lparr> cc_program_id = prog_id (bi_clock bi), cc_pre_states = clock_pres s,
      cc_instruction_data = enc ts, cc_pda_seeds = [] \<rparr> \<lparr> cd_program_id = None, cd_authorized_accounts = {} \<rparr> fmempty
    = Inr (program_output_new (prog_id (bi_clock bi)) None (enc ts) (clock_pres s) (clock_posts (cad_block_id d + 1) ts s),
        clock_diff (cad_block_id d + 1) ts s)"
proof -
  from assms(2) obtain dec where dec: "dec (enc ts) = Some ts"
    and run: "\<And>caller pres words. rt_execute rt (bi_clock bi) caller pres words =
      map_err ProgramExecutionFailed (clock_main dec (prog_id (bi_clock bi)) caller pres words)"
    by (auto simp: runs_clock_def)
  have "for_each (check_pre_state s fmempty (\<lambda>i. False)) (clock_pres s) = Inr ()"
    by (simp add: clock_pres_def CLOCK_PROGRAM_ACCOUNT_IDS_def check_pre_state_def expected_pre_def Let_def)
  moreover have "apply_claims (rt_hash rt) (prog_id (bi_clock bi)) (zip (clock_pres s) (clock_posts b' ts s)) = Inr (clock_posts b' ts s)"
    "update_diff (clock_pres s) (clock_posts b' ts s) fmempty = clock_diff b' ts s" for b'
    by (simp_all add: clock_pres_def clock_posts_def CLOCK_PROGRAM_ACCOUNT_IDS_def apply_claim_def update_diff_def clock_diff_def)
  moreover have "fmlookup (programs s) (prog_id (bi_clock bi)) = Some (bi_clock bi)" using assms(1) by (simp add: clock_ready_def)
  ultimately show ?thesis
    using clock_guest [of bi d s dec "enc ts" ts] clock_execution_valid [OF assms(1)] assms(1,3) dec
    by (simp add: process_call_def run compute_public_authorized_pdas_def)
qed

lemma clock_claimed:
  assumes "clock_ready bi d s"
  shows "check_claimed s (clock_diff b ts s) = Inr ()"
  using assms by (simp add: check_claimed_def for_each_Inr ensure_Inr unclaimed_def clock_diff_def clock_ready_def
      CLOCK_PROGRAM_ACCOUNT_IDS_def Let_def)

lemma clock_from_public:
  assumes "clock_ready bi d s" "runs_clock rt bi enc" "unat (cad_block_id d) + 1 < 2 ^ 64"
  shows "from_public_transaction rt (clock_invocation bi enc ts) s b t =
    Inr \<lparr> sd_signer_account_ids = [], sd_public_diff = clock_diff (cad_block_id d + 1) ts s, sd_new_commitments = [],
          sd_new_nullifiers = [], sd_program = None \<rparr>"
proof -
  have q: "initial_queue s [] (pt_message (clock_invocation bi enc ts)) =
      [(\<lparr> cc_program_id = prog_id (bi_clock bi), cc_pre_states = clock_pres s, cc_instruction_data = enc ts, cc_pda_seeds = [] \<rparr>,
        \<lparr> cd_program_id = None, cd_authorized_accounts = {} \<rparr>)]"
    by (simp add: initial_queue_def input_pre_states_def clock_invocation_def clock_pres_def)
  have "run_calls rt s b t 0 (initial_queue s [] (pt_message (clock_invocation bi enc ts))) fmempty
      = Inr (clock_diff (cad_block_id d + 1) ts s)"
    by (simp add: q clock_call [OF assms] next_calls_def MAX_NUMBER_CHAINED_CALLS_def)
  then show ?thesis
    using clock_claimed [OF assms(1)]
    by (simp add: from_public_transaction_def clock_invocation_def witness_is_valid_for_def check_nonces_def
        signer_account_ids_def Let_def CLOCK_PROGRAM_ACCOUNT_IDS_def)
qed

lemma clock_tick:
  assumes "clock_ready bi d s" "runs_clock rt bi enc" "unat (cad_block_id d) + 1 < 2 ^ 64"
  obtains s' where "transition_from_public_transaction rt (clock_invocation bi enc ts) s b t = Inr (Some s')"
    "clock_ready bi \<lparr> cad_block_id = cad_block_id d + 1, cad_timestamp = ts \<rparr> s'"
    "\<And>i. i \<notin> set CLOCK_PROGRAM_ACCOUNT_IDS \<Longrightarrow> get_account_by_id s' i = get_account_by_id s i"
proof -
  obtain r where r: "cs_digest (commitment_state s) = Some r" using assms(1) by (auto simp: clock_ready_def)
  let ?s = "s\<lparr> public_state := fmadd (public_state s) (clock_diff (cad_block_id d + 1) ts s),
    commitment_state := (commitment_state s)\<lparr> cs_root_history := finsert r (cs_root_history (commitment_state s)) \<rparr> \<rparr>"
  have acc: "get_account_by_id ?s i = (case fmlookup (clock_diff (cad_block_id d + 1) ts s) i of
      None \<Rightarrow> get_account_by_id s i | Some a \<Rightarrow> a)" for i
    by (simp add: get_account_by_id_def split: option.splits) (auto simp: fmlookup_dom_iff fmdom_notI)
  have "transition_from_public_transaction rt (clock_invocation bi enc ts) s b t = Inr (Some ?s)"
    using r by (simp add: transition_from_public_transaction_def clock_from_public [OF assms] apply_state_diff_def cs_extend_def
        ns_extend_def Let_def)
  moreover have "clock_ready bi \<lparr> cad_block_id = cad_block_id d + 1, cad_timestamp = ts \<rparr> ?s"
    using assms(1) r by (simp add: clock_ready_def acc CLOCK_PROGRAM_ACCOUNT_IDS_def) (simp add: clock_diff_def cs_digest_def)
  moreover have "get_account_by_id ?s i = get_account_by_id s i" if "i \<notin> set CLOCK_PROGRAM_ACCOUNT_IDS" for i
    using that by (simp add: acc) (auto simp: clock_diff_def CLOCK_PROGRAM_ACCOUNT_IDS_def)
  ultimately show thesis by (rule that)
qed

text \<open>The genesis states have intact clock accounts, when the programs of the node are different.\<close>

lemma genesis_clock_ready:
  assumes "new_with_genesis_accounts H bi accts priv ts = Some s" "prog_id (bi_clock bi) \<noteq> DEFAULT_PROGRAM_ID"
    and "prog_id (bi_clock bi) \<notin> prog_id ` {bi_authenticated_transfer bi, bi_token bi, bi_amm bi, bi_ata bi, bi_vault bi,
      bi_faucet bi, bi_bridge bi}"
  shows "clock_ready bi \<lparr> cad_block_id = 0, cad_timestamp = ts \<rparr> s"
proof -
  have dig: "cs_extend H cs c = Some c' \<Longrightarrow> cs_digest c' \<noteq> None" for cs c c'
    by (auto simp: cs_extend_def cs_digest_def split: option.splits)
  from assms(1) have "cs_digest (commitment_state s) \<noteq> None"
    by (auto simp: new_with_genesis_accounts_def bind_eq_Some_conv Let_def insert_program_def insert_clock_accounts_def dest: dig)
  moreover from assms have "fmlookup (programs s) (prog_id (bi_clock bi)) = Some (bi_clock bi)"
    by (auto simp: new_with_genesis_accounts_def bind_eq_Some_conv Let_def insert_program_def insert_clock_accounts_def)
  moreover from assms(1) have "get_account_by_id s i = default_account\<lparr> program_owner := prog_id (bi_clock bi),
      data := clock_to_bytes \<lparr> cad_block_id = 0, cad_timestamp = ts \<rparr> \<rparr>" if "i \<in> set CLOCK_PROGRAM_ACCOUNT_IDS" for i
    using that by (auto simp: new_with_genesis_accounts_def bind_eq_Some_conv Let_def insert_program_def insert_clock_accounts_def
        get_account_by_id_def CLOCK_PROGRAM_ACCOUNT_IDS_def)
  ultimately show ?thesis using assms(2) by (simp add: clock_ready_def CLOCK_PROGRAM_ACCOUNT_IDS_def)
qed

end
