(* ===== verification/Sequencer.thy ===== *)
theory Sequencer
  imports Sequencer_Store Borsh Block_Clock
begin

text \<open>
  The sequencer (\<open>lez/sequencer/core/src/lib.rs\<close>, \<open>block_store.rs\<close>): it takes transactions from the
  pool, builds a block, publishes it and stores it, and reacts to events of the other chain.  Time,
  the publisher and the encodings of third-party crates are parameters.
\<close>

section \<open>Environment and state\<close>

record node_env =
  ne_runtime :: runtime
  ne_builtins :: builtins
  ne_block_bytes :: "hashable_block_data \<Rightarrow> bytes"
  ne_transaction_bytes :: "lee_transaction \<Rightarrow> bytes"
  ne_sign :: "bytes \<Rightarrow> signature"
  ne_encode_clock :: "u64 \<Rightarrow> instruction_data"
  ne_encode_bridge :: "bridge_instruction \<Rightarrow> instruction_data"
  ne_decode_bridge :: "instruction_data \<Rightarrow> bridge_instruction option"
  ne_encode_faucet :: "faucet_instruction \<Rightarrow> instruction_data"
  ne_zk_public_key :: "nat \<Rightarrow> nat"
  ne_max_block_size :: nat
  ne_max_num_tx_in_block :: nat

datatype transaction_origin = User | FromSequencer

record sequencer =
  sq_state :: v03_state
  sq_db :: sequencer_db
  sq_tx_hash_to_block :: "bytes \<Rightarrow> u64 option"
  sq_mempool :: "(transaction_origin \<times> lee_transaction) mempool"
  sq_chain_height :: u64

datatype sequencer_error =
    SeqPanic string
  | SeqDb db_error
  | SeqExecution string lee_error
  | SeqOther string

definition lee_hash :: "node_env \<Rightarrow> lee_transaction \<Rightarrow> bytes" where
  "lee_hash env t = rt_hash (ne_runtime env) (ne_transaction_bytes env t)"

section \<open>Bridge transactions\<close>

record bedrock_note =
  nt_value :: u64
  nt_pk :: nat

type_synonym withdraw_arg = "bedrock_note list"

text \<open>\<open>BigUint::to_bytes_le\<close>: no trailing zeros, and one zero byte for zero.\<close>

fun big_bytes_le :: "nat \<Rightarrow> bytes" where
  "big_bytes_le n = (if n < 256 then [word_of_nat n] else word_of_nat (n mod 256) # big_bytes_le (n div 256))"

declare big_bytes_le.simps [simp del]

definition bridge_instruction_of :: "node_env \<Rightarrow> lee_transaction \<Rightarrow> bridge_instruction option" where
  "bridge_instruction_of env t =
     (case t of
        TxPublic tx \<Rightarrow>
          if pm_program_id (pt_message tx) \<noteq> prog_id (bi_bridge (ne_builtins env)) then None
          else ne_decode_bridge env (pm_instruction_data (pt_message tx))
      | _ \<Rightarrow> None)"

definition extract_bridge_deposit_id :: "node_env \<Rightarrow> lee_transaction \<Rightarrow> bytes option" where
  "extract_bridge_deposit_id env t =
     (case bridge_instruction_of env t of
        Some (Bridge_Deposit l1_deposit_op_id _ _ _) \<Rightarrow> Some l1_deposit_op_id
      | _ \<Rightarrow> None)"

definition extract_bridge_withdraw_data :: "node_env \<Rightarrow> lee_transaction \<Rightarrow> (sequencer_error, withdraw_arg option) result" where
  "extract_bridge_withdraw_data env t =
     (case bridge_instruction_of env t of
        None \<Rightarrow> Inr None
      | Some (Bridge_Withdraw amount bedrock_account_pk) \<Rightarrow>
          Inr (Some [\<lparr> nt_value = amount, nt_pk = ne_zk_public_key env (le_nat bedrock_account_pk) \<rparr>])
      | Some (Bridge_Deposit _ _ _ _) \<Rightarrow>
          Inl (SeqPanic ''Deposit instructions from users should never pass validation''))"

definition withdraw_event_reconciliation_key :: "withdraw_arg \<Rightarrow> (sequencer_error, withdrawal_reconciliation_key) result" where
  "withdraw_event_reconciliation_key outputs =
     (case outputs of
        [n] \<Rightarrow>
          let pk = big_bytes_le (nt_pk n)
          in if length pk > 32 then Inl (SeqOther ''Withdraw recipient public key is too large'')
             else Inr \<lparr> wk_amount = nt_value n, wk_bedrock_account_pk = pk @ replicate (32 - length pk) 0 \<rparr>
      | _ \<Rightarrow> Inl (SeqOther ''Unsupported withdraw output count for reconciliation''))"

definition build_bridge_deposit_tx_from_event :: "node_env \<Rightarrow> pending_deposit_event_record \<Rightarrow> (sequencer_error, lee_transaction) result" where
  "build_bridge_deposit_tx_from_event env event =
     expect (from_slice (de_array 32) (pd_metadata event))
       (SeqOther ''Failed to decode finalized Bedrock deposit metadata'') (\<lambda>recipient_id.
     let bi = ne_builtins env; H = rt_hash (ne_runtime env);
         vault_program_id = prog_id (bi_vault bi);
         recipient_vault_id = compute_vault_account_id H vault_program_id recipient_id
     in Inr (TxPublic \<lparr> pt_message = \<lparr> pm_program_id = prog_id (bi_bridge bi),
               pm_account_ids = [system_bridge_account_id H bi, recipient_vault_id], pm_nonces = [],
               pm_instruction_data = ne_encode_bridge env
                 (Bridge_Deposit (pd_deposit_op_id event) vault_program_id recipient_id (pd_amount event)) \<rparr>,
             pt_witness_set = [] \<rparr>))"

section \<open>Building a block\<close>

record built =
  bl_valid_transactions :: "lee_transaction list"
  bl_deposit_event_ids :: "bytes list"
  bl_withdrawals :: "withdraw_arg list"

text \<open>One transaction: skipped, included with the new state, or the whole block fails.\<close>

definition include_transaction :: "node_env \<Rightarrow> u64 \<Rightarrow> u64 \<Rightarrow> transaction_origin \<Rightarrow> lee_transaction \<Rightarrow> v03_state \<Rightarrow> built
    \<Rightarrow> (sequencer_error, (v03_state \<times> built) option) result" where
  "include_transaction env block_id timestamp origin t s acc =
     (let rt = ne_runtime env in
      case origin of
        User \<Rightarrow>
          (case validate_on_state rt (ne_builtins env) t s block_id timestamp of
             Inl _ \<Rightarrow> Inr None
           | Inr diff \<Rightarrow>
               rbind (extract_bridge_withdraw_data env t) (\<lambda>w.
               expect (apply_state_diff (rt_hash rt) diff s) (SeqPanic ''apply_state_diff'') (\<lambda>s'.
               Inr (Some (s', acc\<lparr> bl_withdrawals := bl_withdrawals acc @ (case w of None \<Rightarrow> [] | Some a \<Rightarrow> [a]) \<rparr>)))))
      | FromSequencer \<Rightarrow>
          (case t of
             TxPublic public_tx \<Rightarrow>
               let acc = acc\<lparr> bl_deposit_event_ids := bl_deposit_event_ids acc
                     @ (case extract_bridge_deposit_id env t of None \<Rightarrow> [] | Some i \<Rightarrow> [i]) \<rparr>
               in rbind (map_err (SeqExecution ''Failed to execute sequencer-generated transaction'')
                    (transition_from_public_transaction rt public_tx s block_id timestamp)) (\<lambda>m.
                  expect m (SeqPanic ''apply_state_diff'') (\<lambda>s'. Inr (Some (s', acc))))
           | _ \<Rightarrow> Inl (SeqPanic ''Sequencer may only generate Public transactions'')))"

definition block_size :: "node_env \<Rightarrow> u64 \<Rightarrow> bytes \<Rightarrow> u64 \<Rightarrow> lee_transaction list \<Rightarrow> nat" where
  "block_size env block_id prev_block_hash timestamp txs =
     length (ne_block_bytes env \<lparr> hb_block_id = block_id, hb_prev_block_hash = prev_block_hash,
       hb_timestamp = timestamp, hb_transactions = txs \<rparr>)"

function build_loop :: "node_env \<Rightarrow> u64 \<Rightarrow> bytes \<Rightarrow> u64 \<Rightarrow> lee_transaction \<Rightarrow> sequencer \<Rightarrow> built
    \<Rightarrow> sequencer \<times> (sequencer_error, built) result" where
  "build_loop env block_id prev_block_hash timestamp clock_tx sq acc =
     (case mempool_pop (sq_mempool sq) of
        None \<Rightarrow> (sq, Inr acc)
      | Some ((origin, t), mp) \<Rightarrow>
          if block_size env block_id prev_block_hash timestamp (bl_valid_transactions acc @ [t] @ [clock_tx]) > ne_max_block_size env
          then (sq\<lparr> sq_mempool := mempool_push_front (origin, t) mp \<rparr>, Inr acc)
          else (case include_transaction env block_id timestamp origin t (sq_state sq) acc of
                  Inl e \<Rightarrow> (sq\<lparr> sq_mempool := mp \<rparr>, Inl e)
                | Inr None \<Rightarrow> build_loop env block_id prev_block_hash timestamp clock_tx (sq\<lparr> sq_mempool := mp \<rparr>) acc
                | Inr (Some (s', acc)) \<Rightarrow>
                    let acc = acc\<lparr> bl_valid_transactions := bl_valid_transactions acc @ [t] \<rparr>;
                        sq = sq\<lparr> sq_mempool := mp, sq_state := s' \<rparr>
                    in if length (bl_valid_transactions acc) \<ge> ne_max_num_tx_in_block env then (sq, Inr acc)
                       else build_loop env block_id prev_block_hash timestamp clock_tx sq acc))"
  by pat_completeness auto

termination
  by (relation "measure (\<lambda>(env, b, h, ts, c, sq, acc). length (mempool_contents (sq_mempool sq)))")
    (auto dest: pool.pop_shrinks)

declare build_loop.simps [simp del]

record block_with_meta =
  bw_block :: block
  bw_deposit_event_ids :: "bytes list"
  bw_withdrawals :: "withdraw_arg list"

definition node_clock_tx :: "node_env \<Rightarrow> u64 \<Rightarrow> public_transaction" where
  "node_clock_tx env timestamp = clock_invocation (ne_builtins env) (ne_encode_clock env) timestamp"

definition build_block_from_mempool :: "node_env \<Rightarrow> u64 \<Rightarrow> sequencer \<Rightarrow> sequencer \<times> (sequencer_error, block_with_meta) result" where
  "build_block_from_mempool env timestamp sq =
     (case checked_add (sq_chain_height sq) 1 of
        None \<Rightarrow> (sq, Inl (SeqPanic ''Max block height reached''))
      | Some new_block_height \<Rightarrow>
     (case latest_block_meta (sq_db sq) of
        Inl e \<Rightarrow> (sq, Inl (SeqDb e))
      | Inr meta \<Rightarrow>
          (let clock_tx = node_clock_tx env timestamp in
           case build_loop env new_block_height (bm_hash meta) timestamp (TxPublic clock_tx) sq
                  \<lparr> bl_valid_transactions = [], bl_deposit_event_ids = [], bl_withdrawals = [] \<rparr> of
             (sq, Inl e) \<Rightarrow> (sq, Inl e)
           | (sq, Inr acc) \<Rightarrow>
               (case transition_from_public_transaction (ne_runtime env) clock_tx (sq_state sq) new_block_height timestamp of
                  Inl e \<Rightarrow> (sq, Inl (SeqExecution ''Clock transaction failed. Aborting block production.'' e))
                | Inr None \<Rightarrow> (sq, Inl (SeqPanic ''apply_state_diff''))
                | Inr (Some s') \<Rightarrow>
                    (sq\<lparr> sq_state := s', sq_chain_height := new_block_height \<rparr>,
                     Inr \<lparr> bw_block = into_pending_block (rt_hash (ne_runtime env)) (ne_block_bytes env) (ne_sign env)
                             \<lparr> hb_block_id = new_block_height, hb_prev_block_hash = bm_hash meta, hb_timestamp = timestamp,
                               hb_transactions = bl_valid_transactions acc @ [TxPublic clock_tx] \<rparr>,
                           bw_deposit_event_ids = bl_deposit_event_ids acc, bw_withdrawals = bl_withdrawals acc \<rparr>)))))"

definition block_to_transactions_map :: "node_env \<Rightarrow> block \<Rightarrow> bytes \<Rightarrow> u64 option" where
  "block_to_transactions_map env b = map_of (rev (map (\<lambda>t. (lee_hash env t, bh_block_id (bk_header b))) (bk_transactions b)))"

definition store_update :: "node_env \<Rightarrow> block \<Rightarrow> bytes list \<Rightarrow> withdrawal_reconciliation_key list \<Rightarrow> sequencer
    \<Rightarrow> sequencer \<times> (sequencer_error, unit) result" where
  "store_update env b deposit_event_ids withdrawals sq =
     (case atomic_update b deposit_event_ids withdrawals (sq_state sq) (sq_db sq) of
        Inl e \<Rightarrow> (sq, Inl (SeqDb e))
      | Inr db \<Rightarrow> (sq\<lparr> sq_db := db, sq_tx_hash_to_block := sq_tx_hash_to_block sq ++ block_to_transactions_map env b \<rparr>, Inr ()))"

text \<open>\<open>collect\<close> into a \<open>Result\<close>.\<close>

fun map_res :: "('a \<Rightarrow> ('e, 'b) result) \<Rightarrow> 'a list \<Rightarrow> ('e, 'b list) result" where
  "map_res f [] = Inr []"
| "map_res f (x # xs) = rbind (f x) (\<lambda>y. rbind (map_res f xs) (\<lambda>ys. Inr (y # ys)))"

text \<open>\<open>published\<close> is the answer of the publisher.\<close>

definition produce_new_block :: "node_env \<Rightarrow> u64 \<Rightarrow> (block \<Rightarrow> withdraw_arg list \<Rightarrow> bool) \<Rightarrow> sequencer
    \<Rightarrow> sequencer \<times> (sequencer_error, u64) result" where
  "produce_new_block env timestamp published sq =
     (case build_block_from_mempool env timestamp sq of
        (sq, Inl e) \<Rightarrow> (sq, Inl e)
      | (sq, Inr bw) \<Rightarrow>
          (case map_res withdraw_event_reconciliation_key (bw_withdrawals bw) of
             Inl e \<Rightarrow> (sq, Inl e)
           | Inr keys \<Rightarrow>
               if \<not> published (bw_block bw) (bw_withdrawals bw) then (sq, Inl (SeqOther ''Failed to publish block to Bedrock''))
               else (case store_update env (bw_block bw) (bw_deposit_event_ids bw) keys sq of
                       (sq, Inl e) \<Rightarrow> (sq, Inl e)
                     | (sq, Inr _) \<Rightarrow> (sq, Inr (sq_chain_height sq)))))"

section \<open>Events of the other chain\<close>

record deposit_info =
  di_op_id :: bytes
  di_tx_hash :: bytes
  di_amount :: u64
  di_metadata :: bytes

definition pending_deposit_event_record_of :: "deposit_info \<Rightarrow> pending_deposit_event_record" where
  "pending_deposit_event_record_of d = \<lparr> pd_deposit_op_id = di_op_id d, pd_source_tx_hash = di_tx_hash d, pd_amount = di_amount d,
     pd_metadata = di_metadata d, pd_submitted_in_block_id = None \<rparr>"

text \<open>
  The handler of a deposit returns, besides the new state, the transaction it still has to send
  when the pool is full.
\<close>

definition on_deposit_event :: "node_env \<Rightarrow> deposit_info \<Rightarrow> sequencer \<Rightarrow> sequencer \<times> lee_transaction option" where
  "on_deposit_event env deposit sq =
     (let event_record = pending_deposit_event_record_of deposit in
      case add_pending_deposit_event event_record (sq_db sq) of
        (False, _) \<Rightarrow> (sq, None)
      | (True, db) \<Rightarrow>
          (let sq = sq\<lparr> sq_db := db \<rparr> in
           case build_bridge_deposit_tx_from_event env event_record of
             Inl _ \<Rightarrow> (sq, None)
           | Inr t \<Rightarrow>
               (case mempool_push (FromSequencer, t) (sq_mempool sq) of
                  None \<Rightarrow> (sq, Some t)
                | Some mp \<Rightarrow> (sq\<lparr> sq_mempool := mp \<rparr>, None))))"

definition on_withdraw_event :: "withdraw_arg \<Rightarrow> sequencer \<Rightarrow> sequencer" where
  "on_withdraw_event outputs sq =
     (case withdraw_event_reconciliation_key outputs of
        Inl _ \<Rightarrow> sq
      | Inr key \<Rightarrow> sq\<lparr> sq_db := snd (consume_unseen_withdraw_count key (sq_db sq)) \<rparr>)"

definition on_finalized_block :: "u64 list \<Rightarrow> u64 \<Rightarrow> sequencer \<Rightarrow> sequencer" where
  "on_finalized_block keys block_id sq =
     (let db = fst (clean_pending_blocks_up_to keys block_id (sq_db sq))
      in sq\<lparr> sq_db := snd (remove_fulfilled_pending_deposit_events_up_to_block block_id db) \<rparr>)"

definition on_checkpoint :: "bytes \<Rightarrow> sequencer \<Rightarrow> sequencer" where
  "on_checkpoint bs sq = sq\<lparr> sq_db := (sq_db sq)\<lparr> db_checkpoint := Some bs \<rparr> \<rparr>"

text \<open>At a start, the deposits that no block contains yet are sent to the pool again.\<close>

definition replay_unfulfilled_deposit_events :: "node_env \<Rightarrow> sequencer_db \<Rightarrow> (transaction_origin \<times> lee_transaction) list" where
  "replay_unfulfilled_deposit_events env db =
     List.map_filter (\<lambda>r. case build_bridge_deposit_tx_from_event env r of Inl _ \<Rightarrow> None | Inr t \<Rightarrow> Some (FromSequencer, t))
       (filter (\<lambda>r. pd_submitted_in_block_id r = None) (get_pending_deposit_events db))"

section \<open>Genesis\<close>

datatype genesis_action = SupplyAccount account_id u128 | SupplyBridgeAccount u128

definition build_supply_account_genesis_transaction :: "node_env \<Rightarrow> account_id \<Rightarrow> u128 \<Rightarrow> public_transaction" where
  "build_supply_account_genesis_transaction env i amount =
     (let bi = ne_builtins env; H = rt_hash (ne_runtime env); vault_program_id = prog_id (bi_vault bi) in
      \<lparr> pt_message = \<lparr> pm_program_id = prog_id (bi_faucet bi),
          pm_account_ids = [system_faucet_account_id H bi, compute_vault_account_id H vault_program_id i], pm_nonces = [],
          pm_instruction_data = ne_encode_faucet env (GenesisTransferVault vault_program_id i amount) \<rparr>,
        pt_witness_set = [] \<rparr>)"

definition build_supply_bridge_account_genesis_transaction :: "node_env \<Rightarrow> u128 \<Rightarrow> public_transaction" where
  "build_supply_bridge_account_genesis_transaction env amount =
     (let bi = ne_builtins env; H = rt_hash (ne_runtime env) in
      \<lparr> pt_message = \<lparr> pm_program_id = prog_id (bi_faucet bi),
          pm_account_ids = [system_faucet_account_id H bi, system_bridge_account_id H bi], pm_nonces = [],
          pm_instruction_data = ne_encode_faucet env (GenesisTransferDirect amount) \<rparr>,
        pt_witness_set = [] \<rparr>)"

definition genesis_transactions :: "node_env \<Rightarrow> genesis_action list \<Rightarrow> public_transaction list" where
  "genesis_transactions env actions =
     map (\<lambda>a. case a of
                SupplyAccount i amount \<Rightarrow> build_supply_account_genesis_transaction env i amount
              | SupplyBridgeAccount amount \<Rightarrow> build_supply_bridge_account_genesis_transaction env amount) actions
     @ [node_clock_tx env 0]"

definition run_genesis :: "node_env \<Rightarrow> public_transaction \<Rightarrow> v03_state \<Rightarrow> (sequencer_error, v03_state) result" where
  "run_genesis env t s =
     rbind (map_err (\<lambda>_. SeqPanic ''Failed to execute genesis transaction'')
       (transition_from_public_transaction (ne_runtime env) t s GENESIS_BLOCK_ID 0)) (\<lambda>m.
     expect m (SeqPanic ''apply_state_diff'') Inr)"

definition build_genesis_state :: "node_env \<Rightarrow> v03_state \<Rightarrow> genesis_action list \<Rightarrow> (sequencer_error, v03_state \<times> lee_transaction list) result" where
  "build_genesis_state env initial_state actions =
     (let txs = genesis_transactions env actions in
      rbind (fold_res (run_genesis env) txs initial_state) (\<lambda>s. Inr (s, map TxPublic txs)))"

text \<open>A start without a database; the pool is empty.\<close>

definition fresh_start :: "node_env \<Rightarrow> v03_state \<Rightarrow> genesis_action list \<Rightarrow> nat \<Rightarrow> (sequencer_error, sequencer) result" where
  "fresh_start env initial_state actions mempool_max_size =
     rbind (build_genesis_state env initial_state actions) (\<lambda>(genesis_state, genesis_txs).
     let genesis_block = into_pending_block (rt_hash (ne_runtime env)) (ne_block_bytes env) (ne_sign env)
           \<lparr> hb_block_id = GENESIS_BLOCK_ID, hb_prev_block_hash = replicate 32 0, hb_timestamp = 0, hb_transactions = genesis_txs \<rparr>
     in rbind (map_err SeqDb (db_create genesis_block genesis_state empty_db)) (\<lambda>db.
        rbind (map_err SeqDb (latest_block_meta db)) (\<lambda>meta.
        Inr \<lparr> sq_state = genesis_state, sq_db = db, sq_tx_hash_to_block = block_to_transactions_map env genesis_block,
              sq_mempool = mempool_new mempool_max_size, sq_chain_height = bm_id meta \<rparr>)))"

text \<open>A start on an existing database; every block up to the latest is read into the cache of transactions.\<close>

definition cache_block :: "node_env \<Rightarrow> sequencer_db \<Rightarrow> u64 \<Rightarrow> (bytes \<Rightarrow> u64 option) \<Rightarrow> (sequencer_error, bytes \<Rightarrow> u64 option) result" where
  "cache_block env db i m =
     expect (db_blocks db i) (SeqPanic ''Block should be present in the database'') (\<lambda>b.
     Inr (m ++ block_to_transactions_map env b))"

definition open_db :: "node_env \<Rightarrow> sequencer_db \<Rightarrow> (sequencer_error, bytes \<Rightarrow> u64 option) result" where
  "open_db env db =
     rbind (map_err SeqDb (get_cell ''first_block_in_db'' (db_first_block db))) (\<lambda>genesis_id.
     rbind (map_err SeqDb (latest_block_meta db)) (\<lambda>meta.
     fold_res (cache_block env db) (id_range genesis_id (bm_id meta)) Map.empty))"

definition start_existing :: "node_env \<Rightarrow> sequencer_db \<Rightarrow> nat \<Rightarrow> (sequencer_error, sequencer) result" where
  "start_existing env db mempool_max_size =
     rbind (map_err (\<lambda>e. case e of SeqDb _ \<Rightarrow> SeqPanic ''Failed to open database'' | _ \<Rightarrow> e) (open_db env db)) (\<lambda>tx_map.
     expect (db_lee_state db) (SeqPanic ''Failed to read state from store'') (\<lambda>state.
     expect (Option.bind (db_first_block db) (db_blocks db)) (SeqPanic ''Genesis block not found in store'') (\<lambda>_.
     rbind (map_err (\<lambda>_. SeqPanic ''Failed to read latest block meta from store'') (latest_block_meta db)) (\<lambda>meta.
     Inr \<lparr> sq_state = state, sq_db = db, sq_tx_hash_to_block = tx_map, sq_mempool = mempool_new mempool_max_size,
           sq_chain_height = bm_id meta \<rparr>))))"

definition store_get_transaction_by_hash :: "node_env \<Rightarrow> bytes \<Rightarrow> sequencer \<Rightarrow> (sequencer_error, lee_transaction option) result" where
  "store_get_transaction_by_hash env hash sq =
     (case sq_tx_hash_to_block sq hash of
        None \<Rightarrow> Inr None
      | Some block_id \<Rightarrow>
          expect (db_blocks (sq_db sq) block_id) (SeqPanic ''Block should be present since the hash is in the map'') (\<lambda>b.
          expect (List.find (\<lambda>t. lee_hash env t = hash) (bk_transactions b))
            (SeqPanic ''Transaction hash was in the map but transaction was not found in the block'') (\<lambda>t. Inr (Some t))))"

definition get_pending_blocks :: "u64 list \<Rightarrow> sequencer_db \<Rightarrow> block list" where
  "get_pending_blocks keys db = filter (\<lambda>b. bk_bedrock_status b = Pending) (List.map_filter (db_blocks db) keys)"

section \<open>The chain\<close>

text \<open>
  What holds between blocks: the database has the latest block of the chain at the height of the
  sequencer, and the state of the sequencer.
\<close>

definition synced :: "sequencer \<Rightarrow> bool" where
  "synced sq \<longleftrightarrow> (\<exists>h. db_latest_block_meta (sq_db sq) = Some \<lparr> bm_id = sq_chain_height sq, bm_hash = h \<rparr>)
     \<and> db_last_block (sq_db sq) = Some (sq_chain_height sq) \<and> db_lee_state (sq_db sq) = Some (sq_state sq)"

lemma fresh_start_synced:
  assumes "fresh_start env s actions n = Inr sq"
  shows "synced sq" "sq_chain_height sq = GENESIS_BLOCK_ID"
  using assms
  by (auto simp: fresh_start_def db_create_def put_block_def latest_block_meta_def get_cell_def synced_def empty_db_def
      res_simps Let_def)

lemma events_keep_synced:
  "synced sq \<Longrightarrow> synced (fst (on_deposit_event env d sq))"
  "synced sq \<Longrightarrow> synced (on_withdraw_event w sq)"
  "synced sq \<Longrightarrow> synced (on_checkpoint c sq)"
  by (auto simp: synced_def on_deposit_event_def add_pending_deposit_event_def on_withdraw_event_def on_checkpoint_def
      consume_unseen_withdraw_count_def Let_def split: prod.splits sum.splits option.splits if_splits)

section \<open>Liveness\<close>

text \<open>Blocks one after the other, on a publisher that accepts them.\<close>

fun produce_blocks :: "node_env \<Rightarrow> u64 list \<Rightarrow> sequencer \<Rightarrow> (sequencer_error, sequencer) result" where
  "produce_blocks env [] sq = Inr sq"
| "produce_blocks env (ts # tss) sq =
     (case produce_new_block env ts (\<lambda>_ _. True) sq of (sq, Inl e) \<Rightarrow> Inl e | (sq, Inr _) \<Rightarrow> produce_blocks env tss sq)"

definition idle :: "node_env \<Rightarrow> u64 \<Rightarrow> sequencer \<Rightarrow> bool" where
  "idle env c sq \<longleftrightarrow> synced sq \<and> mempool_contents (sq_mempool sq) = []
     \<and> (\<exists>ts. clock_ready (ne_builtins env) \<lparr> cad_block_id = c, cad_timestamp = ts \<rparr> (sq_state sq))"

abbreviation node_runs_clock :: "node_env \<Rightarrow> bool" where
  "node_runs_clock env \<equiv> runs_clock (ne_runtime env) (ne_builtins env) (ne_encode_clock env)"

text \<open>What an empty block needs; \<open>l\<close> is the last block of the database.\<close>

definition can_build :: "node_env \<Rightarrow> u64 \<Rightarrow> u64 \<Rightarrow> sequencer \<Rightarrow> bool" where
  "can_build env c l sq \<longleftrightarrow> mempool_contents (sq_mempool sq) = [] \<and> db_latest_block_meta (sq_db sq) \<noteq> None
     \<and> db_last_block (sq_db sq) = Some l \<and> l \<le> sq_chain_height sq
     \<and> (\<exists>ts. clock_ready (ne_builtins env) \<lparr> cad_block_id = c, cad_timestamp = ts \<rparr> (sq_state sq))"

lemma idle_can_build: "idle env c sq \<Longrightarrow> can_build env c (sq_chain_height sq) sq"
  by (auto simp: idle_def can_build_def synced_def)

lemma build_empty:
  assumes "can_build env c l sq" "node_runs_clock env" "unat c + 1 < 2 ^ 64" "unat (sq_chain_height sq) + 1 < 2 ^ 64"
  obtains s' bw where "build_block_from_mempool env ts sq = (sq\<lparr> sq_state := s', sq_chain_height := sq_chain_height sq + 1 \<rparr>, Inr bw)"
    "clock_ready (ne_builtins env) \<lparr> cad_block_id = c + 1, cad_timestamp = ts \<rparr> s'" "bw_withdrawals bw = []"
    "bh_block_id (bk_header (bw_block bw)) = sq_chain_height sq + 1"
proof -
  from assms(1) obtain t0 where ready: "clock_ready (ne_builtins env) \<lparr> cad_block_id = c, cad_timestamp = t0 \<rparr> (sq_state sq)"
    by (auto simp: can_build_def)
  obtain s' where s': "transition_from_public_transaction (ne_runtime env) (node_clock_tx env ts) (sq_state sq) (sq_chain_height sq + 1) ts = Inr (Some s')"
    "clock_ready (ne_builtins env) \<lparr> cad_block_id = c + 1, cad_timestamp = ts \<rparr> s'"
    unfolding node_clock_tx_def by (rule clock_tick [OF ready assms(2)]) (use assms(3) in simp_all)
  have "mempool_pop (sq_mempool sq) = None" using assms(1) by (simp add: pool.pop_None can_build_def)
  moreover obtain m where "latest_block_meta (sq_db sq) = Inr m"
    using assms(1) by (auto simp: can_build_def latest_block_meta_def get_cell_def)
  moreover have "checked_add (sq_chain_height sq) 1 = Some (sq_chain_height sq + 1)" using assms(4) by (simp add: checked_add_def)
  ultimately obtain bw where "build_block_from_mempool env ts sq = (sq\<lparr> sq_state := s', sq_chain_height := sq_chain_height sq + 1 \<rparr>, Inr bw)"
    "bw_withdrawals bw = []" "bh_block_id (bk_header (bw_block bw)) = sq_chain_height sq + 1"
    using s'(1) by (simp add: build_block_from_mempool_def build_loop.simps Let_def)
  with s'(2) that show thesis by blast
qed

lemma store_update_synced:
  assumes "db_last_block (sq_db sq) = Some l" "l < bh_block_id (bk_header b)" "sq_chain_height sq = bh_block_id (bk_header b)"
  obtains sq' where "store_update env b ids [] sq = (sq', Inr ())" "synced sq'" "sq_state sq' = sq_state sq"
    "sq_mempool sq' = sq_mempool sq" "sq_chain_height sq' = sq_chain_height sq"
proof -
  obtain db' where db': "atomic_update b ids [] (sq_state sq) (sq_db sq) = Inr db'"
    using assms(1) by (simp add: atomic_update_def put_block_def get_meta_last_block_in_db_def get_cell_def Let_def)
  note eff = atomic_update_effect [OF db']
  from that [of "sq\<lparr> sq_db := db', sq_tx_hash_to_block := sq_tx_hash_to_block sq ++ block_to_transactions_map env b \<rparr>"] show thesis
    using db' eff(1,5) assms by (auto simp: store_update_def synced_def)
qed

lemma produce_empty:
  assumes "can_build env c l sq" "node_runs_clock env" "unat c + 1 < 2 ^ 64" "unat (sq_chain_height sq) + 1 < 2 ^ 64"
  obtains sq' where "produce_new_block env ts (\<lambda>_ _. True) sq = (sq', Inr (sq_chain_height sq + 1))" "idle env (c + 1) sq'"
    "sq_chain_height sq' = sq_chain_height sq + 1"
proof (rule build_empty [OF assms])
  fix s' bw
  assume b: "build_block_from_mempool env ts sq = (sq\<lparr> sq_state := s', sq_chain_height := sq_chain_height sq + 1 \<rparr>, Inr bw)"
    "clock_ready (ne_builtins env) \<lparr> cad_block_id = c + 1, cad_timestamp = ts \<rparr> s'" "bw_withdrawals bw = []"
    "bh_block_id (bk_header (bw_block bw)) = sq_chain_height sq + 1"
  let ?sq = "sq\<lparr> sq_state := s', sq_chain_height := sq_chain_height sq + 1 \<rparr>"
  have "db_last_block (sq_db ?sq) = Some l" using assms(1) by (simp add: can_build_def)
  moreover have "l < bh_block_id (bk_header (bw_block bw))"
    using assms(1,4) by (simp add: can_build_def b(4) word_less_nat_alt word_le_nat_alt unat_word_ariths)
  ultimately obtain sq' where sq': "store_update env (bw_block bw) (bw_deposit_event_ids bw) [] ?sq = (sq', Inr ())" "synced sq'"
    "sq_state sq' = s'" "sq_mempool sq' = sq_mempool sq" "sq_chain_height sq' = sq_chain_height sq + 1"
    by (rule store_update_synced) (use b(4) in \<open>simp_all\<close>)
  show thesis
    by (rule that [of sq']) (use b sq' assms(1) in \<open>auto simp: produce_new_block_def idle_def can_build_def\<close>)
qed

text \<open>A block that could not be published leaves the new state and height behind.\<close>

lemma produce_unpublished:
  assumes "can_build env c l sq" "node_runs_clock env" "unat c + 1 < 2 ^ 64" "unat (sq_chain_height sq) + 1 < 2 ^ 64"
  obtains sq' where "produce_new_block env ts (\<lambda>_ _. False) sq = (sq', Inl (SeqOther ''Failed to publish block to Bedrock''))"
    "can_build env (c + 1) l sq'" "sq_chain_height sq' = sq_chain_height sq + 1"
proof (rule build_empty [OF assms])
  fix s' bw
  assume b: "build_block_from_mempool env ts sq = (sq\<lparr> sq_state := s', sq_chain_height := sq_chain_height sq + 1 \<rparr>, Inr bw)"
    "clock_ready (ne_builtins env) \<lparr> cad_block_id = c + 1, cad_timestamp = ts \<rparr> s'" "bw_withdrawals bw = []"
  have "l \<le> sq_chain_height sq + 1"
    using assms(1,4) by (simp add: can_build_def word_le_nat_alt unat_word_ariths)
  then show thesis
    by (intro that [of "sq\<lparr> sq_state := s', sq_chain_height := sq_chain_height sq + 1 \<rparr>"])
      (use b assms(1) in \<open>auto simp: produce_new_block_def can_build_def\<close>)
qed

text \<open>
  C20: an idle node does not stall.  A sequencer that agrees with its database, with an empty pool and
  intact clock accounts, produces any number of blocks: none of the checks of the clock invocation,
  of the program output or of the database fails, until a counter reaches its maximum.
\<close>

theorem idle_node_live:
  assumes "idle env c sq" "node_runs_clock env" "unat c + length tss < 2 ^ 64" "unat (sq_chain_height sq) + length tss < 2 ^ 64"
  shows "\<exists>sq'. produce_blocks env tss sq = Inr sq' \<and> idle env (c + of_nat (length tss)) sq'
    \<and> unat (sq_chain_height sq') = unat (sq_chain_height sq) + length tss"
  using assms(1,3,4)
proof (induction tss arbitrary: sq c)
  case (Cons ts tss)
  from Cons.prems(2,3) have b: "unat c + 1 < 2 ^ 64" "unat (sq_chain_height sq) + 1 < 2 ^ 64" by simp_all
  show ?case
  proof (rule produce_empty [OF idle_can_build [OF Cons.prems(1)] assms(2) b, of ts])
    fix sq1
    assume p: "produce_new_block env ts (\<lambda>_ _. True) sq = (sq1, Inr (sq_chain_height sq + 1))" "idle env (c + 1) sq1"
      "sq_chain_height sq1 = sq_chain_height sq + 1"
    have u: "unat (c + 1) = unat c + 1" "unat (sq_chain_height sq1) = unat (sq_chain_height sq) + 1"
      using b by (simp_all add: p(3) unat_word_ariths)
    from Cons.IH [OF p(2)] Cons.prems(2,3) show ?thesis by (simp add: p(1) u add.assoc)
  qed
qed (simp add: assms)

text \<open>A start on a state with intact clock accounts.\<close>

lemma fresh_start_idle:
  assumes "clock_ready (ne_builtins env) \<lparr> cad_block_id = c, cad_timestamp = t \<rparr> s" "node_runs_clock env" "unat c + 1 < 2 ^ 64"
  obtains sq where "fresh_start env s [] m = Inr sq" "idle env (c + 1) sq" "sq_chain_height sq = GENESIS_BLOCK_ID"
proof -
  obtain s' where s': "transition_from_public_transaction (ne_runtime env) (node_clock_tx env 0) s GENESIS_BLOCK_ID 0 = Inr (Some s')"
    "clock_ready (ne_builtins env) \<lparr> cad_block_id = c + 1, cad_timestamp = 0 \<rparr> s'"
    unfolding node_clock_tx_def by (rule clock_tick [OF assms(1,2)]) (use assms(3) in simp_all)
  obtain sq where sq: "fresh_start env s [] m = Inr sq" "sq_state sq = s'" "sq_mempool sq = mempool_new m"
    using s'(1) by (simp add: fresh_start_def build_genesis_state_def genesis_transactions_def run_genesis_def db_create_def put_block_def
        empty_db_def latest_block_meta_def get_cell_def Let_def)
  from fresh_start_synced [OF sq(1)] show thesis
    by (intro that [OF sq(1)]) (use s'(2) sq in \<open>auto simp: idle_def mempool_new_def mempool_contents_def\<close>)
qed

section \<open>A small node\<close>

definition toy_program :: "u32 \<Rightarrow> program" where
  "toy_program n = \<lparr> prog_id = [n], prog_elf = [] \<rparr>"

definition toy_builtins :: builtins where
  "toy_builtins = \<lparr> bi_authenticated_transfer = toy_program 1, bi_token = toy_program 2, bi_amm = toy_program 3,
     bi_ata = toy_program 4, bi_clock = toy_program 5, bi_vault = toy_program 6, bi_faucet = toy_program 7,
     bi_bridge = toy_program 8, bi_pinata = toy_program 9, bi_pinata_token = toy_program 10 \<rparr>"

definition toy_encode_clock :: "u64 \<Rightarrow> instruction_data" where
  "toy_encode_clock ts = map ucast (to_le_bytes ts)"

definition toy_decode_clock :: "instruction_data \<Rightarrow> u64 option" where
  "toy_decode_clock ws = Some (from_le_bytes (map ucast ws))"

definition toy_runtime :: runtime where
  "toy_runtime = install [5] (clock_main toy_decode_clock)
     \<lparr> rt_hash = (\<lambda>_. [0]), rt_execute = (\<lambda>_ _ _ _. Inl (ProgramExecutionFailed [])),
       rt_signature_valid = (\<lambda>_ _ _. True), rt_public_bytes = (\<lambda>_. []), rt_privacy_bytes = (\<lambda>_. []),
       rt_image_id = (\<lambda>_. None), rt_proof_valid = (\<lambda>_ _. False),
       rt_prove_program = (\<lambda>_ _ _ _. Inl (ProgramProveFailed [])), rt_prove_circuit = (\<lambda>_. Inl (CircuitProvingError [])) \<rparr>"

definition toy_env :: node_env where
  "toy_env = \<lparr> ne_runtime = toy_runtime, ne_builtins = toy_builtins, ne_block_bytes = (\<lambda>_. []), ne_transaction_bytes = (\<lambda>_. []),
     ne_sign = (\<lambda>_. []), ne_encode_clock = toy_encode_clock, ne_encode_bridge = (\<lambda>_. []), ne_decode_bridge = (\<lambda>_. None),
     ne_encode_faucet = (\<lambda>_. []), ne_zk_public_key = (\<lambda>n. n), ne_max_block_size = 1000, ne_max_num_tx_in_block = 10 \<rparr>"

definition toy_state :: v03_state where
  "toy_state = insert_program (bi_clock toy_builtins) (insert_clock_accounts toy_builtins 0
     \<lparr> public_state = fmempty,
       commitment_state = \<lparr> cs_tree = \<lparr> nodes = [[0]], capacity = 1, mt_length = 0 \<rparr>, cs_commitments = fmempty, cs_root_history = {||} \<rparr>,
       nullifier_state = {||}, programs = fmempty \<rparr>)"

lemma toy_clock_ready: "clock_ready toy_builtins \<lparr> cad_block_id = 0, cad_timestamp = 0 \<rparr> toy_state"
proof -
  have "trailing_zeros (next_power_of_two 0) = 0" by code_simp
  then have "cs_digest (commitment_state toy_state) \<noteq> None"
    by (simp add: toy_state_def insert_program_def insert_clock_accounts_def cs_digest_def root_def root_index_def get_node_def depth_def Let_def)
  moreover have "[5] \<noteq> DEFAULT_PROGRAM_ID" by (simp add: DEFAULT_PROGRAM_ID_def numeral_eq_Suc)
  ultimately show ?thesis
    by (simp add: clock_ready_def toy_state_def insert_program_def insert_clock_accounts_def get_account_by_id_def
        CLOCK_PROGRAM_ACCOUNT_IDS_def toy_builtins_def toy_program_def Let_def)
qed

lemma toy_runs_clock: "node_runs_clock toy_env"
proof -
  have "map (ucast :: u32 \<Rightarrow> u8) (map ucast (bs :: bytes)) = bs" for bs
    by (simp add: o_def) (auto intro!: map_idI bit_word_eqI simp: bit_simps)
  then have "toy_decode_clock (toy_encode_clock ts) = Some ts" for ts
    by (simp add: toy_decode_clock_def toy_encode_clock_def)
  then show ?thesis
    by (auto simp: runs_clock_def toy_env_def toy_runtime_def install_def toy_builtins_def toy_program_def)
qed

lemma toy_start:
  obtains sq where "fresh_start toy_env toy_state [] 10 = Inr sq" "idle toy_env 1 sq" "sq_chain_height sq = 1"
proof -
  have ready: "clock_ready (ne_builtins toy_env) \<lparr> cad_block_id = 0, cad_timestamp = 0 \<rparr> toy_state"
    using toy_clock_ready by (simp add: toy_env_def)
  show thesis
    by (rule fresh_start_idle [OF ready toy_runs_clock, of 10]) (use that in \<open>simp_all add: GENESIS_BLOCK_ID_def\<close>)
qed

theorem idle_node_live_witness:
  "\<exists>sq sq'. fresh_start toy_env toy_state [] 10 = Inr sq \<and> produce_blocks toy_env [5, 9, 9] sq = Inr sq' \<and> sq_chain_height sq' = 4"
proof (rule toy_start)
  fix sq assume sq: "fresh_start toy_env toy_state [] 10 = Inr sq" "idle toy_env 1 sq" "sq_chain_height sq = 1"
  from idle_node_live [OF sq(2) toy_runs_clock, of "[5, 9, 9]"] obtain sq' where
    "produce_blocks toy_env [5, 9, 9] sq = Inr sq'" "unat (sq_chain_height sq') = 4"
    by (auto simp: sq(3))
  moreover from this(2) have "sq_chain_height sq' = 4" by (intro word_unat_eq_iff [THEN iffD2]) simp
  ultimately show ?thesis using sq(1) by blast
qed

end
