(* ===== verification/Indexer.thy ===== *)
theory Indexer
  imports Sequencer
begin

text \<open>
  The indexer (\<open>lez/indexer/core/src/block_store.rs\<close>, \<open>lez/storage/src/indexer\<close>): it applies the blocks
  of the sequencer to a state of its own, stores them, and keeps breakpoints, the states after every
  hundredth block, from which it recomputes the state after any block.  Reads and writes of the
  key-value store succeed.
\<close>

section \<open>State\<close>

definition BREAKPOINT_INTERVAL :: u64 where
  "BREAKPOINT_INTERVAL = 100"

record indexer_db =
  ix_first_block :: "u64 option"
  ix_first_block_set :: "bool option"
  ix_last_block :: "u64 option"
  ix_last_l1_header :: "bytes option"
  ix_last_breakpoint :: "u64 option"
  ix_cursor :: "bytes option"
  ix_breakpoints :: "u64 \<Rightarrow> v03_state option"
  ix_blocks :: "u64 \<Rightarrow> block option"
  ix_hash_to_id :: "bytes \<Rightarrow> u64 option"
  ix_tx_to_id :: "bytes \<Rightarrow> u64 option"
  ix_acc_num_tx :: "account_id \<Rightarrow> u64 option"
  ix_acc_to_tx :: "account_id \<times> u64 \<Rightarrow> bytes option"

definition empty_indexer_db :: indexer_db where
  "empty_indexer_db = \<lparr> ix_first_block = None, ix_first_block_set = None, ix_last_block = None, ix_last_l1_header = None,
     ix_last_breakpoint = None, ix_cursor = None, ix_breakpoints = Map.empty, ix_blocks = Map.empty,
     ix_hash_to_id = Map.empty, ix_tx_to_id = Map.empty, ix_acc_num_tx = Map.empty, ix_acc_to_tx = Map.empty \<rparr>"

record indexer =
  in_db :: indexer_db
  in_state :: v03_state

datatype indexer_error =
    IxPanic string
  | IxDb db_error
  | IxMalformed transaction_malformation_error
  | IxExecution string lee_error
  | IxOther string

section \<open>Applying a block\<close>

text \<open>One transaction of a block, before the clock.\<close>

definition apply_transaction :: "node_env \<Rightarrow> u64 \<Rightarrow> u64 \<Rightarrow> lee_transaction \<Rightarrow> v03_state \<Rightarrow> (indexer_error, v03_state) result" where
  "apply_transaction env block_id timestamp t s =
     (let rt = ne_runtime env in
      if block_id = GENESIS_BLOCK_ID
      then (case t of
              TxPublic genesis_tx \<Rightarrow>
                rbind (map_err (IxExecution ''Failed to execute genesis public transaction'')
                  (transition_from_public_transaction rt genesis_tx s block_id timestamp)) (\<lambda>m.
                expect m (IxPanic ''apply_state_diff'') Inr)
            | _ \<Rightarrow> Inl (IxOther ''Genesis block should contain only public transactions''))
      else rbind (map_err IxMalformed (transaction_stateless_check rt t)) (\<lambda>t.
           rbind (map_err (IxExecution ''transaction execution failed'')
             (execute_without_system_accounts_check_on_state rt t s block_id timestamp)) (\<lambda>m.
           expect m (IxPanic ''apply_state_diff'') Inr)))"

text \<open>The state is updated in place: what was applied before a failure stays.\<close>

fun apply_transactions :: "node_env \<Rightarrow> u64 \<Rightarrow> u64 \<Rightarrow> lee_transaction list \<Rightarrow> v03_state \<Rightarrow> v03_state \<times> (indexer_error, unit) result" where
  "apply_transactions env block_id timestamp [] s = (s, Inr ())"
| "apply_transactions env block_id timestamp (t # ts) s =
     (case apply_transaction env block_id timestamp t s of
        Inl e \<Rightarrow> (s, Inl e)
      | Inr s \<Rightarrow> apply_transactions env block_id timestamp ts s)"

definition apply_block :: "node_env \<Rightarrow> block \<Rightarrow> v03_state \<Rightarrow> v03_state \<times> (indexer_error, unit) result" where
  "apply_block env b s =
     (let txs = bk_transactions b; block_id = bh_block_id (bk_header b); timestamp = bh_timestamp (bk_header b) in
      if txs = [] then (s, Inl (IxOther ''Block has no transactions''))
      else if last txs \<noteq> TxPublic (node_clock_tx env timestamp)
      then (s, Inl (IxOther ''Last transaction in block must be the clock invocation for the block timestamp''))
      else case apply_transactions env block_id timestamp (butlast txs) s of
             (s, Inl e) \<Rightarrow> (s, Inl e)
           | (s, Inr _) \<Rightarrow>
               (case transition_from_public_transaction (ne_runtime env) (node_clock_tx env timestamp) s block_id timestamp of
                  Inl e \<Rightarrow> (s, Inl (IxExecution ''clock'' e))
                | Inr None \<Rightarrow> (s, Inl (IxPanic ''apply_state_diff''))
                | Inr (Some s) \<Rightarrow> (s, Inr ())))"

section \<open>Stored states\<close>

text \<open>\<open>multi_get\<close>, read up to the first key that is missing; blocks by their ids.\<close>

fun take_found :: "('k \<Rightarrow> 'v option) \<Rightarrow> 'k list \<Rightarrow> 'v list" where
  "take_found m [] = []"
| "take_found m (k # ks) = (case m k of None \<Rightarrow> [] | Some v \<Rightarrow> v # take_found m ks)"

definition get_block_batch_seq :: "indexer_db \<Rightarrow> u64 list \<Rightarrow> block list" where
  "get_block_batch_seq db ids = take_found (ix_blocks db) ids"

definition closest_breakpoint_id :: "u64 \<Rightarrow> u64" where
  "closest_breakpoint_id block_id = (if block_id = 0 then 0 else block_id - 1) div BREAKPOINT_INTERVAL"

text \<open>A stored block is applied by code of its own, to a state that a failure discards.\<close>

definition replay_failed :: "string \<Rightarrow> indexer_error" where
  "replay_failed msg = IxDb (DbInteractionError msg)"

definition replay_transaction :: "node_env \<Rightarrow> block_header \<Rightarrow> lee_transaction \<Rightarrow> v03_state \<Rightarrow> (indexer_error, v03_state) result" where
  "replay_transaction env header t breakpoint =
     (let rt = ne_runtime env; block_id = bh_block_id header; timestamp = bh_timestamp header;
          is_genesis = (block_id = GENESIS_BLOCK_ID)
      in if is_genesis
         then (case t of
                 TxPublic genesis_tx \<Rightarrow>
                   rbind (map_err (\<lambda>_. replay_failed ''genesis transaction execution failed'')
                     (transition_from_public_transaction rt genesis_tx breakpoint block_id timestamp)) (\<lambda>m.
                   expect m (IxPanic ''apply_state_diff'') Inr)
               | _ \<Rightarrow> Inl (replay_failed ''Genesis block should contain only public transactions''))
         else rbind (map_err (\<lambda>_. replay_failed ''transaction pre check failed'') (transaction_stateless_check rt t)) (\<lambda>t.
              rbind (map_err (\<lambda>_. replay_failed ''transaction execution failed'')
                (execute_without_system_accounts_check_on_state rt t breakpoint block_id timestamp)) (\<lambda>m.
              expect m (IxPanic ''apply_state_diff'') Inr)))"

definition replay_block :: "node_env \<Rightarrow> block \<Rightarrow> v03_state \<Rightarrow> (indexer_error, v03_state) result" where
  "replay_block env b breakpoint =
     (let header = bk_header b; txs = bk_transactions b; clock_tx = node_clock_tx env (bh_timestamp header) in
      ensure (txs \<noteq> []) (replay_failed ''Block must contain clock transaction at the end'') (
      ensure (last txs = TxPublic clock_tx)
        (replay_failed ''Last transaction in block must be the clock invocation for the block timestamp'') (
      rbind (fold_res (replay_transaction env header) (butlast txs) breakpoint) (\<lambda>breakpoint.
      rbind (map_err (\<lambda>_. replay_failed ''clock transaction execution failed'')
        (transition_from_public_transaction (ne_runtime env) clock_tx breakpoint (bh_block_id header) (bh_timestamp header))) (\<lambda>m.
      expect m (IxPanic ''apply_state_diff'') Inr)))))"

definition calculate_state_for_id :: "node_env \<Rightarrow> indexer_db \<Rightarrow> u64 \<Rightarrow> (indexer_error, v03_state) result" where
  "calculate_state_for_id env db block_id =
     (let last_block_id = (case ix_last_block db of None \<Rightarrow> 0 | Some n \<Rightarrow> n) in
      if block_id > last_block_id then Inl (IxDb (DbInteractionError ''Block on this id not found''))
      else let br_id = closest_breakpoint_id block_id in
           rbind (map_err IxDb (get_cell ''breakpoint'' (ix_breakpoints db br_id))) (\<lambda>breakpoint.
           expect (checked_mul BREAKPOINT_INTERVAL br_id) (IxPanic ''Reached maximum breakpoint id'') (\<lambda>start.
           expect (checked_add start 1) (IxPanic ''Will be lesser that u64::MAX'') (\<lambda>first.
           fold_res (replay_block env) (get_block_batch_seq db (id_range first block_id)) breakpoint))))"

definition final_state :: "node_env \<Rightarrow> indexer_db \<Rightarrow> (indexer_error, v03_state) result" where
  "final_state env db = calculate_state_for_id env db (case ix_last_block db of None \<Rightarrow> 0 | Some n \<Rightarrow> n)"

definition put_next_breakpoint :: "node_env \<Rightarrow> indexer_db \<Rightarrow> (indexer_error, indexer_db) result" where
  "put_next_breakpoint env db =
     (let last_block = (case ix_last_block db of None \<Rightarrow> 0 | Some n \<Rightarrow> n) in
      expect (checked_add (case ix_last_breakpoint db of None \<Rightarrow> 0 | Some n \<Rightarrow> n) 1)
        (IxPanic ''Breakpoint Id will be lesser than u64::MAX'') (\<lambda>next_breakpoint_id.
      expect (checked_mul next_breakpoint_id BREAKPOINT_INTERVAL) (IxPanic ''Reached maximum breakpoint id'') (\<lambda>block_to_break_id.
      if block_to_break_id \<le> last_block
      then rbind (calculate_state_for_id env db block_to_break_id) (\<lambda>next_breakpoint.
           Inr (db\<lparr> ix_breakpoints := (ix_breakpoints db)(next_breakpoint_id \<mapsto> next_breakpoint),
                    ix_last_breakpoint := Some next_breakpoint_id \<rparr>))
      else Inl (IxDb (DbInteractionError ''Breakpoint not yet achieved'')))))"

text \<open>
  Storing a block.  The batch is written before the breakpoint is computed.  Counters are read from
  the database as it was; the accounts of the block are taken in the order of their identifiers,
  which the hash map of the source leaves open and which makes no difference.
\<close>

definition acc_num_tx :: "indexer_db \<Rightarrow> account_id \<Rightarrow> u64" where
  "acc_num_tx db acc_id = (case ix_acc_num_tx db acc_id of None \<Rightarrow> 0 | Some n \<Rightarrow> n)"

definition put_account_transactions_dependant :: "indexer_db \<Rightarrow> (account_id \<Rightarrow> bytes list) \<Rightarrow> account_id \<Rightarrow> indexer_db
    \<Rightarrow> (indexer_error, indexer_db) result" where
  "put_account_transactions_dependant db hashes acc_id batch =
     (let num = acc_num_tx db acc_id; tx_hashes = hashes acc_id in
      ensure (unat num + length tx_hashes < 2 ^ 64) (IxPanic ''Tx count should be lesser that u64::MAX'') (
      Inr (batch\<lparr> ix_acc_to_tx := fold (\<lambda>(tx_id, h) m. m((acc_id, num + word_of_nat tx_id) \<mapsto> h)) (List.enumerate 0 tx_hashes) (ix_acc_to_tx batch),
                  ix_acc_num_tx := (ix_acc_num_tx batch)(acc_id \<mapsto> num + word_of_nat (length tx_hashes)) \<rparr>)))"

definition affects :: "node_env \<Rightarrow> account_id \<Rightarrow> lee_transaction \<Rightarrow> bool" where
  "affects env acc_id t \<longleftrightarrow> acc_id \<in> lee_affected_public_account_ids (ne_runtime env) t"

definition acc_to_tx_map :: "node_env \<Rightarrow> block \<Rightarrow> account_id \<Rightarrow> bytes list" where
  "acc_to_tx_map env b acc_id = map (lee_hash env) (filter (affects env acc_id) (bk_transactions b))"

definition affected_accounts :: "node_env \<Rightarrow> block \<Rightarrow> account_id list" where
  "affected_accounts env b =
     sorted_list_of_set (\<Union>t \<in> set (bk_transactions b). lee_affected_public_account_ids (ne_runtime env) t)"

definition put_block_cells :: "node_env \<Rightarrow> block \<Rightarrow> bytes \<Rightarrow> indexer_db \<Rightarrow> indexer_db" where
  "put_block_cells env b l1_lib_header db =
     (let i = bh_block_id (bk_header b);
          last_curr_block = (case ix_last_block db of None \<Rightarrow> 0 | Some n \<Rightarrow> n);
          db = db\<lparr> ix_blocks := (ix_blocks db)(i \<mapsto> b) \<rparr>;
          db = (if i > last_curr_block then db\<lparr> ix_last_block := Some i, ix_last_l1_header := Some l1_lib_header \<rparr> else db);
          db = (if last_curr_block = 0 then db\<lparr> ix_first_block := Some i, ix_first_block_set := Some True \<rparr> else db)
      in db\<lparr> ix_hash_to_id := (ix_hash_to_id db)(bh_hash (bk_header b) \<mapsto> i),
             ix_tx_to_id := fold (\<lambda>t m. m(lee_hash env t \<mapsto> i)) (bk_transactions b) (ix_tx_to_id db) \<rparr>)"

definition put_block_batch :: "node_env \<Rightarrow> block \<Rightarrow> bytes \<Rightarrow> indexer_db \<Rightarrow> (indexer_error, indexer_db) result" where
  "put_block_batch env b l1_lib_header db =
     fold_res (put_account_transactions_dependant db (acc_to_tx_map env b)) (affected_accounts env b)
       (put_block_cells env b l1_lib_header db)"

definition db_put_block :: "node_env \<Rightarrow> block \<Rightarrow> bytes \<Rightarrow> indexer_db \<Rightarrow> indexer_db \<times> (indexer_error, unit) result" where
  "db_put_block env b l1_lib_header db =
     (case put_block_batch env b l1_lib_header db of
        Inl e \<Rightarrow> (db, Inl e)
      | Inr db \<Rightarrow>
          if bh_block_id (bk_header b) mod BREAKPOINT_INTERVAL = 0
          then (case put_next_breakpoint env db of Inl e \<Rightarrow> (db, Inl e) | Inr db \<Rightarrow> (db, Inr ()))
          else (db, Inr ()))"

definition indexer_put_block :: "node_env \<Rightarrow> block \<Rightarrow> bytes \<Rightarrow> indexer \<Rightarrow> indexer \<times> (indexer_error, unit) result" where
  "indexer_put_block env b l1_header ix =
     (case apply_block env b (in_state ix) of
        (s, Inl e) \<Rightarrow> (ix\<lparr> in_state := s \<rparr>, Inl e)
      | (s, Inr _) \<Rightarrow>
          case db_put_block env (b\<lparr> bk_bedrock_status := Finalized \<rparr>) l1_header (in_db ix) of
            (db, r) \<Rightarrow> (ix\<lparr> in_state := s, in_db := db \<rparr>, r))"

definition open_or_create :: "v03_state \<Rightarrow> indexer_db \<Rightarrow> indexer_db" where
  "open_or_create initial_state db = db\<lparr> ix_breakpoints := (ix_breakpoints db)(0 \<mapsto> initial_state), ix_last_breakpoint := Some 0 \<rparr>"

definition indexer_open_db :: "node_env \<Rightarrow> v03_state \<Rightarrow> indexer_db \<Rightarrow> (indexer_error, indexer) result" where
  "indexer_open_db env initial_state db =
     (let db = open_or_create initial_state db in
      rbind (final_state env db) (\<lambda>current_state. Inr \<lparr> in_db = db, in_state = current_state \<rparr>))"

definition get_transaction_by_hash :: "node_env \<Rightarrow> bytes \<Rightarrow> indexer_db \<Rightarrow> lee_transaction option" where
  "get_transaction_by_hash env tx_hash db =
     (case ix_tx_to_id db tx_hash of
        None \<Rightarrow> None
      | Some block_id \<Rightarrow>
          (case ix_blocks db block_id of
             None \<Rightarrow> None
           | Some b \<Rightarrow> List.find (\<lambda>t. lee_hash env t = tx_hash) (bk_transactions b)))"

definition get_block_by_hash :: "bytes \<Rightarrow> indexer_db \<Rightarrow> block option" where
  "get_block_by_hash hash db = (case ix_hash_to_id db hash of None \<Rightarrow> None | Some i \<Rightarrow> ix_blocks db i)"

definition get_block_batch :: "u64 option \<Rightarrow> u64 \<Rightarrow> indexer_db \<Rightarrow> block list" where
  "get_block_batch before limit db =
     (case (case before of Some before_id \<Rightarrow> Some (if before_id = 0 then 0 else before_id - 1) | None \<Rightarrow> ix_last_block db) of
        None \<Rightarrow> []
      | Some start_block_id \<Rightarrow>
          get_block_batch_seq db
            (map word_of_nat (takeWhile (\<lambda>i. i \<noteq> 0) (map (\<lambda>i. unat start_block_id - i) [0 ..< unat limit]))))"

text \<open>Transactions of an account, in the order of the chain, from a position on.\<close>

definition get_acc_transaction_hashes :: "account_id \<Rightarrow> u64 \<Rightarrow> u64 \<Rightarrow> indexer_db \<Rightarrow> (indexer_error, bytes list) result" where
  "get_acc_transaction_hashes acc_id offset limit db =
     expect (checked_add offset limit) (IxPanic ''Transaction limit should be lesser than u64::MAX'') (\<lambda>stop.
     Inr (take_found (\<lambda>n. ix_acc_to_tx db (acc_id, word_of_nat n)) [unat offset ..< unat stop]))"

fun get_block_ids_by_tx_vec :: "bytes list \<Rightarrow> indexer_db \<Rightarrow> (indexer_error, u64 list) result" where
  "get_block_ids_by_tx_vec [] db = Inr []"
| "get_block_ids_by_tx_vec (h # hs) db =
     expect (ix_tx_to_id db h) (IxDb (DbInteractionError ''Tx to block id mapping do not contain transaction from vec'')) (\<lambda>i.
     rbind (get_block_ids_by_tx_vec hs db) (\<lambda>is. Inr (i # is)))"

definition find_transaction :: "node_env \<Rightarrow> block \<times> bytes \<Rightarrow> (indexer_error, lee_transaction) result" where
  "find_transaction env p =
     expect (List.find (\<lambda>t. lee_hash env t = snd p) (bk_transactions (fst p)))
       (IxDb (DbInteractionError ''Missing transaction in block'')) Inr"

definition get_acc_transactions :: "node_env \<Rightarrow> account_id \<Rightarrow> u64 \<Rightarrow> u64 \<Rightarrow> indexer_db \<Rightarrow> (indexer_error, lee_transaction list) result" where
  "get_acc_transactions env acc_id offset limit db =
     rbind (get_acc_transaction_hashes acc_id offset limit db) (\<lambda>tx_hashes.
     rbind (get_block_ids_by_tx_vec tx_hashes db) (\<lambda>ids.
     map_res (find_transaction env) (zip (get_block_batch_seq db ids) tx_hashes)))"

section \<open>Messages of the channel\<close>

text \<open>
  The loop over the messages of the channel: \<open>decode\<close> is the Borsh decoder of a block, a cursor is its
  serialised form.  A block that cannot be stored is logged and passed over.
\<close>

datatype zone_message = ZoneBlock bytes | ZoneDeposit | ZoneWithdraw

definition set_zone_cursor :: "bytes \<Rightarrow> indexer \<Rightarrow> indexer" where
  "set_zone_cursor slot ix = ix\<lparr> in_db := (in_db ix)\<lparr> ix_cursor := Some slot \<rparr> \<rparr>"

definition on_zone_message :: "node_env \<Rightarrow> (bytes \<Rightarrow> block option) \<Rightarrow> zone_message \<Rightarrow> bytes \<Rightarrow> indexer \<Rightarrow> indexer \<times> block option" where
  "on_zone_message env decode msg slot ix =
     (case msg of
        ZoneBlock bs \<Rightarrow>
          (case decode bs of
             None \<Rightarrow> (set_zone_cursor slot ix, None)
           | Some b \<Rightarrow> (set_zone_cursor slot (fst (indexer_put_block env b (replicate 32 0) ix)), Some b))
      | _ \<Rightarrow> (ix, None))"

section \<open>The indexer follows the sequencer\<close>

lemma stateless_of_diff:
  "compute_state_diff rt t s b ts = Inr d \<Longrightarrow> transaction_stateless_check rt t = Inr t"
  by (cases t) (auto simp: compute_state_diff_def transaction_stateless_check_def from_public_transaction_def
      from_privacy_preserving_transaction_def Let_def res_simps)

lemma apply_included:
  assumes "include_transaction env i ts origin t s acc = Inr (Some (s', acc'))" "i \<noteq> GENESIS_BLOCK_ID"
  shows "apply_transaction env i ts t s = Inr s'" "bl_valid_transactions acc' = bl_valid_transactions acc"
proof -
  let ?rt = "ne_runtime env"
  have "\<exists>d. compute_state_diff ?rt t s i ts = Inr d \<and> apply_state_diff (rt_hash ?rt) d s = Some s'"
    using assms(1)
    by (cases origin; cases t)
      (auto simp: include_transaction_def validate_on_state_def compute_state_diff_def transition_from_public_transaction_def
        res_simps Let_def split: sum.splits)
  then obtain d where d: "compute_state_diff ?rt t s i ts = Inr d" "apply_state_diff (rt_hash ?rt) d s = Some s'" by blast
  with stateless_of_diff [OF d(1)] show "apply_transaction env i ts t s = Inr s'"
    using assms(2) by (simp add: apply_transaction_def execute_without_system_accounts_check_on_state_def Let_def)
  show "bl_valid_transactions acc' = bl_valid_transactions acc"
    using assms(1) by (cases origin; cases t) (auto simp: include_transaction_def res_simps Let_def split: sum.splits)
qed

lemma apply_transactions_append:
  "apply_transactions env i ts (xs @ ys) s =
     (case apply_transactions env i ts xs s of (s, Inl e) \<Rightarrow> (s, Inl e) | (s, Inr _) \<Rightarrow> apply_transactions env i ts ys s)"
  by (induction xs arbitrary: s) (auto split: sum.splits)

text \<open>
  What the loop does to the sequencer: it applies the transactions it includes, and leaves the
  database and the height alone, also when it fails.
\<close>

definition loop_effect :: "node_env \<Rightarrow> u64 \<Rightarrow> u64 \<Rightarrow> sequencer \<Rightarrow> built \<Rightarrow> sequencer \<Rightarrow> (sequencer_error, built) result \<Rightarrow> bool" where
  "loop_effect env i ts sq acc sq' r \<longleftrightarrow>
     sq_db sq' = sq_db sq \<and> sq_chain_height sq' = sq_chain_height sq
   \<and> (\<exists>txs. apply_transactions env i ts txs (sq_state sq) = (sq_state sq', Inr ())
        \<and> (case r of Inl e \<Rightarrow> \<forall>m. e \<noteq> SeqOther m | Inr acc' \<Rightarrow> bl_valid_transactions acc' = bl_valid_transactions acc @ txs))"

lemma loop_effect_stop: "loop_effect env i ts sq acc (sq\<lparr> sq_mempool := mp \<rparr>) (Inr acc)" "loop_effect env i ts sq acc sq (Inr acc)"
  "(\<And>m. e \<noteq> SeqOther m) \<Longrightarrow> loop_effect env i ts sq acc (sq\<lparr> sq_mempool := mp \<rparr>) (Inl e)"
  by (auto simp: loop_effect_def intro!: exI [of _ "[]"])

lemma include_error: "include_transaction env i ts origin t s acc = Inl e \<Longrightarrow> e \<noteq> SeqOther m"
  by (cases origin; cases t)
    (auto simp: include_transaction_def extract_bridge_withdraw_data_def rbind_def expect_def map_err_def Let_def
      split: sum.splits option.splits bridge_instruction.splits)

lemma loop_effect_skip:
  "loop_effect env i ts (sq\<lparr> sq_mempool := mp \<rparr>) acc sq' r \<Longrightarrow> loop_effect env i ts sq acc sq' r"
  by (simp add: loop_effect_def)

lemma loop_effect_include:
  assumes "include_transaction env i ts origin t (sq_state sq) acc = Inr (Some (s1, acc1))" "i \<noteq> GENESIS_BLOCK_ID"
    and "loop_effect env i ts (sq\<lparr> sq_mempool := mp, sq_state := s1 \<rparr>)
      (acc1\<lparr> bl_valid_transactions := bl_valid_transactions acc1 @ [t] \<rparr>) sq' r"
  shows "loop_effect env i ts sq acc sq' r"
proof -
  note inc = apply_included [OF assms(1,2)]
  from assms(3) have keep: "sq_db sq' = sq_db sq" "sq_chain_height sq' = sq_chain_height sq" by (simp_all add: loop_effect_def)
  from assms(3) [unfolded loop_effect_def] obtain txs where txs: "apply_transactions env i ts txs s1 = (sq_state sq', Inr ())"
    "case r of Inl e \<Rightarrow> \<forall>m. e \<noteq> SeqOther m | Inr acc' \<Rightarrow> bl_valid_transactions acc' = (bl_valid_transactions acc1 @ [t]) @ txs"
    by (elim conjE exE, intro that) (simp_all split: sum.splits)
  have "apply_transactions env i ts (t # txs) (sq_state sq) = (sq_state sq', Inr ())" using inc txs(1) by simp
  moreover have "case r of Inl e \<Rightarrow> \<forall>m. e \<noteq> SeqOther m | Inr acc' \<Rightarrow> bl_valid_transactions acc' = bl_valid_transactions acc @ (t # txs)"
    using inc txs(2) by (simp split: sum.splits)
  ultimately show ?thesis unfolding loop_effect_def using keep by blast
qed

lemma build_loop_effect:
  assumes "build_loop env i h ts c sq acc = (sq', r)" "i \<noteq> GENESIS_BLOCK_ID"
  shows "loop_effect env i ts sq acc sq' r"
  using assms(1)
proof (induction "length (mempool_contents (sq_mempool sq))" arbitrary: sq acc rule: less_induct)
  case less
  note IH = less(1) and run = less(2) [unfolded build_loop.simps [of env i h ts c sq acc]]
  show ?case
  proof (cases "mempool_pop (sq_mempool sq)")
    case None
    with run show ?thesis by (auto simp: loop_effect_stop)
  next
    case (Some x)
    then obtain origin t mp where pop: "mempool_pop (sq_mempool sq) = Some ((origin, t), mp)" by (cases x) auto
    note smaller = pool.pop_shrinks [OF pop]
    show ?thesis
    proof (cases "ne_max_block_size env < block_size env i h ts (bl_valid_transactions acc @ [t] @ [c])")
      case True
      with run pop show ?thesis by (auto simp: loop_effect_stop)
    next
      case small: False
      show ?thesis
      proof (cases "include_transaction env i ts origin t (sq_state sq) acc")
        case (Inl e)
        with run pop small show ?thesis by (auto simp: loop_effect_stop include_error)
      next
        case m: (Inr m)
        show ?thesis
        proof (cases m)
          case None
          with run pop small m have "build_loop env i h ts c (sq\<lparr> sq_mempool := mp \<rparr>) acc = (sq', r)" by simp
          then show ?thesis by (rule loop_effect_skip [OF IH, rotated]) (simp add: smaller)
        next
          case (Some p)
          then obtain s1 acc1 where p: "m = Some (s1, acc1)" by (cases p) auto
          let ?acc = "acc1\<lparr> bl_valid_transactions := bl_valid_transactions acc1 @ [t] \<rparr>"
          let ?sq = "sq\<lparr> sq_mempool := mp, sq_state := s1 \<rparr>"
          have "(sq', r) = (?sq, Inr ?acc) \<or> build_loop env i h ts c ?sq ?acc = (sq', r)"
            using run pop small m p by (simp add: Let_def split: if_splits)
          then have "loop_effect env i ts ?sq ?acc sq' r"
          proof
            assume "build_loop env i h ts c ?sq ?acc = (sq', r)"
            then show ?thesis by (rule IH [rotated]) (simp add: smaller)
          qed (simp add: loop_effect_stop)
          then show ?thesis by (rule loop_effect_include [OF m [unfolded p] assms(2)])
        qed
      qed
    qed
  qed
qed

lemma next_not_genesis:
  assumes "checked_add h 1 = Some n" "h \<noteq> 0"
  shows "n \<noteq> GENESIS_BLOCK_ID"
proof
  assume "n = GENESIS_BLOCK_ID"
  moreover have "unat n = unat h + 1" using assms(1) by (simp add: arith_simps)
  ultimately have "unat h = 0" by (simp add: GENESIS_BLOCK_ID_def)
  with assms(2) show False by (simp add: unat_eq_zero)
qed

lemma built_block:
  assumes "build_block_from_mempool env ts sq = (sq', Inr bw)" "sq_chain_height sq \<noteq> 0"
  obtains meta where "db_latest_block_meta (sq_db sq) = Some meta" "unat (sq_chain_height sq') = unat (sq_chain_height sq) + 1"
    "bh_block_id (bk_header (bw_block bw)) = sq_chain_height sq'" "bh_prev_block_hash (bk_header (bw_block bw)) = bm_hash meta"
    "sq_db sq' = sq_db sq" "apply_block env (bw_block bw) (sq_state sq) = (sq_state sq', Inr ())"
proof -
  let ?acc = "\<lparr> bl_valid_transactions = [], bl_deposit_event_ids = [], bl_withdrawals = [] \<rparr>"
  let ?clock = "node_clock_tx env ts"
  from assms(1) obtain n meta sq1 acc s' where n: "checked_add (sq_chain_height sq) 1 = Some n"
    and meta: "latest_block_meta (sq_db sq) = Inr meta"
    and loop: "build_loop env n (bm_hash meta) ts (TxPublic ?clock) sq ?acc = (sq1, Inr acc)"
    and clock: "transition_from_public_transaction (ne_runtime env) ?clock (sq_state sq1) n ts = Inr (Some s')"
    and sq': "sq' = sq1\<lparr> sq_state := s', sq_chain_height := n \<rparr>"
    and bw: "bw_block bw = into_pending_block (rt_hash (ne_runtime env)) (ne_block_bytes env) (ne_sign env)
      \<lparr> hb_block_id = n, hb_prev_block_hash = bm_hash meta, hb_timestamp = ts, hb_transactions = bl_valid_transactions acc @ [TxPublic ?clock] \<rparr>"
    unfolding build_block_from_mempool_def by (auto simp: Let_def split: option.splits sum.splits prod.splits)
  have un: "unat n = unat (sq_chain_height sq) + 1" using n by (simp add: arith_simps)
  from build_loop_effect [OF loop next_not_genesis [OF n assms(2)]] obtain txs where eff: "sq_db sq1 = sq_db sq"
    "apply_transactions env n ts txs (sq_state sq) = (sq_state sq1, Inr ())" "bl_valid_transactions acc = txs"
    by (auto simp: loop_effect_def)
  have "db_latest_block_meta (sq_db sq) = Some meta"
    using meta by (simp add: latest_block_meta_def get_cell_def split: option.splits)
  moreover have "apply_block env (bw_block bw) (sq_state sq) = (sq_state sq', Inr ())"
    using eff clock by (simp add: apply_block_def bw Let_def sq')
  ultimately show thesis using that un eff(1) by (simp add: bw sq')
qed

lemma store_update_effect:
  assumes "store_update env b ids keys sq = (sq', Inr ())"
  shows "atomic_update b ids keys (sq_state sq) (sq_db sq) = Inr (sq_db sq')" "sq_state sq' = sq_state sq"
    "sq_chain_height sq' = sq_chain_height sq"
  using assms by (auto simp: store_update_def split: sum.splits)

lemma produced_block:
  assumes "produce_new_block env ts published sq = (sq', Inr n)" "sq_chain_height sq \<noteq> 0"
  obtains b meta ws keys ids where "db_latest_block_meta (sq_db sq) = Some meta" "unat n = unat (sq_chain_height sq) + 1"
    "bh_block_id (bk_header b) = n" "bh_prev_block_hash (bk_header b) = bm_hash meta" "published b ws" "sq_chain_height sq' = n"
    "atomic_update b ids keys (sq_state sq') (sq_db sq) = Inr (sq_db sq')"
    "apply_block env b (sq_state sq) = (sq_state sq', Inr ())"
proof -
  from assms(1) obtain sq1 bw keys where b: "build_block_from_mempool env ts sq = (sq1, Inr bw)"
    and pub: "published (bw_block bw) (bw_withdrawals bw)"
    and st: "store_update env (bw_block bw) (bw_deposit_event_ids bw) keys sq1 = (sq', Inr ())" and n: "n = sq_chain_height sq'"
    unfolding produce_new_block_def by (auto split: sum.splits prod.splits if_splits)
  from built_block [OF b assms(2)] obtain meta where "db_latest_block_meta (sq_db sq) = Some meta"
    "unat (sq_chain_height sq1) = unat (sq_chain_height sq) + 1" "bh_block_id (bk_header (bw_block bw)) = sq_chain_height sq1"
    "bh_prev_block_hash (bk_header (bw_block bw)) = bm_hash meta" "sq_db sq1 = sq_db sq"
    "apply_block env (bw_block bw) (sq_state sq) = (sq_state sq1, Inr ())" .
  with store_update_effect [OF st] pub n that show thesis by metis
qed



end
