(* ===== verification/Chain.thy ===== *)
theory Chain
  imports Indexer
begin

text \<open>
  The chain the sequencer stores: it is complete, a restart recovers it, and a refused publication
  breaks it.
\<close>

section \<open>The stored chain\<close>

text \<open>Between blocks, the database holds exactly the blocks from the genesis block to the height.\<close>

definition chain_stored :: "sequencer \<Rightarrow> bool" where
  "chain_stored sq \<longleftrightarrow> synced sq \<and> sq_chain_height sq \<noteq> 0 \<and> db_first_block (sq_db sq) = Some GENESIS_BLOCK_ID
     \<and> dom (db_blocks (sq_db sq)) = {i. 1 \<le> unat i \<and> unat i \<le> unat (sq_chain_height sq)}"

lemma fresh_start_stored:
  assumes "fresh_start env s actions n = Inr sq"
  shows "chain_stored sq"
proof -
  have "1 \<le> unat i \<and> unat i \<le> 1 \<longleftrightarrow> i = 1" for i :: u64
  proof -
    have "1 \<le> unat i \<and> unat i \<le> 1 \<longleftrightarrow> unat i = unat (1 :: u64)" unfolding unat_1 by linarith
    then show ?thesis unfolding word_unat_eq_iff .
  qed
  then have one: "{i :: u64. 1 \<le> unat i \<and> unat i \<le> 1} = {1}" by auto
  obtain b where "db_blocks (sq_db sq) = [1 \<mapsto> b]" "db_first_block (sq_db sq) = Some 1"
    using assms by (auto simp: fresh_start_def db_create_def put_block_def empty_db_def GENESIS_BLOCK_ID_def res_simps Let_def)
  with fresh_start_synced [OF assms] one show ?thesis by (simp add: chain_stored_def GENESIS_BLOCK_ID_def)
qed

lemma atomic_update_first:
  "atomic_update b ids ws st db = Inr db' \<Longrightarrow> db_first_block db' = db_first_block db"
  by (auto simp: atomic_update_def Let_def res_simps put_block_Inr increment_all_Inr mark_pending_writes increments_only_withdraws)

lemma produced_stored:
  assumes "chain_stored sq" "produce_new_block env ts published sq = (sq', Inr n)"
  shows "chain_stored sq'"
proof -
  have h: "sq_chain_height sq \<noteq> 0" and s: "synced sq" using assms(1) by (simp_all add: chain_stored_def)
  show ?thesis
  proof (rule produced_block [OF assms(2) h])
    fix b meta ws keys ids
    assume p: "unat n = unat (sq_chain_height sq) + 1" "bh_block_id (bk_header b) = n" "sq_chain_height sq' = n"
      "atomic_update b ids keys (sq_state sq') (sq_db sq) = Inr (sq_db sq')"
    note eff = atomic_update_effect [OF p(4)] and first = atomic_update_first [OF p(4)]
    have "sq_chain_height sq < n" using p(1) by (simp add: word_less_nat_alt)
    then have "synced sq'" using s eff(1,5) p(2,3) by (auto simp: synced_def)
    moreover have "dom (db_blocks (sq_db sq')) = {i. 1 \<le> unat i \<and> unat i \<le> unat n}"
    proof -
      have "dom (db_blocks (sq_db sq')) = insert n {i. 1 \<le> unat i \<and> unat i \<le> unat (sq_chain_height sq)}"
        using assms(1) p(2) by (simp add: chain_stored_def eff(2))
      also have "\<dots> = {i. 1 \<le> unat i \<and> unat i \<le> unat n}" using p(1) by (auto simp: le_Suc_eq word_unat_eq_iff)
      finally show ?thesis .
    qed
    moreover have "n \<noteq> 0" using p(1) by auto
    ultimately show ?thesis using assms(1) p(3) first by (simp add: chain_stored_def)
  qed
qed

lemma cache_blocks:
  "(\<exists>m'. fold_res (cache_block env db) ids m = Inr m') \<longleftrightarrow> (\<forall>i \<in> set ids. db_blocks db i \<noteq> None)"
  by (induction ids arbitrary: m) (auto simp: cache_block_def res_simps)

lemma cache_blocks_missing:
  "fold_res (cache_block env db) ids m = Inl e \<Longrightarrow> e = SeqPanic ''Block should be present in the database''"
  by (induction ids arbitrary: m) (auto simp: cache_block_def rbind_def expect_def split: sum.splits option.splits)

lemma id_range_set: "i \<in> set (id_range a b) \<longleftrightarrow> unat a \<le> unat i \<and> unat i \<le> unat b"
proof -
  have "unat (word_of_nat n :: u64) = n" if "n \<le> unat b" for n
    using that unat_lt2p [of b] by (simp add: unat_of_nat)
  then show ?thesis by (auto simp: id_range_def image_iff intro!: bexI [of _ "unat i"] simp del: upt_Suc)
qed

lemma restart_stored:
  assumes "chain_stored sq"
  obtains sq' where "start_existing env (sq_db sq) m = Inr sq'" "sq_state sq' = sq_state sq" "sq_chain_height sq' = sq_chain_height sq"
    "sq_db sq' = sq_db sq"
proof -
  let ?db = "sq_db sq"
  from assms obtain h where meta: "db_latest_block_meta ?db = Some \<lparr> bm_id = sq_chain_height sq, bm_hash = h \<rparr>"
    and st: "db_lee_state ?db = Some (sq_state sq)" by (auto simp: chain_stored_def synced_def)
  have first: "db_first_block ?db = Some GENESIS_BLOCK_ID" and blocks: "dom (db_blocks ?db) = {i. 1 \<le> unat i \<and> unat i \<le> unat (sq_chain_height sq)}"
    and pos: "1 \<le> unat (sq_chain_height sq)"
    using assms by (auto simp: chain_stored_def Suc_le_eq unat_gt_0)
  have "\<forall>i \<in> set (id_range GENESIS_BLOCK_ID (sq_chain_height sq)). db_blocks ?db i \<noteq> None"
  proof
    fix i assume "i \<in> set (id_range GENESIS_BLOCK_ID (sq_chain_height sq))"
    then have "i \<in> dom (db_blocks ?db)" unfolding blocks id_range_set by (simp add: GENESIS_BLOCK_ID_def)
    then show "db_blocks ?db i \<noteq> None" by auto
  qed
  then obtain tx_map where "fold_res (cache_block env ?db) (id_range GENESIS_BLOCK_ID (sq_chain_height sq)) Map.empty = Inr tx_map"
    using cache_blocks by blast
  moreover obtain g where "db_blocks ?db GENESIS_BLOCK_ID = Some g"
  proof -
    have "1 \<in> dom (db_blocks ?db)" unfolding blocks using pos by simp
    with that show thesis by (auto simp: GENESIS_BLOCK_ID_def)
  qed
  ultimately show thesis
    using that meta st first by (simp add: start_existing_def open_db_def get_cell_def latest_block_meta_def)
qed

lemma mark_all_finalized_domain: "dom (db_blocks (fst (mark_all_finalized ids db))) = dom (db_blocks db)"
  by (induction ids arbitrary: db) (auto simp: mark_block_as_finalized_def split: option.splits sum.splits)

lemma mark_all_finalized_cells:
  "db_first_block (fst (mark_all_finalized ids db)) = db_first_block db"
  "db_latest_block_meta (fst (mark_all_finalized ids db)) = db_latest_block_meta db"
  "db_last_block (fst (mark_all_finalized ids db)) = db_last_block db"
  "db_lee_state (fst (mark_all_finalized ids db)) = db_lee_state db"
  by (induction ids arbitrary: db) (auto simp: mark_block_as_finalized_def split: option.splits sum.splits)

lemma events_keep_stored:
  assumes "chain_stored sq"
  shows "chain_stored (fst (on_deposit_event env d sq))" "chain_stored (on_withdraw_event w sq)" "chain_stored (on_checkpoint c sq)"
    "chain_stored (on_finalized_block keys n sq)" "chain_stored (sq\<lparr> sq_mempool := mp \<rparr>)"
proof -
  show "chain_stored (fst (on_deposit_event env d sq))"
    using assms by (auto simp: chain_stored_def synced_def on_deposit_event_def add_pending_deposit_event_def Let_def
        split: prod.splits sum.splits option.splits if_splits)
  show "chain_stored (on_withdraw_event w sq)"
    using assms by (auto simp: chain_stored_def synced_def on_withdraw_event_def consume_unseen_withdraw_count_def
        split: sum.splits option.splits)
  show "chain_stored (on_checkpoint c sq)"
    using assms by (auto simp: chain_stored_def synced_def on_checkpoint_def)
  show "chain_stored (sq\<lparr> sq_mempool := mp \<rparr>)" using assms by (simp add: chain_stored_def synced_def)
  show "chain_stored (on_finalized_block keys n sq)"
    using assms by (auto simp: chain_stored_def synced_def on_finalized_block_def clean_pending_blocks_up_to_def
        remove_fulfilled_pending_deposit_events_up_to_block_def mark_all_finalized_domain mark_all_finalized_cells Let_def)
qed

text \<open>The histories of a running sequencer: blocks that succeed, and events of the other chain.\<close>

inductive produced :: "node_env \<Rightarrow> sequencer \<Rightarrow> sequencer \<Rightarrow> bool" for env where
  node_none: "produced env sq sq"
| node_block: "produced env sq sq1 \<Longrightarrow> produce_new_block env ts published sq1 = (sq2, Inr n) \<Longrightarrow> produced env sq sq2"
| node_deposit: "produced env sq sq1 \<Longrightarrow> produced env sq (fst (on_deposit_event env d sq1))"
| node_withdraw: "produced env sq sq1 \<Longrightarrow> produced env sq (on_withdraw_event w sq1)"
| node_finalized: "produced env sq sq1 \<Longrightarrow> produced env sq (on_finalized_block keys i sq1)"
| node_checkpoint: "produced env sq sq1 \<Longrightarrow> produced env sq (on_checkpoint c sq1)"
| node_user: "produced env sq sq1 \<Longrightarrow> mempool_push (User, t) (sq_mempool sq1) = Some mp \<Longrightarrow> produced env sq (sq1\<lparr> sq_mempool := mp \<rparr>)"

lemma produced_keeps:
  assumes "produced env sq sq'" "chain_stored sq"
  shows "chain_stored sq'"
  using assms
proof (induction rule: produced.induct)
  case (node_block sq sq1 ts published sq2 n)
  then show ?case using produced_stored by blast
qed (simp_all add: events_keep_stored)

text \<open>
  C19: a restart recovers the chain.  Whatever blocks a sequencer has produced since its genesis, its
  database holds every block up to its height and nothing above, and starting it again on that
  database gives the state and the height it had.
\<close>

theorem restart_recovers_chain:
  assumes "fresh_start env s actions m = Inr sq" "produced env sq sq'"
  shows "\<exists>sq''. start_existing env (sq_db sq') m' = Inr sq'' \<and> sq_state sq'' = sq_state sq' \<and> sq_chain_height sq'' = sq_chain_height sq'
    \<and> dom (db_blocks (sq_db sq'')) = {i. 1 \<le> unat i \<and> unat i \<le> unat (sq_chain_height sq')}"
proof -
  have stored: "chain_stored sq'" using assms(2) fresh_start_stored [OF assms(1)] by (rule produced_keeps)
  show ?thesis
  proof (rule restart_stored [OF stored, of env m'])
    fix sq'' assume r: "start_existing env (sq_db sq') m' = Inr sq''" "sq_state sq'' = sq_state sq'"
      "sq_chain_height sq'' = sq_chain_height sq'" "sq_db sq'' = sq_db sq'"
    moreover have "dom (db_blocks (sq_db sq')) = {i. 1 \<le> unat i \<and> unat i \<le> unat (sq_chain_height sq')}"
      using stored by (simp add: chain_stored_def)
    ultimately show ?thesis by simp
  qed
qed

theorem restart_recovers_chain_witness:
  "\<exists>sq sq' sq''. fresh_start toy_env toy_state [] 10 = Inr sq \<and> produced toy_env sq sq'
    \<and> start_existing toy_env (sq_db sq') 10 = Inr sq'' \<and> sq_chain_height sq'' = 2"
proof (rule toy_start)
  fix sq assume sq: "fresh_start toy_env toy_state [] 10 = Inr sq" "idle toy_env 1 sq" "sq_chain_height sq = 1"
  obtain sq' where sq': "produce_new_block toy_env 5 (\<lambda>_ _. True) sq = (sq', Inr 2)" "sq_chain_height sq' = 2"
    by (rule produce_empty [OF idle_can_build [OF sq(2)] toy_runs_clock, of 5]) (use sq(3) in simp_all)
  have run: "produced toy_env sq sq'" by (rule produced.node_block [OF produced.node_none sq'(1)])
  from restart_recovers_chain [OF sq(1) run, of 10] obtain sq'' where
    "start_existing toy_env (sq_db sq') 10 = Inr sq''" "sq_chain_height sq'' = 2" using sq'(2) by auto
  with sq(1) run show ?thesis by blast
qed

section \<open>A refused publication\<close>

lemma unpublished_built:
  assumes "produce_new_block env ts published sq = (sq1, Inl (SeqOther ''Failed to publish block to Bedrock''))"
    and "sq_chain_height sq \<noteq> 0"
  obtains bw where "build_block_from_mempool env ts sq = (sq1, Inr bw)"
proof -
  obtain sq2 r where b: "build_block_from_mempool env ts sq = (sq2, r)" by fastforce
  have "r \<noteq> Inl (SeqOther m)" for m
  proof
    assume "r = Inl (SeqOther m)"
    with b obtain n h acc sq3 where n: "checked_add (sq_chain_height sq) 1 = Some n"
      and "build_loop env n h ts (TxPublic (node_clock_tx env ts)) sq acc = (sq3, Inl (SeqOther m))"
      unfolding build_block_from_mempool_def by (auto simp: Let_def split: option.splits sum.splits prod.splits)
    from build_loop_effect [OF this(2) next_not_genesis [OF n assms(2)]] show False by (auto simp: loop_effect_def)
  qed
  then show thesis
    using assms(1) b that by (cases r) (auto simp: produce_new_block_def store_update_def split: sum.splits if_splits)
qed

lemma gap_panics:
  assumes "db_first_block db = Some GENESIS_BLOCK_ID" "db_latest_block_meta db = Some \<lparr> bm_id = n, bm_hash = h \<rparr>"
    and "db_blocks db i = None" "1 \<le> unat i" "unat i \<le> unat n"
  shows "start_existing env db m = Inl (SeqPanic ''Block should be present in the database'')"
proof -
  have "i \<in> set (id_range GENESIS_BLOCK_ID n)" using assms(4,5) by (simp add: id_range_set GENESIS_BLOCK_ID_def)
  then have "\<nexists>m'. fold_res (cache_block env db) (id_range GENESIS_BLOCK_ID n) Map.empty = Inr m'"
    using assms(3) by (auto simp: cache_blocks)
  then obtain e where e: "fold_res (cache_block env db) (id_range GENESIS_BLOCK_ID n) Map.empty = Inl e"
    by (cases "fold_res (cache_block env db) (id_range GENESIS_BLOCK_ID n) Map.empty") auto
  with cache_blocks_missing [OF e] show ?thesis
    using assms(1,2) by (simp add: start_existing_def open_db_def get_cell_def latest_block_meta_def map_err_def)
qed

text \<open>
  C30: a failed publication breaks the chain.  The sequencer advances its state and height before it
  publishes.  When the publisher refuses a block, the next block that is published has a number two
  above the last stored block but names that block as its parent: one number is missing from the
  chain, the transactions of the refused block are applied without being in any block, and the
  node panics when it is started again on its database.
\<close>

theorem failed_publication_breaks_chain:
  assumes "chain_stored sq"
    and "produce_new_block env ts published sq = (sq1, Inl (SeqOther ''Failed to publish block to Bedrock''))"
    and "produce_new_block env ts' published' sq1 = (sq2, Inr n)"
  shows "unat n = unat (sq_chain_height sq) + 2
    \<and> (\<exists>b meta. db_blocks (sq_db sq2) = (db_blocks (sq_db sq))(n \<mapsto> b) \<and> (\<exists>ws. published' b ws)
        \<and> db_latest_block_meta (sq_db sq) = Some meta \<and> bm_id meta = sq_chain_height sq
        \<and> bh_prev_block_hash (bk_header b) = bm_hash meta)
    \<and> start_existing env (sq_db sq2) m = Inl (SeqPanic ''Block should be present in the database'')"
proof -
  have h: "sq_chain_height sq \<noteq> 0" and s: "synced sq" using assms(1) by (simp_all add: chain_stored_def)
  obtain bw where "build_block_from_mempool env ts sq = (sq1, Inr bw)" by (rule unpublished_built [OF assms(2) h])
  then obtain meta where b: "db_latest_block_meta (sq_db sq) = Some meta" "unat (sq_chain_height sq1) = unat (sq_chain_height sq) + 1"
    "sq_db sq1 = sq_db sq" by (rule built_block) (use h in auto)
  then have "sq_chain_height sq1 \<noteq> 0" by auto
  from produced_block [OF assms(3) this] obtain blk meta' ws keys ids where
    p: "db_latest_block_meta (sq_db sq1) = Some meta'" "unat n = unat (sq_chain_height sq1) + 1" "bh_block_id (bk_header blk) = n"
      "bh_prev_block_hash (bk_header blk) = bm_hash meta'" "published' blk ws"
      "atomic_update blk ids keys (sq_state sq2) (sq_db sq1) = Inr (sq_db sq2)" by metis
  note eff = atomic_update_effect [OF p(6)]
  have blocks: "db_blocks (sq_db sq2) = (db_blocks (sq_db sq))(n \<mapsto> blk)" using eff(2) b(3) p(3) by simp
  have "bm_id meta = sq_chain_height sq" using s b(1) by (auto simp: synced_def)
  moreover have "start_existing env (sq_db sq2) m = Inl (SeqPanic ''Block should be present in the database'')"
  proof (rule gap_panics)
    show "db_first_block (sq_db sq2) = Some GENESIS_BLOCK_ID"
      using atomic_update_first [OF p(6)] assms(1) b(3) by (simp add: chain_stored_def)
    have "db_last_block (sq_db sq1) = Some (sq_chain_height sq)" using s b(3) by (simp add: synced_def)
    then show "db_latest_block_meta (sq_db sq2) = Some \<lparr> bm_id = n, bm_hash = bh_hash (bk_header blk) \<rparr>"
      using eff(5) p(2,3) b(2) by (auto simp: word_less_nat_alt)
    have "sq_chain_height sq1 \<notin> dom (db_blocks (sq_db sq))" using assms(1) b(2) by (simp add: chain_stored_def)
    then show "db_blocks (sq_db sq2) (sq_chain_height sq1) = None" using p(2) by (auto simp: blocks)
    show "1 \<le> unat (sq_chain_height sq1)" "unat (sq_chain_height sq1) \<le> unat n" using b(2) p(2) by simp_all
  qed
  ultimately show ?thesis using b p blocks by auto
qed

theorem failed_publication_breaks_chain_witness:
  "\<exists>sq sq1 sq2 b. fresh_start toy_env toy_state [] 10 = Inr sq
    \<and> produce_new_block toy_env 5 (\<lambda>_ _. False) sq = (sq1, Inl (SeqOther ''Failed to publish block to Bedrock''))
    \<and> produce_new_block toy_env 6 (\<lambda>_ _. True) sq1 = (sq2, Inr 3)
    \<and> db_blocks (sq_db sq2) = (db_blocks (sq_db sq))(3 \<mapsto> b)"
proof (rule toy_start)
  fix sq assume sq: "fresh_start toy_env toy_state [] 10 = Inr sq" "idle toy_env 1 sq" "sq_chain_height sq = 1"
  obtain sq1 where sq1: "produce_new_block toy_env 5 (\<lambda>_ _. False) sq = (sq1, Inl (SeqOther ''Failed to publish block to Bedrock''))"
    "can_build toy_env (1 + 1) (sq_chain_height sq) sq1" "sq_chain_height sq1 = 2"
    by (rule produce_unpublished [OF idle_can_build [OF sq(2)] toy_runs_clock, of 5]) (use sq(3) in simp_all)
  obtain sq2 where sq2: "produce_new_block toy_env 6 (\<lambda>_ _. True) sq1 = (sq2, Inr 3)"
    by (rule produce_empty [OF sq1(2) toy_runs_clock, of 6]) (use sq1(3) in simp_all)
  from failed_publication_breaks_chain [OF fresh_start_stored [OF sq(1)] sq1(1) sq2] obtain b where
    "db_blocks (sq_db sq2) = (db_blocks (sq_db sq))(3 \<mapsto> b)" by auto
  with sq(1) sq1(1) sq2 show ?thesis by blast
qed

end
