(* ===== verification/Breakpoints.thy ===== *)
theory Breakpoints
  imports Indexer
begin

text \<open>
  The breakpoints of the indexer: replaying stored blocks agrees with applying them, the state after
  any block is recomputed exactly, and what a restart does to the numbering of breakpoints.
\<close>

section \<open>Replaying stored blocks\<close>

lemma replay_transaction_iff:
  "replay_transaction env h t s = Inr s' \<longleftrightarrow> apply_transaction env (bh_block_id h) (bh_timestamp h) t s = Inr s'"
  by (cases t) (auto simp: replay_transaction_def apply_transaction_def Let_def res_simps)

lemma replay_transactions_iff:
  "fold_res (replay_transaction env h) ts s = Inr s' \<longleftrightarrow>
     apply_transactions env (bh_block_id h) (bh_timestamp h) ts s = (s', Inr ())"
proof (induction ts arbitrary: s)
  case (Cons t ts)
  show ?case
  proof (cases "apply_transaction env (bh_block_id h) (bh_timestamp h) t s")
    case (Inl e)
    then have "\<nexists>s1. replay_transaction env h t s = Inr s1" by (simp add: replay_transaction_iff)
    with Inl show ?thesis by (auto simp: res_simps)
  next
    case (Inr s1)
    then have "replay_transaction env h t s = Inr s1" by (simp add: replay_transaction_iff)
    with Inr Cons.IH show ?thesis by simp
  qed
qed auto

text \<open>The two implementations of a block's effect agree.\<close>

lemma replay_block_iff: "replay_block env b s = Inr s' \<longleftrightarrow> apply_block env b s = (s', Inr ())"
proof (cases "apply_transactions env (bh_block_id (bk_header b)) (bh_timestamp (bk_header b)) (butlast (bk_transactions b)) s")
  case (Pair s1 r)
  show ?thesis
  proof (cases r)
    case (Inl e)
    with Pair have "\<nexists>x. fold_res (replay_transaction env (bk_header b)) (butlast (bk_transactions b)) s = Inr x"
      by (simp add: replay_transactions_iff)
    with Inl Pair show ?thesis by (auto simp: replay_block_def apply_block_def Let_def res_simps)
  next
    case (Inr u)
    with Pair have "fold_res (replay_transaction env (bk_header b)) (butlast (bk_transactions b)) s = Inr s1"
      by (simp add: replay_transactions_iff)
    with Inr Pair show ?thesis
      by (auto simp: replay_block_def apply_block_def Let_def res_simps split: sum.splits option.splits)
  qed
qed

lemma replay_finalized [simp]: "replay_block env (b\<lparr> bk_bedrock_status := st \<rparr>) = replay_block env b"
  by (simp add: replay_block_def fun_eq_iff)

section \<open>Breakpoints\<close>

abbreviation replay :: "node_env \<Rightarrow> block list \<Rightarrow> v03_state \<Rightarrow> (indexer_error, v03_state) result" where
  "replay env bs s \<equiv> fold_res (replay_block env) bs s"

lemma replay_split: "replay env bs s = rbind (replay env (take n bs) s) (replay env (drop n bs))"
  by (simp flip: fold_res_append)

lemma replay_prefix:
  assumes "replay env bs s = Inr s'"
  obtains t where "replay env (take n bs) s = Inr t" "replay env (drop n bs) t = Inr s'"
  using assms that by (subst (asm) replay_split [of env bs s n]) (auto simp: res_simps)

definition breakpoint_after :: "node_env \<Rightarrow> v03_state \<Rightarrow> block list \<Rightarrow> nat \<Rightarrow> v03_state option" where
  "breakpoint_after env s0 bs k = (case replay env (take (100 * k) bs) s0 of Inl _ \<Rightarrow> None | Inr s \<Rightarrow> Some s)"

text \<open>The database holds the blocks \<open>bs\<close> and the breakpoints up to \<open>m\<close>; \<open>s\<close> is the state after \<open>bs\<close>.\<close>

definition indexed :: "node_env \<Rightarrow> v03_state \<Rightarrow> nat \<Rightarrow> block list \<Rightarrow> v03_state \<Rightarrow> indexer_db \<Rightarrow> bool" where
  "indexed env s0 m bs s db \<longleftrightarrow>
     length bs < 2 ^ 64 \<and> 100 * m \<le> length bs \<and> replay env bs s0 = Inr s
   \<and> unat (case ix_last_block db of None \<Rightarrow> 0 | Some n \<Rightarrow> n) = length bs
   \<and> (\<forall>i. 0 < unat i \<longrightarrow> unat i \<le> length bs \<longrightarrow> ix_blocks db i = Some (bs ! (unat i - 1)))
   \<and> (\<forall>k. ix_breakpoints db k = (if unat k \<le> m then breakpoint_after env s0 bs (unat k) else None))"

lemma breakpoint_after_append:
  "100 * k \<le> length bs \<Longrightarrow> breakpoint_after env s0 (bs @ cs) k = breakpoint_after env s0 bs k"
  by (simp add: breakpoint_after_def)

lemma unat_closest: "unat (closest_breakpoint_id i) = (unat i - 1) div 100"
proof -
  have "unat (i - 1) = unat i - 1" if "i \<noteq> 0"
    using that unat_minus_one [of i] by simp
  then show ?thesis by (auto simp: closest_breakpoint_id_def BREAKPOINT_INTERVAL_def unat_div)
qed

lemma take_found_all: "(\<And>k. k \<in> set ks \<Longrightarrow> m k = Some (f k)) \<Longrightarrow> take_found m ks = map f ks"
  by (induction ks) simp_all

lemma batch_of_indexed:
  assumes "indexed env s0 m bs s db" "unat i \<le> length bs" "unat first = Suc a"
  shows "get_block_batch_seq db (id_range first i) = drop a (take (unat i) bs)"
proof -
  have b: "length bs < 2 ^ 64" using assms(1) by (simp add: indexed_def)
  have u: "unat (word_of_nat j :: u64) = j" if "j \<le> unat i" for j
    using that assms(2) b by (simp add: unat_of_nat)
  have "get_block_batch_seq db (id_range first i) = map (\<lambda>j. bs ! (unat j - 1)) (id_range first i)"
    unfolding get_block_batch_seq_def using assms u by (intro take_found_all) (auto simp: id_range_def indexed_def)
  also have "\<dots> = drop a (take (unat i) bs)"
    using assms(2,3) u by (intro nth_equalityI) (auto simp: id_range_def simp del: upt_Suc of_nat_Suc of_nat_add)
  finally show ?thesis .
qed

lemma calculate_indexed:
  assumes "indexed env s0 m bs s db" "unat i \<le> length bs" "(unat i - 1) div 100 \<le> m"
  shows "calculate_state_for_id env db i = replay env (take (unat i) bs) s0"
proof -
  let ?k = "(unat i - 1) div 100"
  have k: "100 * ?k \<le> unat i" "100 * ?k \<le> unat i - 1" by simp_all
  from assms(1) have len: "length bs < 2 ^ 64" and rep: "replay env bs s0 = Inr s" by (simp_all add: indexed_def)
  from replay_prefix [OF rep, of "100 * ?k"] obtain t where t: "replay env (take (100 * ?k) bs) s0 = Inr t" .
  have "ix_breakpoints db (closest_breakpoint_id i) = Some t"
    using assms(1,3) t by (simp add: indexed_def unat_closest breakpoint_after_def)
  moreover have "checked_mul BREAKPOINT_INTERVAL (closest_breakpoint_id i) = Some (100 * closest_breakpoint_id i)"
    "checked_add (100 * closest_breakpoint_id i) 1 = Some (100 * closest_breakpoint_id i + 1)"
    "unat (100 * closest_breakpoint_id i + 1) = Suc (100 * ?k)"
  proof -
    have m: "unat (100 * closest_breakpoint_id i) = 100 * ?k"
      using k len assms(2) by (simp add: unat_mult_lem [THEN iffD1] unat_closest unat_word_ariths)
    have a: "100 * ?k + 1 < 2 ^ 64" using k assms(2) len unat_lt2p [of i] by (cases "unat i = 0") simp_all
    show "checked_mul BREAKPOINT_INTERVAL (closest_breakpoint_id i) = Some (100 * closest_breakpoint_id i)"
      using a by (simp add: checked_mul_def BREAKPOINT_INTERVAL_def unat_closest)
    show "checked_add (100 * closest_breakpoint_id i) 1 = Some (100 * closest_breakpoint_id i + 1)"
      using a m by (simp add: checked_add_def)
    show "unat (100 * closest_breakpoint_id i + 1) = Suc (100 * ?k)"
      using a m by (simp add: unat_word_ariths)
  qed
  moreover have "\<not> i > (case ix_last_block db of None \<Rightarrow> 0 | Some n \<Rightarrow> n)"
    using assms(1,2) by (simp add: indexed_def word_less_nat_alt)
  ultimately have "calculate_state_for_id env db i = replay env (drop (100 * ?k) (take (unat i) bs)) t"
    using batch_of_indexed [OF assms(1,2)] by (simp add: calculate_state_for_id_def get_cell_def Let_def)
  also have "\<dots> = replay env (take (unat i) bs) s0"
    using replay_split [of env "take (unat i) bs" s0 "100 * ?k"] t k by (simp add: min_def)
  finally show ?thesis .
qed

text \<open>The batch of a block: it fails only when a counter of transactions overflows.\<close>

lemma write_hashes:
  assumes "length hs < 2 ^ 64"
  shows "fold (\<lambda>(k, h) m. m((a, n + word_of_nat k) \<mapsto> h)) (List.enumerate 0 hs) m =
    (\<lambda>(b, w). if b = a \<and> unat (w - n :: u64) < length hs then Some (hs ! unat (w - n)) else m (b, w))"
  using assms
proof (induction hs rule: rev_induct)
  case (snoc h hs)
  have "w = n + word_of_nat (length hs) \<longleftrightarrow> unat (w - n) = length hs" for w :: u64
  proof -
    have "w = n + word_of_nat (length hs) \<longleftrightarrow> w - n = word_of_nat (length hs)" by (auto simp: algebra_simps)
    also have "\<dots> \<longleftrightarrow> unat (w - n) = length hs"
      using snoc.prems by (auto simp: word_unat_eq_iff unat_of_nat)
    finally show ?thesis .
  qed
  with snoc show ?case by (auto simp: enumerate_append_eq fun_eq_iff nth_append)
qed (auto simp: fun_eq_iff)

definition index_accounts :: "indexer_db \<Rightarrow> (account_id \<Rightarrow> bytes list) \<Rightarrow> account_id set \<Rightarrow> indexer_db \<Rightarrow> indexer_db" where
  "index_accounts db hashes A batch = batch\<lparr>
     ix_acc_to_tx := \<lambda>(a, w). if a \<in> A \<and> unat (w - acc_num_tx db a) < length (hashes a)
       then Some (hashes a ! unat (w - acc_num_tx db a)) else ix_acc_to_tx batch (a, w),
     ix_acc_num_tx := \<lambda>a. if a \<in> A then Some (acc_num_tx db a + word_of_nat (length (hashes a))) else ix_acc_num_tx batch a \<rparr>"

definition has_room :: "indexer_db \<Rightarrow> (account_id \<Rightarrow> bytes list) \<Rightarrow> account_id \<Rightarrow> bool" where
  "has_room db hashes a \<longleftrightarrow> unat (acc_num_tx db a) + length (hashes a) < 2 ^ 64"

lemma put_account_eq:
  "put_account_transactions_dependant db hashes a batch =
     (if has_room db hashes a then Inr (index_accounts db hashes {a} batch)
      else Inl (IxPanic ''Tx count should be lesser that u64::MAX''))"
  by (auto simp: put_account_transactions_dependant_def has_room_def index_accounts_def write_hashes ensure_def fun_eq_iff Let_def
      intro!: indexer_db.equality)

lemma put_accounts_Inr:
  "fold_res (put_account_transactions_dependant db hashes) as batch = Inr batch' \<longleftrightarrow>
     (\<forall>a \<in> set as. has_room db hashes a) \<and> batch' = index_accounts db hashes (set as) batch"
proof (induction "as" arbitrary: batch)
  case Nil
  show ?case by (auto simp: index_accounts_def)
next
  case (Cons a "as")
  have "index_accounts db hashes (set as) (index_accounts db hashes {a} batch) = index_accounts db hashes (set (a # as)) batch"
    by (auto simp: index_accounts_def fun_eq_iff intro!: indexer_db.equality)
  with Cons show ?case by (auto simp: put_account_eq res_simps)
qed

lemma finite_affected: "finite (\<Union>t \<in> set ts. lee_affected_public_account_ids rt t)"
  by (auto simp: lee_affected_public_account_ids_def affected_public_account_ids_def privacy_affected_public_account_ids_def
      split: lee_transaction.splits)

lemma put_block_batch_Inr:
  "put_block_batch env b l1 db = Inr db' \<longleftrightarrow>
     (\<forall>a \<in> set (affected_accounts env b). has_room db (acc_to_tx_map env b) a)
     \<and> db' = index_accounts db (acc_to_tx_map env b) (set (affected_accounts env b)) (put_block_cells env b l1 db)"
  by (simp add: put_block_batch_def put_accounts_Inr)

text \<open>Storing the next block, and, after every hundredth, a breakpoint.\<close>

lemma put_batch_indexed:
  assumes "indexed env s0 m bs s db" "unat (bh_block_id (bk_header b)) = length bs + 1" "replay_block env b s = Inr s'"
    and "put_block_batch env b l1 db = Inr db'"
  shows "indexed env s0 m (bs @ [b]) s' db'" "ix_last_breakpoint db' = ix_last_breakpoint db"
proof -
  let ?i = "bh_block_id (bk_header b)"
  have len: "length bs + 1 < 2 ^ 64" using unat_lt2p [of ?i] assms(2) by simp
  have newer: "?i > (case ix_last_block db of None \<Rightarrow> 0 | Some n \<Rightarrow> n)" "?i > 0"
    using assms(1,2) by (simp_all add: indexed_def word_less_nat_alt)
  have "replay env (bs @ [b]) s0 = Inr s'" using assms(1,3) by (simp add: indexed_def fold_res_append)
  moreover have "ix_last_block db' = Some ?i" "ix_blocks db' = (ix_blocks db)(?i \<mapsto> b)" "ix_breakpoints db' = ix_breakpoints db"
    using newer assms(4) by (simp_all add: put_block_batch_Inr index_accounts_def put_block_cells_def Let_def)
  moreover have "((ix_blocks db)(?i \<mapsto> b)) j = Some ((bs @ [b]) ! (unat j - 1))" if j: "0 < unat j" "unat j \<le> length (bs @ [b])" for j
  proof (cases "j = ?i")
    case False
    then have "unat j \<noteq> length bs + 1" using assms(2) by (auto simp: word_unat_eq_iff)
    with j False assms(1) show ?thesis by (simp add: indexed_def nth_append)
  qed (simp add: assms(2))
  ultimately show "indexed env s0 m (bs @ [b]) s' db'"
    using assms(1,2) len by (simp add: indexed_def breakpoint_after_append)
  show "ix_last_breakpoint db' = ix_last_breakpoint db"
    using assms(4) by (simp add: put_block_batch_Inr index_accounts_def put_block_cells_def Let_def)
qed

lemma put_next_breakpoint_indexed:
  assumes "indexed env s0 m bs s db" "ix_last_breakpoint db = Some j" "unat j \<le> m" "100 * (unat j + 1) \<le> length bs"
  obtains db' where "put_next_breakpoint env db = Inr db'" "indexed env s0 (max m (unat j + 1)) bs s db'"
    "ix_last_breakpoint db' = Some (j + 1)"
proof -
  let ?k = "unat j + 1"
  have len: "length bs < 2 ^ 64" "100 * m \<le> length bs" and rep: "replay env bs s0 = Inr s" using assms(1) by (simp_all add: indexed_def)
  define c where "c = (j + 1) * 100"
  have k: "?k < 2 ^ 64" "100 * ?k < 2 ^ 64" using len assms(4) by simp_all
  have u1: "unat (j + 1) = ?k" using k by (simp add: unat_word_ariths)
  have "unat c = unat (j + 1) * unat (100 :: u64)"
    unfolding c_def by (rule unat_mult_lem [THEN iffD1]) (use k in \<open>simp add: u1\<close>)
  then have u: "unat c = 100 * ?k" by (simp add: u1)
  from replay_prefix [OF rep, of "100 * ?k"] obtain t where t: "replay env (take (100 * ?k) bs) s0 = Inr t" .
  have calc: "calculate_state_for_id env db c = Inr t"
    using calculate_indexed [OF assms(1), of c] t assms(3,4) by (simp add: u)
  have add: "checked_add j 1 = Some (j + 1)" using k by (simp add: checked_add_def)
  have mul: "checked_mul (j + 1) BREAKPOINT_INTERVAL = Some c"
    using k by (simp add: checked_mul_def BREAKPOINT_INTERVAL_def u1 c_def)
  have le: "c \<le> (case ix_last_block db of None \<Rightarrow> 0 | Some n \<Rightarrow> n)"
    using assms(1,4) by (simp add: indexed_def word_le_nat_alt u)
  let ?db = "db\<lparr> ix_breakpoints := (ix_breakpoints db)(j + 1 \<mapsto> t), ix_last_breakpoint := Some (j + 1) \<rparr>"
  have "put_next_breakpoint env db = Inr ?db"
    using add mul le calc by (simp add: put_next_breakpoint_def assms(2) Let_def)
  moreover have "indexed env s0 (max m ?k) bs s ?db"
  proof -
    have "k = j + 1 \<longleftrightarrow> unat k = ?k" for k using u1 by (auto simp: word_unat_eq_iff)
    moreover have "breakpoint_after env s0 bs ?k = Some t" using t by (simp add: breakpoint_after_def)
    ultimately show ?thesis using assms(1,3,4) by (auto simp: indexed_def max_def)
  qed
  ultimately show thesis by (rule that) simp
qed

lemma db_put_indexed:
  assumes "indexed env s0 m bs s db" "unat (bh_block_id (bk_header b)) = length bs + 1" "replay_block env b s = Inr s'"
    and "ix_last_breakpoint db = Some j" "unat j \<le> m" "m \<le> length bs div 100" "unat j + d = length bs div 100"
    and "put_block_batch env b l1 db = Inr db1"
  obtains db' j' where "db_put_block env b l1 db = (db', Inr ())" "indexed env s0 (max m (unat j')) (bs @ [b]) s' db'"
    "ix_last_breakpoint db' = Some j'" "unat j' + d = (length bs + 1) div 100"
proof -
  let ?i = "bh_block_id (bk_header b)"
  note batch = put_batch_indexed [OF assms(1-3,8)]
  have mod: "?i mod BREAKPOINT_INTERVAL = 0 \<longleftrightarrow> (length bs + 1) mod 100 = 0"
  proof -
    have "unat (?i mod BREAKPOINT_INTERVAL) = unat ?i mod unat BREAKPOINT_INTERVAL" by (rule unat_mod)
    also have "unat BREAKPOINT_INTERVAL = 100" by (simp add: BREAKPOINT_INTERVAL_def)
    finally show ?thesis unfolding assms(2) by (metis unat_eq_zero)
  qed
  show thesis
  proof (cases "(length bs + 1) mod 100 = 0")
    case True
    then have q: "(length bs + 1) div 100 = length bs div 100 + 1" by (simp add: div_Suc)
    from True have "100 * ((length bs + 1) div 100) = length bs + 1" by (metis add.right_neutral mult_div_mod_eq)
    with q have q': "100 * (length bs div 100 + 1) = length bs + 1" by simp
    have "100 * (unat j + 1) \<le> length (bs @ [b])" using q' assms(7) by simp
    from put_next_breakpoint_indexed [OF batch(1) _ assms(5) this] batch(2) assms(4) obtain db' where
      db': "put_next_breakpoint env db1 = Inr db'" "indexed env s0 (max m (unat j + 1)) (bs @ [b]) s' db'"
        "ix_last_breakpoint db' = Some (j + 1)" by auto
    have "unat j + 1 < 2 ^ 64" using assms(5) batch(1) by (simp add: indexed_def)
    then have "unat (j + 1) = unat j + 1" by (simp add: unat_word_ariths)
    then show thesis
      using that [of db' "j + 1"] db' mod True q assms(7,8) by (simp add: db_put_block_def)
  next
    case False
    then have "(length bs + 1) div 100 = length bs div 100" by (simp add: div_Suc)
    then show thesis
      using that [of db1 j] batch mod False assms(4,5,7,8) by (simp add: db_put_block_def max_absorb1)
  qed
qed

text \<open>The indexer with its database; \<open>d\<close> is the number of breakpoints the counter has lost.\<close>

definition indexing :: "node_env \<Rightarrow> v03_state \<Rightarrow> nat \<Rightarrow> block list \<Rightarrow> indexer \<Rightarrow> bool" where
  "indexing env s0 d bs ix \<longleftrightarrow> (\<exists>j. indexed env s0 (max d (unat j)) bs (in_state ix) (in_db ix)
     \<and> ix_last_breakpoint (in_db ix) = Some j \<and> unat j + d = length bs div 100)"

definition store_next :: "node_env \<Rightarrow> block \<times> bytes \<Rightarrow> indexer \<Rightarrow> (indexer_error, indexer) result" where
  "store_next env p ix = (case indexer_put_block env (fst p) (snd p) ix of (ix', Inl e) \<Rightarrow> Inl e | (ix', Inr _) \<Rightarrow> Inr ix')"

definition finalized :: "block \<Rightarrow> block" where
  "finalized b = b\<lparr> bk_bedrock_status := Finalized \<rparr>"

definition consecutive :: "block list \<Rightarrow> bool" where
  "consecutive bs \<longleftrightarrow> (\<forall>i < length bs. unat (bh_block_id (bk_header (bs ! i))) = i + 1)"

lemma replay_finalized_list: "replay env (map finalized bs) = replay env bs"
proof (induction bs)
  case (Cons b bs)
  then show ?case by (intro ext) (simp add: finalized_def)
qed (simp add: fun_eq_iff)

lemma finalized_id [simp]: "bk_header (finalized b) = bk_header b"
  by (simp add: finalized_def)

lemma store_next_indexing:
  assumes "indexing env s0 d bs ix" "unat (bh_block_id (bk_header b)) = length bs + 1" "apply_block env b (in_state ix) = (s', Inr ())"
    and "put_block_batch env (finalized b) l1 (in_db ix) = Inr db1"
  obtains ix' where "store_next env (b, l1) ix = Inr ix'" "in_state ix' = s'" "indexing env s0 d (bs @ [finalized b]) ix'"
proof -
  from assms(1) obtain j where j: "indexed env s0 (max d (unat j)) bs (in_state ix) (in_db ix)"
    "ix_last_breakpoint (in_db ix) = Some j" "unat j + d = length bs div 100" by (auto simp: indexing_def)
  have "replay_block env (finalized b) (in_state ix) = Inr s'" using assms(3) by (simp add: finalized_def replay_block_iff)
  from db_put_indexed [OF j(1) _ this j(2) _ _ j(3) assms(4)] assms(2) j(3) obtain db' j' where
    db': "db_put_block env (finalized b) l1 (in_db ix) = (db', Inr ())"
      "indexed env s0 (max (max d (unat j)) (unat j')) (bs @ [finalized b]) s' db'"
      "ix_last_breakpoint db' = Some j'" "unat j' + d = (length bs + 1) div 100" by auto
  have "unat j \<le> unat j'" using j(3) db'(4) div_le_mono [of "length bs" "length bs + 1" 100] by linarith
  then have "max (max d (unat j)) (unat j') = max d (unat j')" by simp
  with db' have "indexing env s0 d (bs @ [finalized b]) (ix\<lparr> in_state := s', in_db := db' \<rparr>)"
    by (auto simp: indexing_def)
  moreover have "store_next env (b, l1) ix = Inr (ix\<lparr> in_state := s', in_db := db' \<rparr>)"
    using assms(3) db'(1) by (simp add: store_next_def indexer_put_block_def finalized_def)
  ultimately show thesis using that by simp
qed

lemma db_put_block_batch:
  assumes "db_put_block env b l1 db = (db', Inr ())"
  obtains db1 where "put_block_batch env b l1 db = Inr db1" "ix_acc_num_tx db' = ix_acc_num_tx db1" "ix_acc_to_tx db' = ix_acc_to_tx db1"
    "ix_tx_to_id db' = ix_tx_to_id db1"
  using assms by (auto simp: db_put_block_def put_next_breakpoint_def res_simps Let_def split: sum.splits if_splits)

lemma store_next_effect:
  assumes "store_next env p ix = Inr ix'"
  obtains s' db1 where "apply_block env (fst p) (in_state ix) = (s', Inr ())"
    "put_block_batch env (finalized (fst p)) (snd p) (in_db ix) = Inr db1" "ix_acc_num_tx (in_db ix') = ix_acc_num_tx db1"
    "ix_acc_to_tx (in_db ix') = ix_acc_to_tx db1" "ix_tx_to_id (in_db ix') = ix_tx_to_id db1"
proof -
  from assms obtain s' db' where "apply_block env (fst p) (in_state ix) = (s', Inr ())"
    "db_put_block env (finalized (fst p)) (snd p) (in_db ix) = (db', Inr ())" "in_db ix' = db'"
    by (auto simp: store_next_def indexer_put_block_def finalized_def split: prod.splits sum.splits)
  with db_put_block_batch that show thesis by metis
qed

lemma index_run:
  assumes "fold_res (store_next env) ps ix = Inr ix'" "indexing env s0 d bs ix" "consecutive (bs @ map fst ps)"
  shows "indexing env s0 d (bs @ map (finalized \<circ> fst) ps) ix'"
  using assms
proof (induction ps arbitrary: bs ix)
  case (Cons p ps)
  from Cons.prems(1) obtain ix1 where st: "store_next env p ix = Inr ix1" and rest: "fold_res (store_next env) ps ix1 = Inr ix'"
    by (auto simp: res_simps)
  from store_next_effect [OF st] obtain s' db1 where ap: "apply_block env (fst p) (in_state ix) = (s', Inr ())"
    "put_block_batch env (finalized (fst p)) (snd p) (in_db ix) = Inr db1" .
  have "unat (bh_block_id (bk_header (fst p))) = length bs + 1"
    using Cons.prems(3) unfolding consecutive_def by (elim allE [of _ "length bs"]) simp
  from store_next_indexing [OF Cons.prems(2) this ap] st
  have "indexing env s0 d (bs @ [finalized (fst p)]) ix1" by auto
  moreover have "consecutive ((bs @ [finalized (fst p)]) @ map fst ps)"
    using Cons.prems(3) unfolding consecutive_def by (auto simp: nth_append nth_Cons' split: if_splits)
  ultimately have "indexing env s0 d ((bs @ [finalized (fst p)]) @ map (finalized \<circ> fst) ps) ix'" by (rule Cons.IH [OF rest])
  then show ?case by (simp add: comp_def)
qed simp

lemma open_empty: "indexer_open_db env s0 empty_indexer_db = Inr \<lparr> in_db = open_or_create s0 empty_indexer_db, in_state = s0 \<rparr>"
  by (simp add: indexer_open_db_def final_state_def calculate_state_for_id_def closest_breakpoint_id_def BREAKPOINT_INTERVAL_def
      open_or_create_def empty_indexer_db_def get_cell_def id_range_def get_block_batch_seq_def checked_mul_def checked_add_def Let_def)

lemma open_empty_indexing:
  "indexer_open_db env s0 empty_indexer_db = Inr ix \<Longrightarrow> indexing env s0 0 [] ix"
  unfolding open_empty
  by (auto simp: indexing_def indexed_def open_or_create_def empty_indexer_db_def breakpoint_after_def
      unat_eq_zero intro!: exI [of _ 0])

lemma final_state_indexing:
  assumes "indexing env s0 d bs ix"
  shows "(length bs - 1) div 100 \<le> max d (length bs div 100 - d) \<Longrightarrow> final_state env (in_db ix) = Inr (in_state ix)"
    and "max d (length bs div 100 - d) < (length bs - 1) div 100
      \<Longrightarrow> final_state env (in_db ix) = Inl (IxDb (cell_missing ''breakpoint''))"
proof -
  let ?n = "case ix_last_block (in_db ix) of None \<Rightarrow> 0 | Some n \<Rightarrow> n"
  from assms obtain j :: u64 where j: "indexed env s0 (max d (unat j)) bs (in_state ix) (in_db ix)"
    "unat j + d = length bs div 100" by (auto simp: indexing_def)
  then have n: "unat ?n = length bs" and uj: "unat j = length bs div 100 - d" and rep: "replay env bs s0 = Inr (in_state ix)"
    by (auto simp: indexed_def)
  show "final_state env (in_db ix) = Inr (in_state ix)" if "(length bs - 1) div 100 \<le> max d (length bs div 100 - d)"
    using calculate_indexed [OF j(1), of ?n] that n uj rep by (simp add: final_state_def)
  assume "max d (length bs div 100 - d) < (length bs - 1) div 100"
  then have "ix_breakpoints (in_db ix) (closest_breakpoint_id ?n) = None"
    using j(1) n uj by (auto simp: indexed_def unat_closest le_max_iff_disj)
  then show "final_state env (in_db ix) = Inl (IxDb (cell_missing ''breakpoint''))"
    by (simp add: final_state_def calculate_state_for_id_def get_cell_def Let_def)
qed

lemma open_final:
  assumes "indexing env s0 d bs ix"
  shows "final_state env (open_or_create s0 (in_db ix)) = final_state env (in_db ix)"
proof -
  have "ix_breakpoints (in_db ix) 0 = Some s0" using assms by (auto simp: indexing_def indexed_def breakpoint_after_def)
  then have "(ix_breakpoints (in_db ix))(0 \<mapsto> s0) = ix_breakpoints (in_db ix)" by auto
  then show ?thesis by (simp add: final_state_def calculate_state_for_id_def get_block_batch_seq_def open_or_create_def)
qed

lemma reopen_indexing:
  assumes "indexing env s0 0 bs ix"
  obtains ix' where "indexer_open_db env s0 (in_db ix) = Inr ix'" "in_state ix' = in_state ix" "indexing env s0 (length bs div 100) bs ix'"
    "ix_acc_num_tx (in_db ix') = ix_acc_num_tx (in_db ix)"
proof -
  let ?ix = "\<lparr> in_db = open_or_create s0 (in_db ix), in_state = in_state ix \<rparr>"
  from assms obtain j :: u64 where j: "indexed env s0 (unat j) bs (in_state ix) (in_db ix)" "unat j = length bs div 100"
    by (auto simp: indexing_def)
  then have "indexed env s0 (length bs div 100) bs (in_state ix) (open_or_create s0 (in_db ix))"
    by (auto simp: indexed_def open_or_create_def breakpoint_after_def)
  then have ix: "indexing env s0 (length bs div 100) bs ?ix"
    by (auto simp: indexing_def open_or_create_def intro!: exI [of _ 0])
  then have "indexer_open_db env s0 (in_db ix) = Inr ?ix"
    using final_state_indexing(1) [OF ix] div_le_mono [of "length bs - 1" "length bs" 100] by (simp add: indexer_open_db_def Let_def)
  with ix that show thesis by (simp add: open_or_create_def)
qed

lemma consecutive_appendD: "consecutive (bs @ cs) \<Longrightarrow> consecutive bs"
  by (auto simp: consecutive_def nth_append split: if_splits)



section \<open>A small chain\<close>

definition toy_block :: "nat \<Rightarrow> block" where
  "toy_block n = \<lparr> bk_header = \<lparr> bh_block_id = word_of_nat n, bh_prev_block_hash = [], bh_hash = [], bh_timestamp = 0, bh_signature = [] \<rparr>,
     bk_transactions = [TxPublic (node_clock_tx toy_env 0)], bk_bedrock_status = Pending \<rparr>"

definition toy_blocks :: "nat \<Rightarrow> nat \<Rightarrow> (block \<times> bytes) list" where
  "toy_blocks k n = map (\<lambda>i. (toy_block (Suc i), [])) [k ..< k + n]"

definition toy_clock_at :: "nat \<Rightarrow> v03_state \<Rightarrow> bool" where
  "toy_clock_at n s \<longleftrightarrow> (\<exists>ts. clock_ready toy_builtins \<lparr> cad_block_id = word_of_nat n, cad_timestamp = ts \<rparr> s)"

lemma toy_block_applies:
  assumes "toy_clock_at n s" "n + 1 < 2 ^ 64"
  obtains s' where "apply_block toy_env (toy_block (Suc n)) s = (s', Inr ())" "toy_clock_at (Suc n) s'"
proof -
  from assms(1) obtain t where "clock_ready (ne_builtins toy_env) \<lparr> cad_block_id = word_of_nat n, cad_timestamp = t \<rparr> s"
    by (auto simp: toy_clock_at_def toy_env_def)
  then obtain s' where s': "transition_from_public_transaction (ne_runtime toy_env) (node_clock_tx toy_env 0) s (word_of_nat (Suc n)) 0 = Inr (Some s')"
    "clock_ready (ne_builtins toy_env) \<lparr> cad_block_id = word_of_nat n + 1, cad_timestamp = 0 \<rparr> s'"
    unfolding node_clock_tx_def
    by (rule clock_tick [OF _ toy_runs_clock]) (use assms(2) in \<open>auto simp: unat_of_nat\<close>)
  from s'(1) have "apply_block toy_env (toy_block (Suc n)) s = (s', Inr ())"
    by (simp add: apply_block_def toy_block_def Let_def)
  moreover from s'(2) have "toy_clock_at (Suc n) s'"
    by (auto simp: toy_clock_at_def toy_env_def add.commute)
  ultimately show thesis by (rule that)
qed

definition counts_upto :: "nat \<Rightarrow> indexer \<Rightarrow> bool" where
  "counts_upto n ix \<longleftrightarrow> (\<forall>a. unat (acc_num_tx (in_db ix) a) \<le> n)"

lemma toy_batch:
  assumes "counts_upto n ix" "n + 1 < 2 ^ 64"
  obtains db1 where "put_block_batch toy_env (finalized (toy_block k)) l1 (in_db ix) = Inr db1"
proof -
  have "length (acc_to_tx_map toy_env (finalized (toy_block k)) a) \<le> 1" for a
    by (simp add: acc_to_tx_map_def finalized_def toy_block_def)
  then have "has_room (in_db ix) (acc_to_tx_map toy_env (finalized (toy_block k))) a" for a
    using assms unfolding has_room_def counts_upto_def by (meson add_mono le_less_trans)
  with that show thesis by (simp add: put_block_batch_Inr)
qed

lemma toy_counts:
  assumes "store_next toy_env (toy_block k, l1) ix = Inr ix'" "counts_upto n ix" "n + 1 < 2 ^ 64"
  shows "counts_upto (Suc n) ix'"
  unfolding counts_upto_def
proof
  fix a
  let ?h = "length (acc_to_tx_map toy_env (finalized (toy_block k)) a)"
  from store_next_effect [OF assms(1)] obtain db1 where
    "put_block_batch toy_env (finalized (toy_block k)) l1 (in_db ix) = Inr db1" "ix_acc_num_tx (in_db ix') = ix_acc_num_tx db1"
    by auto
  then have "acc_num_tx (in_db ix') a = acc_num_tx (in_db ix) a \<or> acc_num_tx (in_db ix') a = acc_num_tx (in_db ix) a + word_of_nat ?h"
    by (auto simp: put_block_batch_Inr index_accounts_def put_block_cells_def acc_num_tx_def Let_def)
  moreover have "?h \<le> 1" by (simp add: acc_to_tx_map_def finalized_def toy_block_def)
  moreover have "unat (acc_num_tx (in_db ix) a) \<le> n" using assms(2) by (simp add: counts_upto_def)
  ultimately show "unat (acc_num_tx (in_db ix') a) \<le> Suc n"
    using assms(3) by (auto simp: unat_word_ariths unat_of_nat le_Suc_eq)
qed

lemma toy_blocks_stored:
  assumes "indexing toy_env toy_state d bs ix" "toy_clock_at (length bs) (in_state ix)" "length bs + n < 2 ^ 64"
    and "counts_upto (length bs) ix"
  obtains ix' cs where "fold_res (store_next toy_env) (toy_blocks (length bs) n) ix = Inr ix'"
    "indexing toy_env toy_state d (bs @ cs) ix'" "length cs = n" "toy_clock_at (length bs + n) (in_state ix')"
    "counts_upto (length bs + n) ix'"
  using assms
proof (induction n arbitrary: bs ix thesis)
  case 0
  then show ?case by (auto simp: toy_blocks_def)
next
  case (Suc n)
  obtain s' where s': "apply_block toy_env (toy_block (Suc (length bs))) (in_state ix) = (s', Inr ())" "toy_clock_at (Suc (length bs)) s'"
    by (rule toy_block_applies [OF Suc.prems(3)]) (use Suc.prems(4) in simp_all)
  have id: "unat (bh_block_id (bk_header (toy_block (Suc (length bs))))) = length bs + 1"
    using Suc.prems(4) by (simp add: toy_block_def unat_of_nat del: of_nat_Suc)
  obtain db1 where db1: "put_block_batch toy_env (finalized (toy_block (Suc (length bs)))) [] (in_db ix) = Inr db1"
    by (rule toy_batch [OF Suc.prems(5)]) (use Suc.prems(4) in simp_all)
  from store_next_indexing [OF Suc.prems(2) id s'(1) db1] obtain ix1 where
    ix1: "store_next toy_env (toy_block (Suc (length bs)), []) ix = Inr ix1" "in_state ix1 = s'"
      "indexing toy_env toy_state d (bs @ [finalized (toy_block (Suc (length bs)))]) ix1" .
  have tb: "toy_blocks (length bs) (Suc n) = (toy_block (Suc (length bs)), []) # toy_blocks (Suc (length bs)) n"
    by (simp add: toy_blocks_def upt_conv_Cons del: upt_Suc)
  have counts: "counts_upto (Suc (length bs)) ix1" by (rule toy_counts [OF ix1(1) Suc.prems(5)]) (use Suc.prems(4) in simp)
  obtain ix' cs where r: "fold_res (store_next toy_env) (toy_blocks (Suc (length bs)) n) ix1 = Inr ix'"
    "indexing toy_env toy_state d ((bs @ [finalized (toy_block (Suc (length bs)))]) @ cs) ix'" "length cs = n"
    "toy_clock_at (Suc (length bs) + n) (in_state ix')" "counts_upto (Suc (length bs) + n) ix'"
    by (rule Suc.IH [OF _ ix1(3)]) (use s'(2) ix1(2) counts Suc.prems(4) in simp_all)
  show ?case
    by (rule Suc.prems(1) [of ix' "finalized (toy_block (Suc (length bs))) # cs"]) (use r ix1(1) tb in simp_all)
qed

lemma toy_blocks_append: "toy_blocks 0 k @ toy_blocks k n = toy_blocks 0 (k + n)"
  using upt_add_eq_append [of 0 k n] by (simp add: toy_blocks_def)

lemma toy_consecutive: "n < 2 ^ 64 \<Longrightarrow> consecutive (map fst (toy_blocks 0 n))"
  by (auto simp: consecutive_def toy_blocks_def toy_block_def unat_of_nat simp del: of_nat_Suc)

lemma toy_opened:
  obtains ix where "indexer_open_db toy_env toy_state empty_indexer_db = Inr ix" "indexing toy_env toy_state 0 [] ix"
    "toy_clock_at 0 (in_state ix)" "counts_upto 0 ix"
proof -
  obtain ix where ix: "indexer_open_db toy_env toy_state empty_indexer_db = Inr ix" by (simp add: open_empty)
  moreover from ix have "toy_clock_at 0 (in_state ix)"
    unfolding open_empty toy_clock_at_def using toy_clock_ready by auto
  moreover from ix have "counts_upto 0 ix"
    unfolding open_empty by (auto simp: counts_upto_def acc_num_tx_def open_or_create_def empty_indexer_db_def)
  ultimately show thesis using that open_empty_indexing by blast
qed



end
