(* ===== verification/Account_Index.thy ===== *)
theory Account_Index
  imports Breakpoints
begin

text \<open>
  The index from accounts to transactions: a query returns exactly the part it asks for of the
  transactions that affect the account, in the order of the chain.
\<close>

definition chain_transactions :: "block list \<Rightarrow> lee_transaction list" where
  "chain_transactions bs = concat (map bk_transactions bs)"

definition account_hashes :: "node_env \<Rightarrow> block list \<Rightarrow> account_id \<Rightarrow> bytes list" where
  "account_hashes env bs a = map (lee_hash env) (filter (affects env a) (chain_transactions bs))"

definition accounts_indexed :: "node_env \<Rightarrow> block list \<Rightarrow> indexer_db \<Rightarrow> bool" where
  "accounts_indexed env bs db \<longleftrightarrow>
     (\<forall>a. unat (acc_num_tx db a) = length (account_hashes env bs a)
       \<and> (\<forall>w. ix_acc_to_tx db (a, w) = nth_opt (account_hashes env bs a) (unat w)))
   \<and> (\<forall>t \<in> set (chain_transactions bs). \<exists>i. ix_tx_to_id db (lee_hash env t) = Some i \<and> 1 \<le> unat i \<and> unat i \<le> length bs
       \<and> lee_hash env t \<in> lee_hash env ` set (bk_transactions (bs ! (unat i - 1))))"

lemma account_hashes_append:
  "account_hashes env (bs @ [b]) a = account_hashes env bs a @ acc_to_tx_map env b a"
  by (simp add: account_hashes_def chain_transactions_def acc_to_tx_map_def)

lemma not_affected: "a \<notin> set (affected_accounts env b) \<Longrightarrow> acc_to_tx_map env b a = []"
  using finite_affected [of "ne_runtime env" "bk_transactions b"]
  by (auto simp: affected_accounts_def acc_to_tx_map_def affects_def filter_empty_conv)

lemma fold_tx_ids:
  "fold (\<lambda>t m. m(lee_hash env t \<mapsto> i)) ts m = (\<lambda>h. if h \<in> lee_hash env ` set ts then Some i else m h)"
  by (induction ts arbitrary: m) (auto simp: fun_eq_iff)

lemma put_block_cells_sel:
  "ix_acc_num_tx (put_block_cells env b l1 db) = ix_acc_num_tx db" "ix_acc_to_tx (put_block_cells env b l1 db) = ix_acc_to_tx db"
  "ix_tx_to_id (put_block_cells env b l1 db) =
     (\<lambda>h. if h \<in> lee_hash env ` set (bk_transactions b) then Some (bh_block_id (bk_header b)) else ix_tx_to_id db h)"
  by (simp_all add: put_block_cells_def Let_def fold_tx_ids fun_eq_iff)

lemma index_accounts_sel:
  "ix_acc_num_tx (index_accounts db hs A batch) a =
     (if a \<in> A then Some (acc_num_tx db a + word_of_nat (length (hs a))) else ix_acc_num_tx batch a)"
  "ix_acc_to_tx (index_accounts db hs A batch) (a, w) =
     (if a \<in> A \<and> unat (w - acc_num_tx db a) < length (hs a) then Some (hs a ! unat (w - acc_num_tx db a)) else ix_acc_to_tx batch (a, w))"
  "ix_tx_to_id (index_accounts db hs A batch) = ix_tx_to_id batch"
  by (simp_all add: index_accounts_def)

text \<open>A position behind the counter, on words.\<close>

lemma position_split:
  fixes w n :: u64
  assumes "unat n + k < 2 ^ 64"
  shows "unat (w - n) < k \<longleftrightarrow> unat n \<le> unat w \<and> unat w - unat n < k"
    and "unat n \<le> unat w \<Longrightarrow> unat (w - n) = unat w - unat n"
proof -
  show 1: "unat n \<le> unat w \<Longrightarrow> unat (w - n) = unat w - unat n" by (rule unat_sub) (simp add: word_le_nat_alt)
  have "unat (w - n) \<ge> k" if "unat w < unat n"
  proof -
    have "unat (w - n) = unat w + 2 ^ 64 - unat n"
      using that by (simp add: unat_sub_if' word_less_nat_alt)
    with assms show ?thesis by linarith
  qed
  with 1 show "unat (w - n) < k \<longleftrightarrow> unat n \<le> unat w \<and> unat w - unat n < k" by (metis leD not_le)
qed

lemma index_accounts_counts:
  assumes "accounts_indexed env bs db" "put_block_batch env b l1 db = Inr db'"
  shows "unat (acc_num_tx db' a) = length (account_hashes env (bs @ [b]) a)"
    and "ix_acc_to_tx db' (a, w) = nth_opt (account_hashes env (bs @ [b]) a) (unat w)"
proof -
  let ?n = "acc_num_tx db a" and ?new = "acc_to_tx_map env b a"
  have old: "unat ?n = length (account_hashes env bs a)" "\<And>w. ix_acc_to_tx db (a, w) = nth_opt (account_hashes env bs a) (unat w)"
    using assms(1) by (auto simp: accounts_indexed_def)
  note db' = assms(2) [unfolded put_block_batch_Inr]
  show "unat (acc_num_tx db' a) = length (account_hashes env (bs @ [b]) a)"
  proof (cases "a \<in> set (affected_accounts env b)")
    case True
    then have "acc_num_tx db' a = ?n + word_of_nat (length ?new)" "unat ?n + length ?new < 2 ^ 64"
      using db' by (auto simp: index_accounts_sel acc_num_tx_def has_room_def)
    then show ?thesis using old(1) by (simp add: account_hashes_append unat_word_ariths unat_of_nat)
  next
    case False
    then have "acc_num_tx db' a = ?n" using db' by (simp add: index_accounts_sel acc_num_tx_def put_block_cells_sel)
    then show ?thesis using old(1) not_affected [OF False] by (simp add: account_hashes_append)
  qed
  show "ix_acc_to_tx db' (a, w) = nth_opt (account_hashes env (bs @ [b]) a) (unat w)"
  proof (cases "a \<in> set (affected_accounts env b)")
    case True
    then have room: "unat ?n + length ?new < 2 ^ 64" using db' by (auto simp: has_room_def)
    have "ix_acc_to_tx db' (a, w) = (if unat (w - ?n) < length ?new then Some (?new ! unat (w - ?n)) else ix_acc_to_tx db (a, w))"
      using db' True by (simp add: index_accounts_sel put_block_cells_sel)
    then show ?thesis
      using position_split [OF room, of w] old by (auto simp: account_hashes_append nth_opt_def nth_append)
  next
    case False
    then have "ix_acc_to_tx db' (a, w) = ix_acc_to_tx db (a, w)" using db' by (simp add: index_accounts_sel put_block_cells_sel)
    then show ?thesis using old not_affected [OF False] by (simp add: account_hashes_append)
  qed
qed

lemma batch_accounts_indexed:
  assumes "accounts_indexed env bs db" "put_block_batch env b l1 db = Inr db'" "unat (bh_block_id (bk_header b)) = length bs + 1"
  shows "accounts_indexed env (bs @ [b]) db'"
proof -
  let ?i = "bh_block_id (bk_header b)"
  have ids: "ix_tx_to_id db' = (\<lambda>h. if h \<in> lee_hash env ` set (bk_transactions b) then Some ?i else ix_tx_to_id db h)"
    using assms(2) by (simp add: put_block_batch_Inr index_accounts_sel put_block_cells_sel)
  have "\<exists>i. ix_tx_to_id db' (lee_hash env t) = Some i \<and> 1 \<le> unat i \<and> unat i \<le> length (bs @ [b])
      \<and> lee_hash env t \<in> lee_hash env ` set (bk_transactions ((bs @ [b]) ! (unat i - 1)))"
    if t: "t \<in> set (chain_transactions (bs @ [b]))" for t
  proof (cases "lee_hash env t \<in> lee_hash env ` set (bk_transactions b)")
    case True
    with assms(3) show ?thesis by (simp add: ids)
  next
    case False
    with t have "t \<in> set (chain_transactions bs)" by (auto simp: chain_transactions_def)
    with assms(1) obtain i where "ix_tx_to_id db (lee_hash env t) = Some i" "1 \<le> unat i" "unat i \<le> length bs"
      "lee_hash env t \<in> lee_hash env ` set (bk_transactions (bs ! (unat i - 1)))" by (auto simp: accounts_indexed_def)
    with False show ?thesis by (intro exI [of _ i]) (simp add: ids nth_append)
  qed
  with index_accounts_counts [OF assms(1,2)] show ?thesis unfolding accounts_indexed_def by blast
qed

lemma accounts_run:
  assumes "fold_res (store_next env) ps ix = Inr ix'" "accounts_indexed env bs (in_db ix)" "consecutive (bs @ map fst ps)"
  shows "accounts_indexed env (bs @ map (finalized \<circ> fst) ps) (in_db ix')"
  using assms
proof (induction ps arbitrary: bs ix)
  case (Cons p ps)
  from Cons.prems(1) obtain ix1 where st: "store_next env p ix = Inr ix1" and rest: "fold_res (store_next env) ps ix1 = Inr ix'"
    by (auto simp: res_simps)
  from store_next_effect [OF st] obtain db1 where
    db1: "put_block_batch env (finalized (fst p)) (snd p) (in_db ix) = Inr db1" "ix_acc_num_tx (in_db ix1) = ix_acc_num_tx db1"
      "ix_acc_to_tx (in_db ix1) = ix_acc_to_tx db1" "ix_tx_to_id (in_db ix1) = ix_tx_to_id db1" .
  have "unat (bh_block_id (bk_header (finalized (fst p)))) = length bs + 1"
    using Cons.prems(3) unfolding consecutive_def by (elim allE [of _ "length bs"]) simp
  from batch_accounts_indexed [OF Cons.prems(2) db1(1) this] have "accounts_indexed env (bs @ [finalized (fst p)]) (in_db ix1)"
    using db1(2-4) by (simp add: accounts_indexed_def acc_num_tx_def)
  moreover have "consecutive ((bs @ [finalized (fst p)]) @ map fst ps)"
    using Cons.prems(3) unfolding consecutive_def by (auto simp: nth_append nth_Cons' split: if_splits)
  ultimately have "accounts_indexed env ((bs @ [finalized (fst p)]) @ map (finalized \<circ> fst) ps) (in_db ix')" by (rule Cons.IH [OF rest])
  then show ?case by (simp add: comp_def)
qed simp

section \<open>Queries\<close>

lemma take_found_cong: "(\<And>k. k \<in> set ks \<Longrightarrow> f k = g k) \<Longrightarrow> take_found f ks = take_found g ks"
  by (induction ks) (simp_all split: option.splits)

lemma find_only:
  assumes "x \<in> set xs" "P x" "\<And>y. y \<in> set xs \<Longrightarrow> P y \<Longrightarrow> y = x"
  shows "List.find P xs = Some x"
proof (cases "List.find P xs")
  case None
  with assms(1,2) show ?thesis by (simp add: find_None_iff)
next
  case (Some y)
  then have "y \<in> set xs" "P y" by (auto simp: find_Some_iff)
  with assms(3) Some show ?thesis by simp
qed

lemma take_found_nth: "take_found (nth_opt xs) [a ..< a + n] = take n (drop a xs)"
proof (induction n arbitrary: a)
  case (Suc n)
  have "[a ..< a + Suc n] = a # [Suc a ..< Suc a + n]" by (simp add: upt_conv_Cons del: upt_Suc)
  with Suc [of "Suc a"] show ?case by (cases "a < length xs") (simp_all add: nth_opt_def Cons_nth_drop_Suc [symmetric])
qed simp

lemma query_hashes:
  assumes "accounts_indexed env bs db" "unat off + unat lim < 2 ^ 64"
  shows "get_acc_transaction_hashes a off lim db = Inr (take (unat lim) (drop (unat off) (account_hashes env bs a)))"
proof -
  have u: "unat (off + lim) = unat off + unat lim" using assms(2) by (simp add: unat_word_ariths)
  have "take_found (\<lambda>n. ix_acc_to_tx db (a, word_of_nat n)) [unat off ..< unat off + unat lim]
      = take_found (nth_opt (account_hashes env bs a)) [unat off ..< unat off + unat lim]"
    by (rule take_found_cong) (use assms in \<open>auto simp: accounts_indexed_def unat_of_nat\<close>)
  then show ?thesis
    using assms(2) by (simp add: get_acc_transaction_hashes_def checked_add_def u take_found_nth)
qed

lemma query_transactions:
  assumes "accounts_indexed env bs db" "\<And>i. 1 \<le> unat i \<Longrightarrow> unat i \<le> length bs \<Longrightarrow> ix_blocks db i = Some (bs ! (unat i - 1))"
    and "inj_on (lee_hash env) (set (chain_transactions bs))" "set ts \<subseteq> set (chain_transactions bs)"
  shows "\<exists>is. get_block_ids_by_tx_vec (map (lee_hash env) ts) db = Inr is
    \<and> map_res (find_transaction env) (zip (get_block_batch_seq db is) (map (lee_hash env) ts)) = Inr ts"
  using assms(4)
proof (induction ts)
  case (Cons t ts)
  then obtain "is" where IH: "get_block_ids_by_tx_vec (map (lee_hash env) ts) db = Inr is"
    "map_res (find_transaction env) (zip (get_block_batch_seq db is) (map (lee_hash env) ts)) = Inr ts" by auto
  from Cons.prems assms(1) obtain i where i: "ix_tx_to_id db (lee_hash env t) = Some i" "1 \<le> unat i" "unat i \<le> length bs"
    "lee_hash env t \<in> lee_hash env ` set (bk_transactions (bs ! (unat i - 1)))" by (auto simp: accounts_indexed_def)
  let ?b = "bs ! (unat i - 1)"
  have "ix_blocks db i = Some ?b" using assms(2) i by simp
  moreover have "find_transaction env (?b, lee_hash env t) = Inr t"
  proof -
    have "?b \<in> set bs" by (rule nth_mem) (use i(2,3) in linarith)
    then have "set (bk_transactions ?b) \<subseteq> set (chain_transactions bs)" by (auto simp: chain_transactions_def)
    with assms(3) Cons.prems have same: "u = t" if "u \<in> set (bk_transactions ?b)" "lee_hash env u = lee_hash env t" for u
      using that by (auto dest: inj_onD)
    moreover from same i(4) have "t \<in> set (bk_transactions ?b)" by force
    ultimately have "List.find (\<lambda>u. lee_hash env u = lee_hash env t) (bk_transactions ?b) = Some t" by (intro find_only) simp_all
    then show ?thesis by (simp add: find_transaction_def)
  qed
  ultimately show ?case
    using IH i(1) by (intro exI [of _ "i # is"]) (simp add: get_block_batch_seq_def)
qed (simp add: get_block_batch_seq_def)

text \<open>
  C22: the history of an account is complete.  After storing consecutive blocks, a query for the
  transactions of an account returns the requested part, from an offset and up to a limit, of
  exactly the transactions of the chain that affect the account, in order, when transactions of
  the chain do not collide under the hash.
\<close>

theorem account_query_exact:
  assumes "indexer_open_db env s0 empty_indexer_db = Inr ix0" "fold_res (store_next env) ps ix0 = Inr ix"
    and "consecutive (map fst ps)" "unat off + unat lim < 2 ^ 64"
    and "inj_on (lee_hash env) (set (chain_transactions (map fst ps)))"
  shows "get_acc_transactions env a off lim (in_db ix) =
    Inr (take (unat lim) (drop (unat off) (filter (affects env a) (chain_transactions (map fst ps)))))"
proof -
  let ?bs = "map (finalized \<circ> fst) ps" and ?all = "chain_transactions (map fst ps)"
  let ?ts = "take (unat lim) (drop (unat off) (filter (affects env a) ?all))"
  have all: "chain_transactions ?bs = ?all" by (simp add: chain_transactions_def finalized_def comp_def)
  have "accounts_indexed env [] (in_db ix0)"
    using assms(1) unfolding open_empty
    by (auto simp: accounts_indexed_def account_hashes_def chain_transactions_def open_or_create_def empty_indexer_db_def acc_num_tx_def nth_opt_def)
  from accounts_run [OF assms(2) this] assms(3) have acc: "accounts_indexed env ?bs (in_db ix)" by simp
  have "indexing env s0 0 ?bs ix" using index_run [OF assms(2) open_empty_indexing [OF assms(1)]] assms(3) by simp
  then have blocks: "ix_blocks (in_db ix) i = Some (?bs ! (unat i - 1))" if "1 \<le> unat i" "unat i \<le> length ?bs" for i
    using that by (auto simp: indexing_def indexed_def)
  have "set ?ts \<subseteq> set (chain_transactions ?bs)" unfolding all by (auto dest!: in_set_takeD in_set_dropD)
  from query_transactions [OF acc blocks _ this] assms(5) all obtain "is" where
    "get_block_ids_by_tx_vec (map (lee_hash env) ?ts) (in_db ix) = Inr is"
    "map_res (find_transaction env) (zip (get_block_batch_seq (in_db ix) is) (map (lee_hash env) ?ts)) = Inr ?ts" by auto
  moreover have "get_acc_transaction_hashes a off lim (in_db ix) = Inr (map (lee_hash env) ?ts)"
    using query_hashes [OF acc assms(4)] by (simp add: account_hashes_def all take_map drop_map)
  ultimately show ?thesis by (simp add: get_acc_transactions_def)
qed

theorem account_query_exact_witness:
  "\<exists>ix0 ix. indexer_open_db toy_env toy_state empty_indexer_db = Inr ix0
    \<and> fold_res (store_next toy_env) (toy_blocks 0 3) ix0 = Inr ix
    \<and> get_acc_transactions toy_env CLOCK_10_PROGRAM_ACCOUNT_ID 1 5 (in_db ix) = Inr (replicate 2 (TxPublic (node_clock_tx toy_env 0)))"
proof (rule toy_opened)
  fix ix0 assume o: "indexer_open_db toy_env toy_state empty_indexer_db = Inr ix0" "indexing toy_env toy_state 0 [] ix0"
    "toy_clock_at 0 (in_state ix0)" "counts_upto 0 ix0"
  obtain ix where ix: "fold_res (store_next toy_env) (toy_blocks 0 3) ix0 = Inr ix"
    by (rule toy_blocks_stored [OF o(2), of 3]) (use o(3,4) in simp_all)
  have txs: "chain_transactions (map fst (toy_blocks 0 3)) = replicate 3 (TxPublic (node_clock_tx toy_env 0))"
    by (simp add: chain_transactions_def toy_blocks_def toy_block_def upt_rec numeral_eq_Suc)
  have "affects toy_env CLOCK_10_PROGRAM_ACCOUNT_ID (TxPublic (node_clock_tx toy_env 0))"
    by (simp add: affects_def lee_affected_public_account_ids_def affected_public_account_ids_def node_clock_tx_def
        clock_invocation_def CLOCK_PROGRAM_ACCOUNT_IDS_def)
  then have f: "filter (affects toy_env CLOCK_10_PROGRAM_ACCOUNT_ID) (chain_transactions (map fst (toy_blocks 0 3)))
      = replicate 3 (TxPublic (node_clock_tx toy_env 0))" by (simp add: txs)
  have "get_acc_transactions toy_env CLOCK_10_PROGRAM_ACCOUNT_ID 1 5 (in_db ix) = Inr (take (unat (5 :: u64)) (drop (unat (1 :: u64))
      (filter (affects toy_env CLOCK_10_PROGRAM_ACCOUNT_ID) (chain_transactions (map fst (toy_blocks 0 3))))))"
    by (rule account_query_exact [OF o(1) ix toy_consecutive]) (simp_all add: txs)
  then have "get_acc_transactions toy_env CLOCK_10_PROGRAM_ACCOUNT_ID 1 5 (in_db ix) = Inr (replicate 2 (TxPublic (node_clock_tx toy_env 0)))"
    unfolding f by simp
  with o(1) ix show ?thesis by blast
qed

end
