(* ===== verification/Chain_Index.thy ===== *)
theory Chain_Index
  imports Prelude "HOL-Library.Multiset"
begin

text \<open>
  The paths of keys in the key trees of a wallet
  (\<open>lee/key_protocol/src/key_management/key_tree/chain_index.rs\<close>): their textual form, the
  steps between neighbouring paths, and the enumeration of all paths of a depth.  Numbers are read
  and printed as the standard library does it.  The permutations of a list and the removal of
  duplicates are library functions and so parameters; \<open>itertools_ok\<close> is what their documentation
  says.
\<close>

section \<open>Numbers\<close>

datatype int_error_kind = IntEmpty | InvalidDigit | PosOverflow

definition to_digit :: "char \<Rightarrow> u32 option" where
  "to_digit c = (let k = of_char c :: nat in if 48 \<le> k \<and> k \<le> 57 then Some (of_nat (k - 48)) else None)"

fun parse_digits :: "string \<Rightarrow> u32 \<Rightarrow> (int_error_kind, u32) result" where
  "parse_digits [] n = Inr n"
| "parse_digits (c # cs) n =
     expect (to_digit c) InvalidDigit (\<lambda>d.
     expect (checked_mul n 10) PosOverflow (\<lambda>n.
     expect (checked_add n d) PosOverflow (\<lambda>n.
     parse_digits cs n)))"

definition parse_u32 :: "string \<Rightarrow> (int_error_kind, u32) result" where
  "parse_u32 s =
     (if s = [] then Inl IntEmpty
      else if s = ''+'' \<or> s = ''-'' then Inl InvalidDigit
      else parse_digits (if hd s = CHR ''+'' then tl s else s) 0)"

definition digit_char :: "nat \<Rightarrow> char" where
  "digit_char d = char_of (48 + d)"

fun show_nat :: "nat \<Rightarrow> string" where
  "show_nat n = (if n < 10 then [digit_char n] else show_nat (n div 10) @ [digit_char (n mod 10)])"

declare show_nat.simps [simp del]

definition show_u32 :: "u32 \<Rightarrow> string" where
  "show_u32 n = show_nat (unat n)"

section \<open>Paths\<close>

type_synonym chain_index = "u32 list"

datatype chain_index_error = NoRootFound | ParseIntError int_error_kind

text \<open>\<open>str::split\<close>: a separator at either end gives an empty part.\<close>

fun split_on :: "char \<Rightarrow> string \<Rightarrow> string list" where
  "split_on sep [] = [[]]"
| "split_on sep (c # cs) = (if c = sep then [] # split_on sep cs
     else (case split_on sep cs of [] \<Rightarrow> [[c]] | p # ps \<Rightarrow> (c # p) # ps))"

fun parse_segments :: "string list \<Rightarrow> (chain_index_error, chain_index) result" where
  "parse_segments [] = Inr []"
| "parse_segments (s # ss) =
     rbind (map_err ParseIntError (parse_u32 s)) (\<lambda>cci.
     rbind (parse_segments ss) (\<lambda>res. Inr (cci # res)))"

definition chain_index_from_str :: "string \<Rightarrow> (chain_index_error, chain_index) result" where
  "chain_index_from_str s =
     (if \<not> (s \<noteq> [] \<and> hd s = CHR ''/'') then Inl NoRootFound
      else if s = ''/'' then Inr []
      else parse_segments (split_on CHR ''/'' (tl s)))"

definition chain_index_display :: "chain_index \<Rightarrow> string" where
  "chain_index_display c =
     ''/'' @ concat (map (\<lambda>cci. show_u32 cci @ ''/'') (butlast c))
       @ (if c = [] then [] else show_u32 (last c))"

definition root :: chain_index where
  "root = []"

definition next_in_line :: "chain_index \<Rightarrow> chain_index option" where
  "next_in_line c =
     (if c = [] then Some c
      else map_option (\<lambda>l. butlast c @ [l]) (checked_add (last c) 1))"

definition previous_in_line :: "chain_index \<Rightarrow> chain_index option" where
  "previous_in_line c =
     (if c = [] then Some c
      else map_option (\<lambda>l. butlast c @ [l]) (checked_sub (last c) 1))"

definition parent :: "chain_index \<Rightarrow> chain_index option" where
  "parent c = (if c = [] then None else Some (butlast c))"

definition nth_child :: "chain_index \<Rightarrow> u32 \<Rightarrow> chain_index" where
  "nth_child c child_id = c @ [child_id]"

text \<open>\<open>sum\<close> adds with the plain operator of the build profile \<open>oc\<close>.\<close>

fun depth_sum :: "bool \<Rightarrow> chain_index \<Rightarrow> u32 \<Rightarrow> (string, u32) result" where
  "depth_sum oc [] n = Inr n"
| "depth_sum oc (cci # c) n =
     expect (checked_add cci 1) ''Max cci reached'' (\<lambda>m.
     expect (op_add oc n m) ''attempt to add with overflow'' (\<lambda>n.
     depth_sum oc c n))"

definition depth :: "bool \<Rightarrow> chain_index \<Rightarrow> (string, u32) result" where
  "depth oc c = depth_sum oc c 0"

definition collapse_back :: "chain_index \<Rightarrow> chain_index option" where
  "collapse_back c =
     Option.bind (parent c) (\<lambda>res.
     if res = [] then None
     else Option.bind (checked_add (last c) 1) (\<lambda>m.
          Option.bind (checked_add (last res) m) (\<lambda>l.
          Some (butlast res @ [l]))))"

section \<open>The paths of a depth\<close>

record itertools =
  it_permutations :: "u32 list \<Rightarrow> u32 list list"
  it_unique :: "chain_index list \<Rightarrow> chain_index list"

definition itertools_ok :: "itertools \<Rightarrow> bool" where
  "itertools_ok it \<longleftrightarrow> (\<forall>xs. set (it_permutations it xs) = {ys. mset ys = mset xs})
     \<and> (\<forall>cs. set (it_unique it cs) = set cs \<and> distinct (it_unique it cs))"

definition shuffle_iter :: "itertools \<Rightarrow> chain_index \<Rightarrow> chain_index list" where
  "shuffle_iter it c = it_unique it (it_permutations it c)"

text \<open>The top of the stack is the head of the list.  The loop may run on; then its value is \<open>None\<close>.\<close>

partial_function (option) chain_ids_loop :: "itertools \<Rightarrow> chain_index list \<Rightarrow> chain_index list \<Rightarrow> chain_index list option" where
  "chain_ids_loop it stack cumulative_stack =
     (case stack of
        [] \<Rightarrow> Some cumulative_stack
      | top_id # stack \<Rightarrow>
          (case collapse_back top_id of
             None \<Rightarrow> chain_ids_loop it stack cumulative_stack
           | Some collapsed_id \<Rightarrow>
               chain_ids_loop it (rev (shuffle_iter it collapsed_id) @ stack)
                 (cumulative_stack @ shuffle_iter it collapsed_id)))"

definition chain_ids_at_depth :: "itertools \<Rightarrow> nat \<Rightarrow> chain_index list option" where
  "chain_ids_at_depth it d = map_option (it_unique it) (chain_ids_loop it [replicate d 0] [replicate d 0])"

definition chain_ids_at_depth_rev :: "itertools \<Rightarrow> nat \<Rightarrow> chain_index list option" where
  "chain_ids_at_depth_rev it d = map_option (it_unique it \<circ> rev) (chain_ids_loop it [replicate d 0] [replicate d 0])"

text \<open>The depth of a path without the bounds of machine words.\<close>

definition depth_nat :: "chain_index \<Rightarrow> nat" where
  "depth_nat c = (\<Sum>cci \<leftarrow> c. Suc (unat cci))"

lemma depth_nat_simps [simp]:
  "depth_nat [] = 0" "depth_nat (i # c) = Suc (unat i) + depth_nat c"
  "depth_nat (c @ d) = depth_nat c + depth_nat d"
  by (simp_all add: depth_nat_def)

section \<open>Reading what was printed\<close>

lemma to_digit_char [simp]: "d < 10 \<Longrightarrow> to_digit (digit_char d) = Some (of_nat d)"
  by (simp add: to_digit_def digit_char_def)

lemma digit_char_neq: "d < 10 \<Longrightarrow> digit_char d \<noteq> CHR ''/''" "d < 10 \<Longrightarrow> digit_char d \<noteq> CHR ''+''"
  "d < 10 \<Longrightarrow> digit_char d \<noteq> CHR ''-''"
proof -
  have "of_char (digit_char d) = 48 + d" if "d < 10"
    using that by (simp add: digit_char_def)
  then show "d < 10 \<Longrightarrow> digit_char d \<noteq> CHR ''/''" "d < 10 \<Longrightarrow> digit_char d \<noteq> CHR ''+''"
    "d < 10 \<Longrightarrow> digit_char d \<noteq> CHR ''-''" by force+
qed

lemma parse_digits_append:
  "parse_digits (xs @ ys) n = rbind (parse_digits xs n) (parse_digits ys)"
  by (induction xs n rule: parse_digits.induct) (auto simp: expect_def split: option.split)

lemma parse_digits_snoc:
  assumes "n < 2 ^ 32"
  shows "parse_digits [digit_char (n mod 10)] (of_nat (n div 10)) = Inr (of_nat n)"
proof -
  have u: "unat (of_nat k :: u32) = k" if "k \<le> n" for k
    using that assms by (simp add: unat_of_nat)
  have le: "n div 10 * 10 \<le> n" "n div 10 \<le> n" "n mod 10 \<le> n" and n: "n div 10 * 10 + n mod 10 = n" by simp_all
  have m: "checked_mul (of_nat (n div 10) :: u32) 10 = Some (of_nat (n div 10 * 10))"
    using assms le(1) u [OF le(2)] by (simp add: checked_mul_def)
  have "checked_add (of_nat (n div 10 * 10) :: u32) (of_nat (n mod 10)) = Some (of_nat (n div 10 * 10 + n mod 10))"
    unfolding checked_add_def u [OF le(1)] u [OF le(3)] of_nat_add [symmetric] n using assms by simp
  then show ?thesis using m unfolding n by simp
qed

lemma parse_show_nat: "n < 2 ^ 32 \<Longrightarrow> parse_digits (show_nat n) 0 = Inr (of_nat n)"
proof (induction n rule: show_nat.induct)
  case (1 n)
  show ?case
  proof (cases "n < 10")
    case True
    then have "unat (of_nat n :: u32) = n" by (simp add: unat_of_nat)
    with True show ?thesis by (simp add: show_nat.simps [of n] checked_mul_def checked_add_def)
  next
    case False
    moreover have "n div 10 < 2 ^ 32" using 1(2) by simp
    ultimately show ?thesis
      using 1 parse_digits_snoc [of n] by (simp add: show_nat.simps [of n] parse_digits_append)
  qed
qed

lemma show_nat_chars: "c \<in> set (show_nat n) \<Longrightarrow> \<exists>d < 10. c = digit_char d"
  by (induction n rule: show_nat.induct) (subst (asm) show_nat.simps, force split: if_splits)

lemma show_nat_nonempty [simp]: "show_nat n \<noteq> []"
  by (subst show_nat.simps) simp

lemma show_u32_chars: "CHR ''/'' \<notin> set (show_u32 n)" "hd (show_u32 n) \<noteq> CHR ''+''" "hd (show_u32 n) \<noteq> CHR ''-''"
  "show_u32 n \<noteq> []"
proof -
  have "hd (show_u32 n) \<in> set (show_u32 n)" by (simp add: show_u32_def)
  then show "CHR ''/'' \<notin> set (show_u32 n)" "hd (show_u32 n) \<noteq> CHR ''+''" "hd (show_u32 n) \<noteq> CHR ''-''"
    "show_u32 n \<noteq> []"
    using digit_char_neq show_nat_chars unfolding show_u32_def by (metis, metis, metis, simp)
qed

lemma parse_show_u32: "parse_u32 (show_u32 n) = Inr n"
proof -
  have "show_u32 n \<noteq> ''+''" "show_u32 n \<noteq> ''-''" using show_u32_chars(2,3) [of n] by auto
  then show ?thesis
    using show_u32_chars [of n] parse_show_nat [of "unat n"] unat_lt2p [of n] by (simp add: parse_u32_def show_u32_def)
qed

lemma split_on_none: "sep \<notin> set p \<Longrightarrow> split_on sep p = [p]"
  by (induction p) auto

lemma split_on_part: "sep \<notin> set p \<Longrightarrow> split_on sep (p @ sep # rest) = p # split_on sep rest"
  by (induction p) auto

lemma split_display:
  "c \<noteq> [] \<Longrightarrow> split_on CHR ''/'' (concat (map (\<lambda>cci. show_u32 cci @ ''/'') (butlast c)) @ show_u32 (last c)) = map show_u32 c"
proof (induction c rule: list_nonempty_induct)
  case (single i)
  then show ?case by (simp add: split_on_none show_u32_chars)
next
  case (cons i c)
  then show ?case by (simp add: split_on_part show_u32_chars)
qed

lemma parse_segments_show: "parse_segments (map show_u32 c) = Inr c"
  by (induction c) (simp_all add: parse_show_u32)

text \<open>
  C29: a path is read back as it was printed, so the text of a path determines the path and every
  path has a text.
\<close>

theorem chain_index_roundtrip: "chain_index_from_str (chain_index_display c) = Inr c"
proof (cases "c = []")
  case True
  then show ?thesis by (simp add: chain_index_from_str_def chain_index_display_def)
next
  case False
  have "concat (map (\<lambda>cci. show_u32 cci @ ''/'') (butlast c)) @ show_u32 (last c) \<noteq> []"
    by (simp add: show_u32_chars)
  with False show ?thesis
    by (simp add: chain_index_from_str_def chain_index_display_def split_display parse_segments_show)
qed

section \<open>The enumeration is complete\<close>

definition collapses :: "(chain_index \<times> chain_index) set" where
  "collapses = {(c, e). \<exists>c'. collapse_back c = Some c' \<and> mset e = mset c'}"

lemma depth_nat_mset: "mset e = mset c \<Longrightarrow> depth_nat e = depth_nat c"
  unfolding depth_nat_def by (simp flip: sum_mset_sum_list)

lemma collapse_back_Some:
  assumes "collapse_back c = Some e"
  obtains p a b where "c = p @ [a, b]" "e = p @ [a + (b + 1)]" "unat (a + (b + 1)) = Suc (unat a + unat b)"
proof -
  have ne: "c \<noteq> []" "butlast c \<noteq> []" and
    m: "checked_add (last c) 1 = Some (last c + 1)" and
    l: "checked_add (last (butlast c)) (last c + 1) = Some (last (butlast c) + (last c + 1))" and
    e: "e = butlast (butlast c) @ [last (butlast c) + (last c + 1)]"
    using assms by (auto simp: collapse_back_def parent_def checked_add_def bind_eq_Some_conv split: if_splits)
  have "c = butlast (butlast c) @ [last (butlast c), last c]"
    using ne by (metis append_Cons append_Nil append_assoc append_butlast_last_id)
  moreover have "unat (last (butlast c) + (last c + 1)) = Suc (unat (last (butlast c)) + unat (last c))"
    using m l by (auto simp: checked_add_Some)
  ultimately show thesis using that e by blast
qed

lemma collapses_depth: "(c, e) \<in> collapses \<Longrightarrow> depth_nat e = depth_nat c"
  unfolding collapses_def by (auto dest!: depth_nat_mset elim!: collapse_back_Some)

lemma collapses_length: "(c, e) \<in> collapses \<Longrightarrow> Suc (length e) = length c"
  unfolding collapses_def by (auto dest!: mset_eq_length elim!: collapse_back_Some)

lemma collapses_shuffle:
  assumes "itertools_ok it"
  shows "collapse_back c = Some e \<Longrightarrow> set (shuffle_iter it e) = {e. (c, e) \<in> collapses}"
    "collapse_back c = None \<Longrightarrow> {e. (c, e) \<in> collapses} = {}"
  using assms by (auto simp: itertools_ok_def shuffle_iter_def collapses_def)

lemma trancl_first: "(a, c) \<in> r\<^sup>+ \<longleftrightarrow> (a, c) \<in> r \<or> (\<exists>b. (a, b) \<in> r \<and> (b, c) \<in> r\<^sup>+)"
  by (auto elim: converse_tranclE intro: trancl_into_trancl2)

text \<open>A loop that replaces the top of a stack by smaller entries ends.\<close>

lemma stack_decreases:
  fixes f :: "'a \<Rightarrow> nat"
  assumes "\<And>x. x \<in> set new \<Longrightarrow> f x < f c"
  shows "(image_mset f (mset (new @ st)), image_mset f (mset (c # st))) \<in> mult less_than"
  using one_step_implies_mult [of "{#f c#}" "image_mset f (mset new)" less_than "image_mset f (mset st)"] assms
  by (simp add: ac_simps)

text \<open>Each round takes a path from the stack and puts back shorter ones.\<close>

lemma chain_ids_loop_returns:
  assumes "itertools_ok it"
  shows "\<exists>ids. chain_ids_loop it stack cum = Some (cum @ ids)
    \<and> set ids = {e. \<exists>c \<in> set stack. (c, e) \<in> collapses\<^sup>+}"
proof (induction "image_mset length (mset stack)" arbitrary: stack cum rule: wf_induct_rule [OF wf_mult [OF wf_less_than]])
  case 1
  show ?case
  proof (cases stack)
    case Nil
    then show ?thesis by (simp add: chain_ids_loop.simps)
  next
    case (Cons c st)
    show ?thesis
    proof (cases "collapse_back c")
      case None
      have "(image_mset length (mset st), image_mset length (mset stack)) \<in> mult less_than"
        using stack_decreases [of "[]" length c st] Cons by simp
      from 1 [OF this] obtain ids where ids: "chain_ids_loop it st cum = Some (cum @ ids)"
        "set ids = {e. \<exists>c \<in> set st. (c, e) \<in> collapses\<^sup>+}" by blast
      have "(c, e) \<notin> collapses\<^sup>+" for e
        using collapses_shuffle(2) [OF assms None] by (auto dest: tranclD)
      with ids Cons None show ?thesis by (subst chain_ids_loop.simps) auto
    next
      case (Some e)
      let ?new = "shuffle_iter it e"
      have new: "set ?new = {e. (c, e) \<in> collapses}" by (rule collapses_shuffle(1) [OF assms Some])
      have "(image_mset length (mset (rev ?new @ st)), image_mset length (mset stack)) \<in> mult less_than"
        unfolding Cons by (rule stack_decreases) (use new in \<open>auto dest: collapses_length\<close>)
      from 1 [OF this] obtain ids where ids: "chain_ids_loop it (rev ?new @ st) (cum @ ?new) = Some ((cum @ ?new) @ ids)"
        "set ids = {e. \<exists>c \<in> set (rev ?new @ st). (c, e) \<in> collapses\<^sup>+}" by blast
      have "chain_ids_loop it stack cum = Some (cum @ (?new @ ids))"
        using ids(1) Cons Some by (subst chain_ids_loop.simps) simp
      moreover have "set (?new @ ids) = {e. \<exists>c \<in> set stack. (c, e) \<in> collapses\<^sup>+}"
        by (auto simp: Cons new ids(2) trancl_first [of c])
      ultimately show ?thesis by blast
    qed
  qed
qed

lemma all_zero_or_split:
  assumes "c \<noteq> replicate (depth_nat c) 0"
  obtains i p q where "c = p @ i # q" "i \<noteq> 0"
proof (cases "\<exists>i \<in> set c. i \<noteq> 0")
  case True
  then show thesis using that by (auto simp: in_set_conv_decomp)
next
  case False
  then have "c = replicate (length c) 0" by (simp add: replicate_eqI)
  moreover have "depth_nat (replicate n 0) = n" for n by (induction n) simp_all
  ultimately show thesis using assms by metis
qed

lemma length_le_depth: "length c \<le> depth_nat c"
  by (induction c) simp_all

lemma reached_from_zeros: "(replicate (depth_nat c) 0, c) \<in> collapses\<^sup>*"
proof (induction "depth_nat c - length c" arbitrary: c rule: less_induct)
  case less
  show ?case
  proof (cases "c = replicate (depth_nat c) 0")
    case True
    then show ?thesis by (metis rtrancl.rtrancl_refl)
  next
    case False
    then obtain i p q where c: "c = p @ i # q" and i: "i \<noteq> 0" by (rule all_zero_or_split)
    let ?b = "(p @ q) @ [i - 1, 0]"
    have u: "unat (i - 1) = unat i - 1" "unat i > 0"
      using i by (simp_all add: unat_minus_one unat_gt_0)
    have d: "depth_nat ?b = depth_nat c" using u by (simp add: c)
    have "collapse_back ?b = Some ((p @ q) @ [i])"
      using u unat_lt2p [of i] by (auto simp: collapse_back_def parent_def butlast_append checked_add_def)
    then have step: "(?b, c) \<in> collapses" by (simp add: collapses_def c)
    have "depth_nat ?b - length ?b < depth_nat c - length c"
      using d length_le_depth [of ?b] by (simp add: c)
    from less [OF this] have "(replicate (depth_nat c) 0, ?b) \<in> collapses\<^sup>*" unfolding d .
    from this step show ?thesis by (rule rtrancl.rtrancl_into_rtrancl)
  qed
qed

lemma reached_depth: "(c, e) \<in> collapses\<^sup>* \<Longrightarrow> depth_nat e = depth_nat c"
  by (induction rule: rtrancl_induct) (auto dest: collapses_depth)

lemma depth_nat_zeros [simp]: "depth_nat (replicate n 0) = n"
  by (induction n) simp_all

lemma chain_ids_enumerate:
  assumes "itertools_ok it"
  shows "\<exists>ids ids_rev. chain_ids_at_depth it d = Some ids \<and> chain_ids_at_depth_rev it d = Some ids_rev
    \<and> distinct ids \<and> set ids = {c. depth_nat c = d} \<and> distinct ids_rev \<and> set ids_rev = {c. depth_nat c = d}"
proof -
  let ?z = "replicate d 0 :: chain_index"
  obtain ids where ids: "chain_ids_loop it [?z] [?z] = Some ([?z] @ ids)" "set ids = {e. (?z, e) \<in> collapses\<^sup>+}"
    using chain_ids_loop_returns [OF assms, of "[?z]" "[?z]"] by auto
  have "set (?z # ids) = {e. (?z, e) \<in> collapses\<^sup>*}"
    by (auto simp: ids(2) rtrancl_eq_or_trancl)
  also have "\<dots> = {c. depth_nat c = d}"
    using reached_depth [of ?z] reached_from_zeros by auto
  finally show ?thesis
    using assms ids(1) by (auto simp: chain_ids_at_depth_def chain_ids_at_depth_rev_def itertools_ok_def)
qed

text \<open>
  C27: the enumeration of the paths of a depth ends, and lists every path of that depth, no other
  path, and none twice; so does the one in reverse order.
\<close>

theorem chain_ids_exact:
  assumes "itertools_ok it"
  shows "\<exists>ids ids_rev. chain_ids_at_depth it d = Some ids \<and> chain_ids_at_depth_rev it d = Some ids_rev
    \<and> distinct ids \<and> set ids = {c. depth_nat c = d} \<and> distinct ids_rev \<and> set ids_rev = {c. depth_nat c = d}"
  by (rule chain_ids_enumerate [OF assms])

text \<open>The library functions written out.\<close>

fun interleave :: "'a \<Rightarrow> 'a list \<Rightarrow> 'a list list" where
  "interleave x [] = [[x]]"
| "interleave x (y # ys) = (x # y # ys) # map ((#) y) (interleave x ys)"

fun perms :: "'a list \<Rightarrow> 'a list list" where
  "perms [] = [[]]"
| "perms (x # xs) = concat (map (interleave x) (perms xs))"

definition ex_itertools :: itertools where
  "ex_itertools = \<lparr> it_permutations = perms, it_unique = rev \<circ> remdups \<circ> rev \<rparr>"

lemma interleave_mset: "zs \<in> set (interleave x ys) \<Longrightarrow> mset zs = add_mset x (mset ys)"
  by (induction ys arbitrary: zs) auto

lemma interleave_covers: "us @ x # vs \<in> set (interleave x (us @ vs))"
  by (induction us) (cases vs, auto)

lemma set_perms: "set (perms xs) = {ys. mset ys = mset xs}"
proof (induction xs)
  case Nil
  then show ?case by simp
next
  case (Cons x xs)
  have "ys \<in> set (perms (x # xs))" if m: "mset ys = mset (x # xs)" for ys
  proof -
    from m have "x \<in> set ys" by (metis list.set_intros(1) set_mset_mset)
    then obtain us vs where ys: "ys = us @ x # vs" by (auto simp: in_set_conv_decomp)
    with m have "us @ vs \<in> set (perms xs)" by (simp add: Cons)
    then show ?thesis using interleave_covers [of us x vs] by (auto simp: ys)
  qed
  then show ?case using Cons by (auto dest: interleave_mset)
qed

lemma ex_itertools_ok: "itertools_ok ex_itertools"
  by (simp add: itertools_ok_def ex_itertools_def set_perms)

theorem chain_ids_exact_witness:
  "\<exists>ids. chain_ids_at_depth ex_itertools 3 = Some ids \<and> distinct ids
    \<and> [2] \<in> set ids \<and> [0, 1] \<in> set ids \<and> [1, 0] \<in> set ids \<and> [0, 0, 0] \<in> set ids \<and> [1, 1] \<notin> set ids"
  using chain_ids_exact [OF ex_itertools_ok, of 3] by auto

end
