(* ===== verification/Key_Tree.thy ===== *)
theory Key_Tree
  imports Derivations Chain_Index
begin

text \<open>
  The key trees of a wallet (\<open>lee/key_protocol/src/key_management/key_tree/mod.rs\<close>), for any kind
  of node.  What the trait \<open>KeyTreeNode\<close> asks of a node is the record \<open>node_ops\<close>.  An operation
  whose loop may run on has the value \<open>None\<close> then; a panic is \<open>Inl\<close>.
\<close>

type_synonym 'a outcome = "(string, 'a) result option"

record 'n node_ops =
  no_from_seed :: "bytes \<Rightarrow> (string, 'n) result"
  no_derive_child :: "'n \<Rightarrow> u32 \<Rightarrow> (string, 'n) result"
  no_account_ids :: "'n \<Rightarrow> account_id list"

record 'n key_tree =
  key_map :: "(chain_index, 'n) fmap"
  account_id_map :: "(account_id, chain_index) fmap"

section \<open>Operations\<close>

definition register_ids :: "account_id list \<Rightarrow> chain_index \<Rightarrow> (account_id, chain_index) fmap \<Rightarrow> (account_id, chain_index) fmap" where
  "register_ids ids c m = fold (\<lambda>i. fmupd i c) ids m"

definition new_from_root :: "'n node_ops \<Rightarrow> 'n \<Rightarrow> 'n key_tree" where
  "new_from_root ops r = \<lparr> key_map = fmupd root r fmempty, account_id_map = register_ids (no_account_ids ops r) root fmempty \<rparr>"

definition key_tree_new :: "'n node_ops \<Rightarrow> bytes \<Rightarrow> (string, 'n key_tree) result" where
  "key_tree_new ops seed =
     ensure (length seed = 64) ''SeedHolder seed is 64 bytes long'' (
     rbind (no_from_seed ops seed) (\<lambda>root_keys.
     Inr \<lparr> key_map = fmupd root root_keys fmempty,
           account_id_map = register_ids (no_account_ids ops root_keys) root fmempty \<rparr>))"

definition midpoint :: "u32 \<Rightarrow> u32 \<Rightarrow> u32" where
  "midpoint a b = of_nat ((unat a + unat b) div 2)"

partial_function (option) next_child_loop :: "(chain_index, 'n) fmap \<Rightarrow> chain_index \<Rightarrow> u32 \<Rightarrow> u32 \<Rightarrow> u32 \<Rightarrow> u32 option outcome" where
  "next_child_loop m parent_id left_border right right_border =
     (let rightmost_child = nth_child parent_id right in
      case next_in_line rightmost_child of
        None \<Rightarrow> Some (Inr None)
      | Some next_child \<Rightarrow>
          (case fmlookup m rightmost_child of
             Some _ \<Rightarrow>
               (case fmlookup m next_child of
                  Some _ \<Rightarrow> next_child_loop m parent_id right (midpoint right right_border) right_border
                | None \<Rightarrow> Some (Inr (checked_add right 1)))
           | None \<Rightarrow>
               (case fmlookup m next_child of
                  None \<Rightarrow> next_child_loop m parent_id left_border (midpoint left_border right) right
                | Some _ \<Rightarrow> Some (Inl ''internal error: entered unreachable code''))))"

definition find_next_last_child_of_id :: "'n key_tree \<Rightarrow> chain_index \<Rightarrow> u32 option outcome" where
  "find_next_last_child_of_id t parent_id =
     (if fmlookup (key_map t) parent_id = None then Some (Inr None)
      else if fmlookup (key_map t) (nth_child parent_id 0) = None then Some (Inr (Some 0))
      else next_child_loop (key_map t) parent_id 0 (- 1 - 1) (- 1))"

definition insert_child :: "'n node_ops \<Rightarrow> chain_index \<Rightarrow> 'n \<Rightarrow> 'n key_tree \<Rightarrow> 'n key_tree" where
  "insert_child ops c child_keys t =
     \<lparr> key_map = fmupd c child_keys (key_map t),
       account_id_map = register_ids (no_account_ids ops child_keys) c (account_id_map t) \<rparr>"

definition generate_new_node :: "'n node_ops \<Rightarrow> chain_index \<Rightarrow> 'n key_tree \<Rightarrow> ('n key_tree \<times> chain_index option) outcome" where
  "generate_new_node ops parent_cci t =
     (case fmlookup (key_map t) parent_cci of
        None \<Rightarrow> Some (Inr (t, None))
      | Some parent_keys \<Rightarrow>
          Option.bind (find_next_last_child_of_id t parent_cci) (\<lambda>found. Some (
          rbind found (\<lambda>next.
          expect next ''Can be None only if parent is not present'' (\<lambda>next_child_id.
          let next_cci = nth_child parent_cci next_child_id in
          rbind (no_derive_child ops parent_keys next_child_id) (\<lambda>child_keys.
          Inr (insert_child ops next_cci child_keys t, Some next_cci)))))))"

definition fill_node :: "'n node_ops \<Rightarrow> chain_index \<Rightarrow> 'n key_tree \<Rightarrow> (string, 'n key_tree \<times> chain_index option) result" where
  "fill_node ops chain_index t =
     (case Option.bind (parent chain_index) (fmlookup (key_map t)) of
        None \<Rightarrow> Inr (t, None)
      | Some parent_keys \<Rightarrow>
          rbind (no_derive_child ops parent_keys (last chain_index)) (\<lambda>child_keys.
          Inr (insert_child ops chain_index child_keys t, Some chain_index)))"

text \<open>The counter of depths is a \<open>usize\<close>, of 64 bits.\<close>

partial_function (option) next_slot_loop :: "itertools \<Rightarrow> 'n key_tree \<Rightarrow> nat \<Rightarrow> chain_index outcome" where
  "next_slot_loop it t d =
     Option.bind (chain_ids_at_depth_rev it d) (\<lambda>ids.
     case List.find (\<lambda>c. fmlookup (key_map t) c = None) ids of
       Some c \<Rightarrow> Some (Inr c)
     | None \<Rightarrow> (if Suc d < 2 ^ 64 then next_slot_loop it t (Suc d) else Some (Inl ''Max depth reached'')))"

definition find_next_slot_layered :: "itertools \<Rightarrow> 'n key_tree \<Rightarrow> chain_index outcome" where
  "find_next_slot_layered it t = next_slot_loop it t 1"

definition generate_new_node_layered :: "itertools \<Rightarrow> 'n node_ops \<Rightarrow> 'n key_tree \<Rightarrow> ('n key_tree \<times> chain_index option) outcome" where
  "generate_new_node_layered it ops t =
     Option.bind (find_next_slot_layered it t) (\<lambda>found. Some (
     rbind found (\<lambda>slot. fill_node ops slot t)))"

partial_function (option) children_loop :: "bool \<Rightarrow> 'n node_ops \<Rightarrow> u32 \<Rightarrow> chain_index \<Rightarrow> chain_index
    \<Rightarrow> chain_index list \<Rightarrow> 'n key_tree \<Rightarrow> ('n key_tree \<times> chain_index list) outcome" where
  "children_loop oc ops d curr_id next_id id_stack t =
     (case depth oc next_id of
        Inl e \<Rightarrow> Some (Inl e)
      | Inr n \<Rightarrow>
          if n < d
          then Option.bind (generate_new_node ops curr_id t) (\<lambda>r.
               case r of
                 Inl e \<Rightarrow> Some (Inl e)
               | Inr (t, _) \<Rightarrow>
                   (case next_in_line next_id of
                      None \<Rightarrow> Some (Inr (t, next_id # id_stack))
                    | Some following \<Rightarrow> children_loop oc ops d curr_id following (next_id # id_stack) t))
          else Some (Inr (t, id_stack)))"

partial_function (option) tree_loop :: "bool \<Rightarrow> 'n node_ops \<Rightarrow> u32 \<Rightarrow> chain_index list \<Rightarrow> 'n key_tree \<Rightarrow> 'n key_tree outcome" where
  "tree_loop oc ops d id_stack t =
     (case id_stack of
        [] \<Rightarrow> Some (Inr t)
      | curr_id # id_stack \<Rightarrow>
          Option.bind (children_loop oc ops d curr_id (nth_child curr_id 0) id_stack t) (\<lambda>r.
          case r of
            Inl e \<Rightarrow> Some (Inl e)
          | Inr (t, id_stack) \<Rightarrow> tree_loop oc ops d id_stack t))"

definition generate_tree_for_depth :: "bool \<Rightarrow> 'n node_ops \<Rightarrow> u32 \<Rightarrow> 'n key_tree \<Rightarrow> 'n key_tree outcome" where
  "generate_tree_for_depth oc ops d t = tree_loop oc ops d [root] t"

definition get_node :: "account_id \<Rightarrow> 'n key_tree \<Rightarrow> 'n option" where
  "get_node acc_id t = Option.bind (fmlookup (account_id_map t) acc_id) (fmlookup (key_map t))"

definition key_tree_insert :: "account_id \<Rightarrow> chain_index \<Rightarrow> 'n \<Rightarrow> 'n key_tree \<Rightarrow> 'n key_tree" where
  "key_tree_insert acc_id chain_index node t =
     \<lparr> key_map = fmupd chain_index node (key_map t), account_id_map = fmupd acc_id chain_index (account_id_map t) \<rparr>"

definition key_tree_remove :: "account_id \<Rightarrow> 'n key_tree \<Rightarrow> 'n key_tree \<times> 'n option" where
  "key_tree_remove addr t =
     (case fmlookup (account_id_map t) addr of
        None \<Rightarrow> (t, None)
      | Some chain_index \<Rightarrow>
          (\<lparr> key_map = fmdrop chain_index (key_map t), account_id_map = fmdrop addr (account_id_map t) \<rparr>,
           fmlookup (key_map t) chain_index))"

section \<open>The next child\<close>

definition has :: "(chain_index, 'n) fmap \<Rightarrow> chain_index \<Rightarrow> bool" where
  "has m c \<longleftrightarrow> fmlookup m c \<noteq> None"

lemma has_simps [simp]: "has (fmupd c n m) e \<longleftrightarrow> e = c \<or> has m e" "\<not> has fmempty e"
  by (simp_all add: has_def)

lemma nth_child_inj [simp]: "nth_child c i = nth_child e j \<longleftrightarrow> c = e \<and> i = j"
  by (simp add: nth_child_def)

lemma unat_MAX: "unat (- 1 :: u32) = 2 ^ 32 - 1" "unat (- 1 - 1 :: u32) = 2 ^ 32 - 2"
  by code_simp+

lemma unat_midpoint: "unat (midpoint a b) = (unat a + unat b) div 2"
proof -
  have "(unat a + unat b) div 2 < 2 ^ 32" using unat_lt2p [of a] unat_lt2p [of b] by simp
  then show ?thesis by (simp add: midpoint_def unat_of_nat)
qed

lemma u32_Suc: "unat (i :: u32) < 2 ^ 32 - 1 \<Longrightarrow> unat (i + 1) = Suc (unat i)" "unat (i :: u32) < 2 ^ 32 - 1 \<Longrightarrow> checked_add i 1 = Some (i + 1)"
  by (simp_all add: checked_add_def unat_word_ariths)

lemma next_in_line_child: "unat i < 2 ^ 32 - 1 \<Longrightarrow> next_in_line (nth_child c i) = Some (nth_child c (i + 1))"
  by (simp add: next_in_line_def nth_child_def u32_Suc)

lemma next_child_loop_returns:
  assumes kids: "\<And>i. has m (nth_child p i) \<longleftrightarrow> unat i \<le> t"
    and "unat l \<le> t" "t < unat b" "unat l \<le> unat r" "unat r < unat b" "unat l < t \<Longrightarrow> unat l < unat r"
  shows "next_child_loop m p l r b = Some (Inr (Some (of_nat (Suc t))))"
  using assms(2-)
proof (induction "unat b - unat l" arbitrary: l r b rule: less_induct)
  case less
  have r: "unat r < 2 ^ 32 - 1" using less.prems(4) unat_lt2p [of b] by simp
  note step = next_child_loop.simps [of m p l r b] next_in_line_child [OF r] u32_Suc [OF r]
  have up: "fmlookup m (nth_child p r) \<noteq> None \<longleftrightarrow> unat r \<le> t" "fmlookup m (nth_child p (r + 1)) \<noteq> None \<longleftrightarrow> unat r < t"
    using kids [of r] kids [of "r + 1"] step(3) by (auto simp: has_def)
  consider "unat r < t" | "unat r = t" | "t < unat r" by linarith
  then show ?case
  proof cases
    case 1
    then have "next_child_loop m p r (midpoint r b) b = Some (Inr (Some (of_nat (Suc t))))"
      using less.prems by (intro less.hyps) (auto simp: unat_midpoint)
    with 1 up step show ?thesis by auto
  next
    case 2
    then have "r + 1 = of_nat (Suc t)" using step(3) by (simp add: add.commute flip: 2)
    with 2 up step show ?thesis by auto
  next
    case 3
    then have "next_child_loop m p l (midpoint l r) r = Some (Inr (Some (of_nat (Suc t))))"
      using less.prems by (intro less.hyps) (auto simp: unat_midpoint)
    with 3 up step show ?thesis by auto
  qed
qed

lemma next_child_loop_runs_on:
  assumes "\<And>i. has m (nth_child p i)"
  shows "next_child_loop m p l (- 1 - 1) (- 1) = None"
proof -
  have mid: "midpoint (- 1 - 1) (- 1) = (- 1 - 1 :: u32)"
    by (rule word_unat_eq_iff [THEN iffD2]) (simp only: unat_midpoint unat_MAX)
  have "\<not> ((\<forall>i. has m (nth_child p i)) \<and> r = - 1 - 1 \<and> b = - 1)" if "next_child_loop m p l r b = Some y" for l r b y
  proof (rule next_child_loop.raw_induct [where P = "\<lambda>m p l r b y. \<not> ((\<forall>i. has m (nth_child p i)) \<and> r = - 1 - 1 \<and> b = - 1)", OF _ that], goal_cases)
    case (1 f m p l r b y)
    show ?case
    proof
      assume full: "(\<forall>i. has m (nth_child p i)) \<and> r = - 1 - 1 \<and> b = - 1"
      then have "fmlookup m (nth_child p (- 1 - 1)) \<noteq> None" "fmlookup m (nth_child p (- 1 - 1 + 1)) \<noteq> None"
        unfolding has_def by blast+
      moreover have "next_in_line (nth_child p (- 1 - 1)) = Some (nth_child p (- 1 - 1 + 1))"
        by (rule next_in_line_child) (simp only: unat_MAX, simp)
      ultimately have "f m p r (midpoint r b) b = Some y"
        using 1(2) full unfolding Let_def by (auto simp del: diff_add_cancel)
      with 1(1) full mid show False by metis
    qed
  qed
  from this [of l "- 1 - 1" "- 1"] assms have "next_child_loop m p l (- 1 - 1) (- 1) \<noteq> Some y" for y by blast
  then show ?thesis by (cases "next_child_loop m p l (- 1 - 1) (- 1)") blast+
qed

text \<open>
  The shape of a tree: a path has its parent and its left siblings in the tree.
\<close>

definition shaped :: "(chain_index, 'n) fmap \<Rightarrow> bool" where
  "shaped m \<longleftrightarrow> has m root \<and> (\<forall>c i. has m (nth_child c i) \<longrightarrow> has m c \<and> (\<forall>j. j \<le> i \<longrightarrow> has m (nth_child c j)))"

lemma shaped_parent: "shaped m \<Longrightarrow> has m (nth_child c i) \<Longrightarrow> has m c"
  unfolding shaped_def by blast

lemma shaped_children:
  assumes "shaped m" and "\<not> has m (nth_child c (- 1))"
  obtains k :: u32 where "\<And>i. has m (nth_child c i) \<longleftrightarrow> i < k"
proof -
  define P where "P n \<longleftrightarrow> \<not> has m (nth_child c (of_nat n))" for n
  have "P (unat (- 1 :: u32))" using assms(2) by (simp add: P_def)
  then obtain n where n: "P n" "n \<le> unat (- 1 :: u32)" "\<And>j. j < n \<Longrightarrow> \<not> P j"
    using exists_least_iff [of P] by (metis linorder_not_less)
  have k: "unat (of_nat n :: u32) = n" using n(2) by (simp add: unat_of_nat unat_MAX(1))
  have "has m (nth_child c i) \<longleftrightarrow> i < of_nat n" for i
  proof
    assume "has m (nth_child c i)"
    with assms(1) n(1) show "i < of_nat n" unfolding shaped_def P_def by (meson linorder_not_less)
  next
    assume "i < of_nat n"
    then have "unat i < n" by (simp add: word_less_nat_alt k)
    from n(3) [OF this] show "has m (nth_child c i)" by (simp add: P_def)
  qed
  then show thesis using that by blast
qed

lemma next_child_found:
  assumes "has (key_map t) p" and k: "\<And>i. has (key_map t) (nth_child p i) \<longleftrightarrow> i < k"
  shows "find_next_last_child_of_id t p = Some (Inr (Some k))"
proof (cases "k = 0")
  case True
  with assms(1) k [of 0] show ?thesis by (simp add: find_next_last_child_of_id_def has_def)
next
  case False
  then have pos: "0 < unat k" by (simp add: unat_gt_0)
  have "next_child_loop (key_map t) p 0 (- 1 - 1) (- 1) = Some (Inr (Some (of_nat (Suc (unat k - 1)))))"
  proof (rule next_child_loop_returns)
    show "has (key_map t) (nth_child p i) \<longleftrightarrow> unat i \<le> unat k - 1" for i
      unfolding k word_less_nat_alt using pos by linarith
    show "unat k - 1 < unat (- 1 :: u32)" using pos unat_lt2p [of k] by (simp add: unat_MAX)
  qed (simp_all add: unat_MAX)
  moreover have "has (key_map t) (nth_child p 0)" using False k [of 0] by (simp add: word_neq_0_conv)
  ultimately show ?thesis
    using assms(1) pos by (auto simp: find_next_last_child_of_id_def has_def)
qed

lemma next_child_full:
  assumes "shaped (key_map t)" and "has (key_map t) p" and "has (key_map t) (nth_child p (- 1))"
  shows "find_next_last_child_of_id t p = None"
proof -
  have all: "has (key_map t) (nth_child p i)" for i
    using assms unfolding shaped_def by (metis word_order.extremum)
  from next_child_loop_runs_on [of "key_map t" p 0] all all [of 0] assms(2) show ?thesis
    by (auto simp: find_next_last_child_of_id_def has_def)
qed

text \<open>
  C25: the binary search for the next child ends.  In a tree of the right shape it returns the
  least number that is not yet a child of the node; it runs on exactly if all \<open>2^32\<close> children
  exist.
\<close>

theorem next_child_search:
  assumes "shaped (key_map t)" and "has (key_map t) p"
  shows "if has (key_map t) (nth_child p (- 1)) then find_next_last_child_of_id t p = None
    else \<exists>k. find_next_last_child_of_id t p = Some (Inr (Some k)) \<and> (\<forall>i. has (key_map t) (nth_child p i) = (i < k))"
proof (cases "has (key_map t) (nth_child p (- 1))")
  case True
  with next_child_full [OF assms] show ?thesis by simp
next
  case False
  obtain k where k: "\<And>i. has (key_map t) (nth_child p i) \<longleftrightarrow> i < k"
    by (rule shaped_children [OF assms(1) False]) blast
  with False next_child_found [OF assms(2) k] show ?thesis by auto
qed

section \<open>Well-formed trees\<close>

definition derive_path :: "'n node_ops \<Rightarrow> 'n \<Rightarrow> chain_index \<Rightarrow> (string, 'n) result" where
  "derive_path ops r c = fold_res (\<lambda>i n. no_derive_child ops n i) c r"

definition wf_tree :: "'n node_ops \<Rightarrow> 'n \<Rightarrow> 'n key_tree \<Rightarrow> bool" where
  "wf_tree ops r t \<longleftrightarrow> shaped (key_map t)
     \<and> (\<forall>c n. fmlookup (key_map t) c = Some n \<longrightarrow> derive_path ops r c = Inr n)
     \<and> (\<forall>i c. fmlookup (account_id_map t) i = Some c \<longrightarrow> (\<exists>n. fmlookup (key_map t) c = Some n \<and> i \<in> set (no_account_ids ops n)))
     \<and> (\<forall>c n i. fmlookup (key_map t) c = Some n \<and> i \<in> set (no_account_ids ops n) \<longrightarrow> fmlookup (account_id_map t) i \<noteq> None)"

lemma wf_registered:
  assumes "wf_tree ops r t"
  shows "fmlookup (account_id_map t) i = Some c \<Longrightarrow> \<exists>n. fmlookup (key_map t) c = Some n \<and> i \<in> set (no_account_ids ops n)"
    "fmlookup (key_map t) c = Some n \<Longrightarrow> i \<in> set (no_account_ids ops n) \<Longrightarrow> \<exists>e. fmlookup (account_id_map t) i = Some e"
  using assms unfolding wf_tree_def not_None_eq by blast+

lemma register_ids_lookup [simp]: "fmlookup (register_ids ids c m) i = (if i \<in> set ids then Some c else fmlookup m i)"
  unfolding register_ids_def by (induction ids arbitrary: m) auto

lemma derive_path_child: "derive_path ops r (nth_child p i) = rbind (derive_path ops r p) (\<lambda>n. no_derive_child ops n i)"
  by (simp add: derive_path_def nth_child_def fold_res_append rbind_def split: sum.split)

lemma new_from_root_wf: "wf_tree ops r (new_from_root ops r)"
  by (auto simp: wf_tree_def new_from_root_def shaped_def root_def nth_child_def derive_path_def)

lemma wf_insert_child:
  assumes wf: "wf_tree ops r t" and n: "fmlookup (key_map t) p = Some n" and ch: "no_derive_child ops n i = Inr ch"
    and left: "\<And>j. j < i \<Longrightarrow> has (key_map t) (nth_child p j)"
  shows "wf_tree ops r (insert_child ops (nth_child p i) ch t)"
proof -
  have d: "derive_path ops r (nth_child p i) = Inr ch" using wf n ch by (simp add: wf_tree_def derive_path_child)
  then have same: "n' = ch" if "fmlookup (key_map t) (nth_child p i) = Some n'" for n'
    using wf that by (simp add: wf_tree_def)
  have "shaped (key_map t)" "has (key_map t) p" using wf n by (simp_all add: wf_tree_def has_def)
  then have "shaped (fmupd (nth_child p i) ch (key_map t))"
    using left unfolding shaped_def has_simps by (metis nth_child_inj order_le_less)
  moreover have "\<exists>n. fmlookup (fmupd (nth_child p i) ch (key_map t)) c = Some n \<and> a \<in> set (no_account_ids ops n)"
    if "fmlookup (register_ids (no_account_ids ops ch) (nth_child p i) (account_id_map t)) a = Some c" for a c
    using that wf same unfolding wf_tree_def by (auto split: if_splits) blast
  moreover have "fmlookup (register_ids (no_account_ids ops ch) (nth_child p i) (account_id_map t)) a \<noteq> None"
    if "fmlookup (fmupd (nth_child p i) ch (key_map t)) c = Some n" "a \<in> set (no_account_ids ops n)" for a c n
    using that wf unfolding wf_tree_def by (auto split: if_splits)
  moreover have "derive_path ops r c = Inr n'" if "fmlookup (fmupd (nth_child p i) ch (key_map t)) c = Some n'" for c n'
    using that wf d unfolding wf_tree_def by (auto split: if_splits)
  ultimately show ?thesis unfolding wf_tree_def insert_child_def key_tree.select_convs by blast
qed

lemma generate_new_node_effect:
  assumes wf: "wf_tree ops r t" and p: "fmlookup (key_map t) p = Some n"
    and k: "\<And>i. has (key_map t) (nth_child p i) \<longleftrightarrow> i < k" and ch: "no_derive_child ops n k = Inr ch"
  shows "generate_new_node ops p t = Some (Inr (insert_child ops (nth_child p k) ch t, Some (nth_child p k)))"
    and "wf_tree ops r (insert_child ops (nth_child p k) ch t)"
proof -
  have "find_next_last_child_of_id t p = Some (Inr (Some k))"
    by (rule next_child_found) (use p k in \<open>auto simp: has_def\<close>)
  with p ch show "generate_new_node ops p t = Some (Inr (insert_child ops (nth_child p k) ch t, Some (nth_child p k)))"
    by (simp add: generate_new_node_def Let_def)
  show "wf_tree ops r (insert_child ops (nth_child p k) ch t)"
    by (rule wf_insert_child [OF wf p ch]) (simp add: k)
qed

lemma generate_new_node_wf:
  assumes wf: "wf_tree ops r t" and g: "generate_new_node ops p t = Some (Inr (t', c))"
  shows "wf_tree ops r t'"
proof (cases "fmlookup (key_map t) p")
  case None
  with wf g show ?thesis by (simp add: generate_new_node_def)
next
  case (Some n)
  have sh: "shaped (key_map t)" and p: "has (key_map t) p" using wf Some by (simp_all add: wf_tree_def has_def)
  obtain k where f: "find_next_last_child_of_id t p = Some (Inr (Some k))"
    using g Some by (auto simp: generate_new_node_def Let_def bind_eq_Some_conv res_simps)
  then have "\<not> has (key_map t) (nth_child p (- 1))" using next_child_full [OF sh p] by auto
  then obtain k where k: "\<And>i. has (key_map t) (nth_child p i) \<longleftrightarrow> i < k"
    by (rule shaped_children [OF sh]) blast
  obtain ch where "no_derive_child ops n k = Inr ch"
    using g Some next_child_found [OF p k] by (auto simp: generate_new_node_def Let_def res_simps)
  from generate_new_node_effect [OF wf Some k this] g show ?thesis by auto
qed

section \<open>Layers\<close>

text \<open>A slot: a free path such that all paths of smaller depth are taken.\<close>

definition next_slot :: "(chain_index, 'n) fmap \<Rightarrow> chain_index \<Rightarrow> bool" where
  "next_slot m c \<longleftrightarrow> c \<noteq> root \<and> \<not> has m c \<and> (\<forall>e. e \<noteq> root \<and> depth_nat e < depth_nat c \<longrightarrow> has m e)"

lemma depth_nat_pos: "0 < depth_nat c \<longleftrightarrow> c \<noteq> root"
  by (cases c) (simp_all add: root_def)

lemma next_slot_loop_spec:
  assumes it: "itertools_ok it" and "0 < d" "d < 2 ^ 64" and "\<forall>e. e \<noteq> root \<and> depth_nat e < d \<longrightarrow> has (key_map t) e"
  shows "(\<exists>c. next_slot_loop it t d = Some (Inr c) \<and> next_slot (key_map t) c)
    \<or> (next_slot_loop it t d = Some (Inl ''Max depth reached'') \<and> (\<forall>e. e \<noteq> root \<and> depth_nat e < 2 ^ 64 \<longrightarrow> has (key_map t) e))"
  using assms(2-)
proof (induction "2 ^ 64 - d" arbitrary: d rule: less_induct)
  case less
  obtain ids where ids: "chain_ids_at_depth_rev it d = Some ids" "set ids = {c. depth_nat c = d}"
    using chain_ids_enumerate [OF it] by blast
  note step = next_slot_loop.simps [of it t d]
  show ?case
  proof (cases "List.find (\<lambda>c. fmlookup (key_map t) c = None) ids")
    case (Some c)
    then have "c \<in> set ids" "\<not> has (key_map t) c" by (auto simp: find_Some_iff has_def)
    then have "next_slot (key_map t) c"
      using ids(2) less.prems by (auto simp: next_slot_def simp flip: depth_nat_pos)
    with Some ids(1) show ?thesis by (simp add: step)
  next
    case None
    then have "\<forall>e. e \<noteq> root \<and> depth_nat e < Suc d \<longrightarrow> has (key_map t) e"
      using less.prems(3) ids(2) by (auto simp: find_None_iff has_def less_Suc_eq)
    moreover have "2 ^ 64 - Suc d < 2 ^ 64 - d" using less.prems(2) by linarith
    ultimately show ?thesis
      using None ids(1) less.hyps [of "Suc d"] less.prems(2) by (cases "Suc d < 2 ^ 64") (auto simp: step less_Suc_eq not_less)
  qed
qed

lemma next_slot_neighbours:
  assumes "shaped m" and "next_slot m c"
  obtains p i where "c = nth_child p i" "has m p" "\<And>j. j < i \<Longrightarrow> has m (nth_child p j)"
proof -
  obtain p i where c: "c = nth_child p i"
    using assms(2) by (cases c rule: rev_cases) (auto simp: next_slot_def root_def nth_child_def)
  have "has m p"
    using assms by (cases "p = root") (auto simp: shaped_def next_slot_def c nth_child_def)
  moreover have "has m (nth_child p j)" if "j < i" for j
    using assms(2) that by (auto simp: next_slot_def c nth_child_def root_def word_less_nat_alt)
  ultimately show thesis using that c by blast
qed

lemma fill_slot:
  assumes wf: "wf_tree ops r t" and slot: "next_slot (key_map t) c"
  obtains p i n where "c = nth_child p i" "fmlookup (key_map t) p = Some n"
    "fill_node ops c t = rbind (no_derive_child ops n i) (\<lambda>ch. Inr (insert_child ops c ch t, Some c))"
    "\<And>ch. no_derive_child ops n i = Inr ch \<Longrightarrow> wf_tree ops r (insert_child ops c ch t)"
proof -
  obtain p i where c: "c = nth_child p i" and p: "has (key_map t) p"
    and left: "\<And>j. j < i \<Longrightarrow> has (key_map t) (nth_child p j)"
    by (rule next_slot_neighbours [OF _ slot]) (use wf in \<open>auto simp: wf_tree_def\<close>)
  obtain n where n: "fmlookup (key_map t) p = Some n" using p by (auto simp: has_def)
  show thesis
  proof (rule that [OF c n])
    show "fill_node ops c t = rbind (no_derive_child ops n i) (\<lambda>ch. Inr (insert_child ops c ch t, Some c))"
      using n by (simp add: fill_node_def c nth_child_def parent_def)
    show "wf_tree ops r (insert_child ops c ch t)" if "no_derive_child ops n i = Inr ch" for ch
      unfolding c by (rule wf_insert_child [OF wf n that left])
  qed
qed

lemma layered_slot:
  assumes "itertools_ok it"
  shows "(\<exists>c. find_next_slot_layered it t = Some (Inr c) \<and> next_slot (key_map t) c)
    \<or> (find_next_slot_layered it t = Some (Inl ''Max depth reached'') \<and> (\<forall>e. e \<noteq> root \<and> depth_nat e < 2 ^ 64 \<longrightarrow> has (key_map t) e))"
  unfolding find_next_slot_layered_def
  by (rule next_slot_loop_spec [OF assms]) (auto simp: less_Suc_eq simp flip: depth_nat_pos)

lemma layered_wf:
  assumes "itertools_ok it" and wf: "wf_tree ops r t" and g: "generate_new_node_layered it ops t = Some (Inr (t', c))"
  shows "wf_tree ops r t'"
proof -
  obtain s where s: "next_slot (key_map t) s" "fill_node ops s t = Inr (t', c)"
    using layered_slot [OF assms(1), of t] g by (auto simp: generate_new_node_layered_def)
  obtain i n where "fill_node ops s t = rbind (no_derive_child ops n i) (\<lambda>ch. Inr (insert_child ops s ch t, Some s))"
    "\<And>ch. no_derive_child ops n i = Inr ch \<Longrightarrow> wf_tree ops r (insert_child ops s ch t)"
    by (rule fill_slot [OF wf s(1)]) blast
  with s(2) show ?thesis by (auto simp: res_simps)
qed

text \<open>A node that can derive every child, as the trait promises.\<close>

definition derives :: "'n node_ops \<Rightarrow> bool" where
  "derives ops \<longleftrightarrow> (\<forall>n i. \<exists>ch. no_derive_child ops n i = Inr ch)"

text \<open>
  A node generated layer by layer always finds its place.  Unless every path of a depth below
  \<open>2^64\<close> is taken, the search for a free path ends, takes one of the least depth that has a free
  path, and adds exactly the key that the root derives for it.
\<close>

lemma layered_generation:
  assumes "itertools_ok it" and "derives ops" and "wf_tree ops r t"
    and "e \<noteq> root" and "depth_nat e < 2 ^ 64" and "\<not> has (key_map t) e"
  shows "\<exists>c n t'. generate_new_node_layered it ops t = Some (Inr (t', Some c)) \<and> next_slot (key_map t) c
    \<and> key_map t' = fmupd c n (key_map t) \<and> derive_path ops r c = Inr n \<and> wf_tree ops r t'"
proof -
  obtain c where c: "find_next_slot_layered it t = Some (Inr c)" "next_slot (key_map t) c"
    using layered_slot [OF assms(1), of t] assms(4-6) by blast
  obtain i n where f: "fill_node ops c t = rbind (no_derive_child ops n i) (\<lambda>ch. Inr (insert_child ops c ch t, Some c))"
    "\<And>ch. no_derive_child ops n i = Inr ch \<Longrightarrow> wf_tree ops r (insert_child ops c ch t)"
    by (rule fill_slot [OF assms(3) c(2)]) blast
  obtain ch where ch: "no_derive_child ops n i = Inr ch" using assms(2) by (auto simp: derives_def)
  have wf: "wf_tree ops r (insert_child ops c ch t)" by (rule f(2) [OF ch])
  then have "derive_path ops r c = Inr ch" by (simp add: wf_tree_def insert_child_def)
  with wf c ch f(1) show ?thesis
    by (auto simp: generate_new_node_layered_def insert_child_def)
qed

section \<open>The tree of a depth\<close>

lemma depth_sum_eq: "unat n + depth_nat c < 2 ^ 32 \<Longrightarrow> depth_sum oc c n = Inr (n + of_nat (depth_nat c))"
proof (induction c arbitrary: n)
  case Nil
  then show ?case by simp
next
  case (Cons i c)
  then have i: "unat i < 2 ^ 32 - 1" "unat n + unat (i + 1) < 2 ^ 32" by (simp_all add: u32_Suc)
  then have "op_add oc n (i + 1) = Some (n + (i + 1))" "unat (n + (i + 1)) = unat n + unat (i + 1)"
    by (simp_all add: op_add_def checked_add_def unat_word_ariths)
  moreover from this(2) i(1) Cons.prems have "depth_sum oc c (n + (i + 1)) = Inr (n + (i + 1) + of_nat (depth_nat c))"
    by (intro Cons.IH) (simp add: u32_Suc(1))
  ultimately show ?case using i(1) by (simp add: u32_Suc(2) algebra_simps)
qed

lemma depth_eq: "depth_nat c < 2 ^ 32 \<Longrightarrow> depth oc c = Inr (of_nat (depth_nat c))"
  using depth_sum_eq [of 0 c oc] by (simp add: depth_def)

lemma depth_nth_child [simp]: "depth_nat (nth_child c i) = Suc (depth_nat c + unat i)"
  by (simp add: nth_child_def)

lemma has_insert_child [simp]: "has (key_map (insert_child ops c ch t)) e \<longleftrightarrow> e = c \<or> has (key_map t) e"
  by (simp add: insert_child_def)

lemma depth_below:
  assumes "depth_nat c \<le> unat d"
  shows "\<exists>n. depth oc c = Inr n \<and> (n < d \<longleftrightarrow> depth_nat c < unat d)"
proof -
  have "depth_nat c < 2 ^ 32" using assms unat_lt2p [of d] by simp
  then show ?thesis by (simp add: depth_eq word_less_nat_alt unat_of_nat)
qed

lemma children_loop_grows:
  assumes "derives ops" and "wf_tree ops r t" and "has (key_map t) c"
    and "\<And>i. has (key_map t) (nth_child c i) \<longleftrightarrow> i < j" and "depth_nat (nth_child c j) \<le> unat d"
  shows "\<exists>t' new. children_loop oc ops d c (nth_child c j) st t = Some (Inr (t', new @ st)) \<and> wf_tree ops r t' \<and> distinct new
    \<and> set new = {nth_child c i | i. j \<le> i \<and> depth_nat (nth_child c i) < unat d}
    \<and> (\<forall>e. has (key_map t') e \<longleftrightarrow> has (key_map t) e \<or> e \<in> set new)"
  using assms(2-)
proof (induction "unat d - unat j" arbitrary: j t st rule: less_induct)
  case less
  obtain k where k: "depth oc (nth_child c j) = Inr k" "k < d \<longleftrightarrow> depth_nat (nth_child c j) < unat d"
    using depth_below [OF less.prems(4)] by blast
  show ?case
  proof (cases "depth_nat (nth_child c j) < unat d")
    case False
    then have "{nth_child c i | i. j \<le> i \<and> depth_nat (nth_child c i) < unat d} = {}"
      by (auto simp: word_le_nat_alt)
    with False k less.prems(1) show ?thesis by (subst children_loop.simps) auto
  next
    case True
    then have j: "unat j < 2 ^ 32 - 1" using unat_lt2p [of d] by simp
    note Sj = u32_Suc(1) [OF j]
    obtain n ch where n: "fmlookup (key_map t) c = Some n" and ch: "no_derive_child ops n j = Inr ch"
      using less.prems(2) assms(1) unfolding has_def derives_def by (metis not_None_eq)
    let ?t = "insert_child ops (nth_child c j) ch t"
    note g = generate_new_node_effect [OF less.prems(1) n less.prems(3) ch]
    have kids: "has (key_map ?t) (nth_child c i) \<longleftrightarrow> i < j + 1" for i
      using less.prems(3) [of i] by (auto simp: word_less_nat_alt Sj word_unat_eq_iff)
    have "unat d - unat (j + 1) < unat d - unat j" using True Sj by simp
    from less.hyps [OF this g(2) _ kids, of "nth_child c j # st"] less.prems(2) True Sj
    obtain t' new where t': "children_loop oc ops d c (nth_child c (j + 1)) (nth_child c j # st) ?t = Some (Inr (t', new @ nth_child c j # st))"
      "wf_tree ops r t'" "distinct new" "set new = {nth_child c i | i. j + 1 \<le> i \<and> depth_nat (nth_child c i) < unat d}"
      "\<forall>e. has (key_map t') e \<longleftrightarrow> has (key_map ?t) e \<or> e \<in> set new" by auto
    have "children_loop oc ops d c (nth_child c j) st t = Some (Inr (t', (new @ [nth_child c j]) @ st))"
      using k True t'(1) g(1) by (subst children_loop.simps) (simp add: next_in_line_child [OF j])
    moreover have "distinct (new @ [nth_child c j])" using t'(3) by (auto simp: t'(4) word_le_nat_alt Sj)
    moreover have "j \<le> i \<longleftrightarrow> i = j \<or> j + 1 \<le> i" for i
      by (auto simp: word_le_nat_alt Sj word_unat_eq_iff)
    then have "set (new @ [nth_child c j]) = {nth_child c i | i. j \<le> i \<and> depth_nat (nth_child c i) < unat d}"
      using True by (auto simp: t'(4))
    ultimately show ?thesis using t'(2,5) by (intro exI [of _ t'] exI [of _ "new @ [nth_child c j]"]) auto
  qed
qed

text \<open>What holds between two rounds: the nodes on the stack have no children yet, all others have theirs.\<close>

definition growing :: "'n node_ops \<Rightarrow> 'n \<Rightarrow> nat \<Rightarrow> chain_index list \<Rightarrow> 'n key_tree \<Rightarrow> bool" where
  "growing ops r d st t \<longleftrightarrow> wf_tree ops r t \<and> distinct st
     \<and> (\<forall>c \<in> set st. has (key_map t) c \<and> (\<forall>i. \<not> has (key_map t) (nth_child c i)))
     \<and> (\<forall>c. has (key_map t) c \<longrightarrow> depth_nat c < d)
     \<and> (\<forall>c i. has (key_map t) c \<and> c \<notin> set st \<and> depth_nat (nth_child c i) < d \<longrightarrow> has (key_map t) (nth_child c i))"

lemma grown_complete:
  assumes "growing ops r d [] t"
  shows "has (key_map t) c \<longleftrightarrow> depth_nat c < d"
proof
  show "has (key_map t) c \<Longrightarrow> depth_nat c < d" using assms by (simp add: growing_def)
  show "depth_nat c < d \<Longrightarrow> has (key_map t) c"
  proof (induction c rule: rev_induct)
    case Nil
    with assms show ?case by (auto simp: growing_def wf_tree_def shaped_def root_def)
  next
    case (snoc i c)
    with assms show ?case by (auto simp: growing_def simp flip: nth_child_def)
  qed
qed

lemma growing_step:
  assumes "derives ops" and g: "growing ops r (unat d) (c # st) t"
  obtains t' new where "children_loop oc ops d c (nth_child c 0) st t = Some (Inr (t', new @ st))"
    "growing ops r (unat d) (new @ st) t'" "\<And>e. e \<in> set new \<Longrightarrow> depth_nat c < depth_nat e \<and> depth_nat e < unat d"
proof -
  have c: "has (key_map t) c" "depth_nat c < unat d" and kids: "has (key_map t) (nth_child c i) \<longleftrightarrow> i < 0" for i
    using g by (auto simp: growing_def)
  obtain t' new where n: "children_loop oc ops d c (nth_child c 0) st t = Some (Inr (t', new @ st))" "wf_tree ops r t'"
    "distinct new" "set new = {nth_child c i | i. depth_nat (nth_child c i) < unat d}"
    "\<And>e. has (key_map t') e \<longleftrightarrow> has (key_map t) e \<or> e \<in> set new"
    using children_loop_grows [OF assms(1) _ c(1) kids, of r d oc st] g c(2) by (auto simp: growing_def)
  have "growing ops r (unat d) (new @ st) t'"
    unfolding growing_def
  proof (intro conjI ballI allI impI)
    show "distinct (new @ st)" using g n(3) by (auto simp: growing_def n(4))
    fix e i assume e: "e \<in> set (new @ st)"
    then show "has (key_map t') e" using g by (auto simp: growing_def n(4,5))
    have "e \<in> set new \<Longrightarrow> depth_nat c < depth_nat e" "c \<notin> set st" using g by (auto simp: n(4) growing_def)
    then have "e \<noteq> c" using e by auto
    moreover have "\<not> has (key_map t) (nth_child e i)"
    proof (cases "e \<in> set st")
      case True
      with g show ?thesis by (simp add: growing_def)
    next
      case False
      with e kids have "\<not> has (key_map t) e" by (auto simp: n(4))
      moreover have "shaped (key_map t)" using g by (simp add: growing_def wf_tree_def)
      ultimately show ?thesis using shaped_parent by blast
    qed
    ultimately show "\<not> has (key_map t') (nth_child e i)" by (auto simp: n(4,5))
  next
    fix e assume "has (key_map t') e"
    then show "depth_nat e < unat d" using g by (auto simp: growing_def n(4,5))
  next
    fix e i assume "has (key_map t') e \<and> e \<notin> set (new @ st) \<and> depth_nat (nth_child e i) < unat d"
    then show "has (key_map t') (nth_child e i)" using g by (cases "e = c") (auto simp: growing_def n(4,5))
  qed (rule n(2))
  moreover have "depth_nat c < depth_nat e \<and> depth_nat e < unat d" if "e \<in> set new" for e using that by (auto simp: n(4))
  ultimately show thesis using that n(1) by blast
qed

lemma tree_loop_returns:
  assumes "derives ops" and "growing ops r (unat d) st t"
  shows "\<exists>t'. tree_loop oc ops d st t = Some (Inr t') \<and> growing ops r (unat d) [] t'"
  using assms(2)
proof (induction "image_mset (\<lambda>c. unat d - depth_nat c) (mset st)" arbitrary: st t
    rule: wf_induct_rule [OF wf_mult [OF wf_less_than]])
  case 1
  show ?case
  proof (cases st)
    case Nil
    with 1(2) show ?thesis by (simp add: tree_loop.simps)
  next
    case (Cons c rest)
    obtain t' new where n: "children_loop oc ops d c (nth_child c 0) rest t = Some (Inr (t', new @ rest))"
      "growing ops r (unat d) (new @ rest) t'" "\<And>e. e \<in> set new \<Longrightarrow> depth_nat c < depth_nat e \<and> depth_nat e < unat d"
      using growing_step [OF assms(1) 1(2) [unfolded Cons]] by blast
    have "unat d - depth_nat e < unat d - depth_nat c" if "e \<in> set new" for e using n(3) [OF that] by linarith
    then have "(image_mset (\<lambda>c. unat d - depth_nat c) (mset (new @ rest)), image_mset (\<lambda>c. unat d - depth_nat c) (mset st)) \<in> mult less_than"
      unfolding Cons by (rule stack_decreases)
    from 1(1) [OF this n(2)] n(1) show ?thesis by (simp add: Cons tree_loop.simps [of oc ops d "c # rest" t])
  qed
qed

text \<open>
  The tree of a depth.  Started on a root, the generation of a tree for a depth greater than
  zero ends without a panic, in every build profile, and the tree then has exactly the paths of
  smaller depth.
\<close>

lemma generate_tree_complete:
  assumes "derives ops" and "0 < d"
  shows "\<exists>t. generate_tree_for_depth oc ops d (new_from_root ops r) = Some (Inr t) \<and> wf_tree ops r t
    \<and> (\<forall>c. has (key_map t) c = (depth_nat c < unat d))"
proof -
  have "growing ops r (unat d) [root] (new_from_root ops r)"
    using assms(2) new_from_root_wf [of ops r]
    by (auto simp: growing_def new_from_root_def root_def nth_child_def word_less_nat_alt)
  from tree_loop_returns [OF assms(1) this] obtain t where
    t: "tree_loop oc ops d [root] (new_from_root ops r) = Some (Inr t)" "growing ops r (unat d) [] t" by blast
  have "wf_tree ops r t" using t(2) by (simp add: growing_def)
  with t(1) grown_complete [OF t(2)] show ?thesis by (simp add: generate_tree_for_depth_def)
qed

section \<open>Every tree is well formed\<close>

lemma children_loop_wf:
  assumes "children_loop oc ops d c e st t = Some (Inr (t', st'))" and "wf_tree ops r t"
  shows "wf_tree ops r t'"
proof -
  have "y = Inr (t', st') \<longrightarrow> wf_tree ops r t \<longrightarrow> wf_tree ops r t'" if "children_loop oc ops d c e st t = Some y" for y
  proof (rule children_loop.raw_induct [where P = "\<lambda>oc ops d c e st t y. y = Inr (t', st') \<longrightarrow> wf_tree ops r t \<longrightarrow> wf_tree ops r t'", OF _ that], goal_cases)
    case (1 f oc ops d c e st t y)
    show ?case
    proof (intro impI)
      assume y: "y = Inr (t', st')" and wf: "wf_tree ops r t"
      have "t' = t \<or> (\<exists>t1 c1. generate_new_node ops c t = Some (Inr (t1, c1))
          \<and> (t' = t1 \<or> (\<exists>e1. f oc ops d c e1 (e # st) t1 = Some y)))"
      proof (cases "depth oc e")
        case (Inl m)
        with 1(2) y show ?thesis by simp
      next
        case (Inr n)
        with 1(2) y show ?thesis
          by (cases "generate_new_node ops c t") (auto split: if_splits sum.splits option.splits)
      qed
      with wf y 1(1) show "wf_tree ops r t'" using generate_new_node_wf by metis
    qed
  qed
  with assms show ?thesis by blast
qed

lemma tree_loop_wf:
  assumes "tree_loop oc ops d st t = Some (Inr t')" and "wf_tree ops r t"
  shows "wf_tree ops r t'"
proof -
  have "y = Inr t' \<longrightarrow> wf_tree ops r t \<longrightarrow> wf_tree ops r t'" if "tree_loop oc ops d st t = Some y" for y
  proof (rule tree_loop.raw_induct [where P = "\<lambda>oc ops d st t y. y = Inr t' \<longrightarrow> wf_tree ops r t \<longrightarrow> wf_tree ops r t'", OF _ that], goal_cases)
    case (1 f oc ops d st t y)
    show ?case
    proof (intro impI)
      assume y: "y = Inr t'" and wf: "wf_tree ops r t"
      have "t' = t \<or> (\<exists>c rest t1 st1. children_loop oc ops d c (nth_child c 0) rest t = Some (Inr (t1, st1))
          \<and> f oc ops d st1 t1 = Some y)"
      proof (cases st)
        case Nil
        with 1(2) y show ?thesis by simp
      next
        case (Cons c rest)
        with 1(2) y show ?thesis
          by (cases "children_loop oc ops d c (nth_child c 0) rest t") (auto split: sum.splits)
      qed
      with wf y 1(1) show "wf_tree ops r t'" using children_loop_wf by metis
    qed
  qed
  with assms show ?thesis by blast
qed

lemma wf_get_node:
  assumes wf: "wf_tree ops r t" and h: "fmlookup (key_map t) c = Some n" "i \<in> set (no_account_ids ops n)"
  shows "get_node i t \<noteq> None"
proof -
  obtain e where e: "fmlookup (account_id_map t) i = Some e" using wf_registered(2) [OF wf h] by blast
  obtain m where "fmlookup (key_map t) e = Some m" using wf_registered(1) [OF wf e] by blast
  with e show ?thesis by (simp add: get_node_def)
qed

inductive grown :: "itertools \<Rightarrow> 'n node_ops \<Rightarrow> 'n \<Rightarrow> 'n key_tree \<Rightarrow> bool" for it ops r where
  grown_root: "grown it ops r (new_from_root ops r)"
| grown_child: "grown it ops r t \<Longrightarrow> generate_new_node ops p t = Some (Inr (t', c)) \<Longrightarrow> grown it ops r t'"
| grown_layer: "grown it ops r t \<Longrightarrow> generate_new_node_layered it ops t = Some (Inr (t', c)) \<Longrightarrow> grown it ops r t'"
| grown_depth: "grown it ops r t \<Longrightarrow> generate_tree_for_depth oc ops d t = Some (Inr t') \<Longrightarrow> grown it ops r t'"

text \<open>
  C26: the invariant of key trees.  However a tree has been grown from its root, it is closed under
  parents and left siblings, every node is what the root derives along its path, and the index of
  accounts is exact: an account is found if and only if some node of the tree has it, and what is
  found is such a node.
\<close>

theorem key_tree_invariant:
  assumes "itertools_ok it" and "grown it ops r t"
  shows "wf_tree ops r t
    \<and> (\<forall>i n. get_node i t = Some n \<longrightarrow> i \<in> set (no_account_ids ops n))
    \<and> (\<forall>i. get_node i t \<noteq> None \<longleftrightarrow> (\<exists>c n. fmlookup (key_map t) c = Some n \<and> i \<in> set (no_account_ids ops n)))"
proof -
  from assms(2) have wf: "wf_tree ops r t"
  proof induction
    case grown_root
    show ?case by (rule new_from_root_wf)
  next
    case (grown_child t p t' c)
    then show ?case by (blast intro: generate_new_node_wf)
  next
    case (grown_layer t t' c)
    then show ?case by (blast intro: layered_wf [OF assms(1)])
  next
    case (grown_depth t oc d t')
    then show ?case unfolding generate_tree_for_depth_def by (blast intro: tree_loop_wf)
  qed
  moreover note wf_get_node [OF wf]
  moreover have "i \<in> set (no_account_ids ops n) \<and> (\<exists>c. fmlookup (key_map t) c = Some n)" if h: "get_node i t = Some n" for i n
  proof -
    obtain c where c: "fmlookup (account_id_map t) i = Some c" "fmlookup (key_map t) c = Some n"
      using h by (auto simp: get_node_def bind_eq_Some_conv)
    with wf_registered(1) [OF wf c(1)] show ?thesis by auto
  qed
  ultimately show ?thesis by blast
qed

section \<open>A tree whose nodes are their paths\<close>

definition ex_ops :: "chain_index node_ops" where
  "ex_ops = \<lparr> no_from_seed = (\<lambda>_. Inr []), no_derive_child = (\<lambda>n i. Inr (n @ [i])), no_account_ids = (\<lambda>n. [words_le n]) \<rparr>"

definition ex_tree :: "chain_index key_tree" where
  "ex_tree = insert_child ex_ops [0] [0] (new_from_root ex_ops [])"

lemma ex_derives: "derives ex_ops"
  by (simp add: derives_def ex_ops_def)

lemma ex_tree_generated: "generate_new_node ex_ops root (new_from_root ex_ops []) = Some (Inr (ex_tree, Some [0]))"
  "wf_tree ex_ops [] ex_tree"
  using generate_new_node_effect [OF new_from_root_wf, of ex_ops "[]" root "[]" 0 "[0]"]
  by (simp_all add: ex_tree_def new_from_root_def ex_ops_def root_def nth_child_def)

lemma ex_tree_has: "has (key_map ex_tree) c \<longleftrightarrow> c = [] \<or> c = [0]"
  by (auto simp: ex_tree_def new_from_root_def root_def)

theorem next_child_search_witness: "find_next_last_child_of_id ex_tree root = Some (Inr (Some 1))"
proof -
  have "shaped (key_map ex_tree)" "has (key_map ex_tree) root" using ex_tree_generated(2)
    by (simp_all add: wf_tree_def ex_tree_has root_def)
  from next_child_search [OF this] obtain k where k: "find_next_last_child_of_id ex_tree root = Some (Inr (Some k))"
    "\<And>i. (i = 0) = (i < k)" by (auto simp: ex_tree_has root_def nth_child_def split: if_splits)
  then have "k = 1" using k(2) [of 0] k(2) [of 1] by (simp add: word_less_nat_alt word_unat_eq_iff)
  with k(1) show ?thesis by simp
qed

theorem key_tree_invariant_witness: "get_node (words_le [0]) ex_tree \<noteq> None"
proof -
  have "grown ex_itertools ex_ops [] ex_tree" by (rule grown_child [OF grown_root ex_tree_generated(1)])
  note inv = key_tree_invariant [OF ex_itertools_ok this]
  have "fmlookup (key_map ex_tree) [0] = Some [0]" "words_le [0] \<in> set (no_account_ids ex_ops [0])"
    by (simp_all add: ex_tree_def insert_child_def ex_ops_def)
  with inv show ?thesis by blast
qed

end
