(* ===== verification/Keys.thy ===== *)
theory Keys
  imports Key_Tree "HOL-Library.Product_Lexorder"
begin

text \<open>
  The keys a wallet derives: secret holders, the nodes of the private and of the public key tree
  and the keys of groups (\<open>lee/key_protocol/src/key_management\<close>: \<open>secret_holders.rs\<close>, \<open>mod.rs\<close>,
  \<open>key_tree/keys_private.rs\<close>, \<open>key_tree/keys_public.rs\<close>, \<open>group_key_holder.rs\<close>), with the private and
  public keys of signatures (\<open>lee/state_machine/src/signature\<close>).  Hashes, the curve, the key
  encapsulation and the authenticated cipher are libraries and so parameters, collected in
  \<open>key_crypto\<close>; random bytes are arguments.
\<close>

record key_crypto =
  kc_sha256 :: hash_fn
  kc_hmac :: "bytes \<Rightarrow> bytes \<Rightarrow> bytes"
  kc_encapsulation_key :: "bytes \<Rightarrow> bytes"
  kc_encapsulate :: "bytes \<Rightarrow> bytes \<Rightarrow> (bytes \<times> bytes) option"
  kc_decapsulate :: "bytes \<Rightarrow> bytes \<Rightarrow> bytes option"
  kc_secret_key :: "bytes \<Rightarrow> bool"
  kc_scalar :: "bytes \<Rightarrow> bool"
  kc_scalar_add :: "bytes \<Rightarrow> bytes \<Rightarrow> bytes"
  kc_compressed_point :: "bytes \<Rightarrow> bytes"
  kc_x_only :: "bytes \<Rightarrow> bytes"
  kc_aead_encrypt :: "bytes \<Rightarrow> bytes \<Rightarrow> bytes \<Rightarrow> bytes option"
  kc_aead_decrypt :: "bytes \<Rightarrow> bytes \<Rightarrow> bytes \<Rightarrow> bytes option"

definition to_be_bytes :: "u32 \<Rightarrow> bytes" where
  "to_be_bytes n = rev (to_le_bytes n)"

section \<open>Secret holders\<close>

type_synonym secret_spending_key = bytes

datatype viewing_secret_key = ViewingSecretKey (vsk_d: bytes) (vsk_z: bytes)

datatype private_key_holder = PrivateKeyHolder (nullifier_secret_key: bytes) (viewing_secret_key: viewing_secret_key)

datatype key_chain =
  KeyChain (kch_secret_spending_key: secret_spending_key) (kch_private_key_holder: private_key_holder)
    (kch_nullifier_public_key: nullifier_public_key) (kch_viewing_public_key: bytes)

definition generate_secret_spending_key_hash :: "key_crypto \<Rightarrow> bytes \<Rightarrow> bytes" where
  "generate_secret_spending_key_hash cr seed =
     take 32 (((\<lambda>h. kc_hmac cr h (ascii ''LEE_seed'')) ^^ 2047) (kc_hmac cr seed (ascii ''LEE_seed'')))"

definition generate_nullifier_secret_key :: "key_crypto \<Rightarrow> secret_spending_key \<Rightarrow> u32 option \<Rightarrow> bytes" where
  "generate_nullifier_secret_key cr ssk index =
     kc_sha256 cr (ascii ''LEE/keys'' @ ssk @ [1] @ to_be_bytes (case index of None \<Rightarrow> 0 | Some i \<Rightarrow> i) @ replicate 19 0)"

definition generate_viewing_secret_seed_key :: "key_crypto \<Rightarrow> secret_spending_key \<Rightarrow> u32 option \<Rightarrow> viewing_secret_key" where
  "generate_viewing_secret_seed_key cr ssk index =
     (let full_seed = kc_hmac cr
        (ascii ''LEE/keys'' @ ssk @ [2] @ to_be_bytes (case index of None \<Rightarrow> 0 | Some i \<Rightarrow> i) @ replicate 19 0)
        (ascii ''LEE_viewing_seed'')
      in ViewingSecretKey (take 32 full_seed) (drop (length full_seed - 32) full_seed))"

definition produce_private_key_holder :: "key_crypto \<Rightarrow> secret_spending_key \<Rightarrow> u32 option \<Rightarrow> private_key_holder" where
  "produce_private_key_holder cr ssk index =
     PrivateKeyHolder (generate_nullifier_secret_key cr ssk index) (generate_viewing_secret_seed_key cr ssk index)"

definition vpk_from_bytes :: "bytes \<Rightarrow> bytes option" where
  "vpk_from_bytes bs = (if length bs \<noteq> 1184 then None else Some bs)"

definition vpk_of_vsk :: "key_crypto \<Rightarrow> viewing_secret_key \<Rightarrow> (string, bytes) result" where
  "vpk_of_vsk cr sk =
     expect (vpk_from_bytes (kc_encapsulation_key cr (vsk_d sk @ vsk_z sk)))
       ''key_protocol::secret_holders::From<&ViewingSecretKey>: ML-KEM-768 encapsulation key is always 1184 bytes'' Inr"

text \<open>The key chain of a seed.\<close>

definition key_chain_of_seed :: "key_crypto \<Rightarrow> bytes \<Rightarrow> (string, key_chain) result" where
  "key_chain_of_seed cr seed =
     (let ssk = generate_secret_spending_key_hash cr seed;
          holder = produce_private_key_holder cr ssk None
      in rbind (vpk_of_vsk cr (viewing_secret_key holder)) (\<lambda>vpk.
         Inr (KeyChain ssk holder (npk_of_nsk (kc_sha256 cr) (nullifier_secret_key holder)) vpk)))"

definition calculate_shared_secret_receiver :: "key_crypto \<Rightarrow> key_chain \<Rightarrow> bytes \<Rightarrow> bytes option" where
  "calculate_shared_secret_receiver cr kch epk =
     (let vsk = viewing_secret_key (kch_private_key_holder kch) in kc_decapsulate cr (vsk_d vsk @ vsk_z vsk) epk)"

section \<open>Private nodes\<close>

text \<open>The derived order of account kinds, by which the maps of a node are sorted.\<close>

fun kind_rank :: "private_account_kind \<Rightarrow> nat \<times> u32 list \<times> bytes \<times> u128" where
  "kind_rank (Regular ident) = (0, [], [], ident)"
| "kind_rank (Pda pid seed ident) = (1, pid, seed, ident)"

lemma kind_rank_inj: "kind_rank k = kind_rank l \<Longrightarrow> k = l"
  by (cases k; cases l) auto

instantiation private_account_kind :: linorder
begin

definition less_eq_private_account_kind :: "private_account_kind \<Rightarrow> private_account_kind \<Rightarrow> bool" where
  "less_eq_private_account_kind k l = (kind_rank k \<le> kind_rank l)"

definition less_private_account_kind :: "private_account_kind \<Rightarrow> private_account_kind \<Rightarrow> bool" where
  "less_private_account_kind k l = (kind_rank k < kind_rank l)"

instance
  by standard (auto simp: less_eq_private_account_kind_def less_private_account_kind_def dest: kind_rank_inj)

end

text \<open>The keys of a map in order.\<close>

definition fm_keys :: "('k::linorder, 'v) fmap \<Rightarrow> 'k list" where
  "fm_keys m = sorted_list_of_fset (fmdom m)"

lemma set_fm_keys [simp]: "set (fm_keys m) = fmdom' m"
  by (simp add: fm_keys_def fmdom'_alt_def)

record child_keys_private =
  cp_key_chain :: key_chain
  cp_accounts :: "(private_account_kind, account) fmap"
  cp_ccc :: bytes
  cp_cci :: "u32 option"

definition private_node :: "key_crypto \<Rightarrow> bytes \<Rightarrow> u32 option \<Rightarrow> (string, child_keys_private) result" where
  "private_node cr hash_value cci =
     (let ssk = take 32 hash_value;
          nsk = generate_nullifier_secret_key cr ssk cci;
          vsk = generate_viewing_secret_seed_key cr ssk cci
      in rbind (vpk_of_vsk cr vsk) (\<lambda>vpk.
         Inr \<lparr> cp_key_chain = KeyChain ssk (PrivateKeyHolder nsk vsk) (npk_of_nsk (kc_sha256 cr) nsk) vpk,
               cp_accounts = fmupd (Regular 0) default_account fmempty,
               cp_ccc = drop (length hash_value - 32) hash_value, cp_cci = cci \<rparr>))"

definition private_root :: "key_crypto \<Rightarrow> bytes \<Rightarrow> (string, child_keys_private) result" where
  "private_root cr seed = private_node cr (kc_hmac cr seed (ascii ''LEE_master_priv'')) None"

definition private_nth_child :: "key_crypto \<Rightarrow> child_keys_private \<Rightarrow> u32 \<Rightarrow> (string, child_keys_private) result" where
  "private_nth_child cr n cci =
     (let holder = kch_private_key_holder (cp_key_chain n);
          parent_pt = kc_sha256 cr (ascii ''LEE/keys'' @ nullifier_secret_key holder
            @ vsk_d (viewing_secret_key holder) @ vsk_z (viewing_secret_key holder))
      in private_node cr (kc_hmac cr (ascii ''LEE_seed_priv'' @ parent_pt @ to_be_bytes cci) (cp_ccc n)) (Some cci))"

definition private_account_ids :: "key_crypto \<Rightarrow> child_keys_private \<Rightarrow> account_id list" where
  "private_account_ids cr n =
     map (for_private_account (kc_sha256 cr) (kch_nullifier_public_key (cp_key_chain n))) (fm_keys (cp_accounts n))"

definition private_ops :: "key_crypto \<Rightarrow> child_keys_private node_ops" where
  "private_ops cr = \<lparr> no_from_seed = private_root cr, no_derive_child = private_nth_child cr, no_account_ids = private_account_ids cr \<rparr>"

section \<open>Public nodes\<close>

definition private_key_try_new :: "key_crypto \<Rightarrow> bytes \<Rightarrow> bytes option" where
  "private_key_try_new cr value = (if kc_secret_key cr value then Some value else None)"

definition private_key_tweak :: "key_crypto \<Rightarrow> bytes \<Rightarrow> bytes option" where
  "private_key_tweak cr value =
     (if \<not> kc_secret_key cr value then None
      else let hashed = kc_sha256 cr (kc_compressed_point cr value) in
           if \<not> kc_scalar cr hashed then None
           else private_key_try_new cr (kc_scalar_add cr value hashed))"

definition public_key_of :: "key_crypto \<Rightarrow> bytes \<Rightarrow> (string, bytes) result" where
  "public_key_of cr key = ensure (kc_secret_key cr key) ''Expect a valid private key'' (Inr (kc_x_only cr key))"

record child_keys_public =
  cu_sk :: bytes
  cu_ssk :: bytes
  cu_pk :: bytes
  cu_cc :: bytes
  cu_cci :: "u32 option"

definition public_root :: "key_crypto \<Rightarrow> bytes \<Rightarrow> (string, child_keys_public) result" where
  "public_root cr seed =
     (let hash_value = kc_hmac cr seed (ascii ''LEE_master_pub'') in
      expect (private_key_try_new cr (take 32 hash_value)) ''Expect a valid Private Key'' (\<lambda>sk.
      expect (private_key_tweak cr sk) ''`key_protocol::key_management::keys_public::root()`: Invalid private key produced from `tweak`'' (\<lambda>ssk.
      rbind (public_key_of cr ssk) (\<lambda>pk.
      Inr \<lparr> cu_sk = sk, cu_ssk = ssk, cu_pk = pk, cu_cc = drop (length hash_value - 32) hash_value, cu_cci = None \<rparr>))))"

definition compute_hash_value :: "key_crypto \<Rightarrow> child_keys_public \<Rightarrow> u32 \<Rightarrow> bytes" where
  "compute_hash_value cr n cci = kc_hmac cr ([0] @ cu_sk n @ to_be_bytes cci) (cu_cc n)"

definition public_nth_child :: "key_crypto \<Rightarrow> child_keys_public \<Rightarrow> u32 \<Rightarrow> (string, child_keys_public) result" where
  "public_nth_child cr n cci =
     (let hash_value = compute_hash_value cr n cci in
      ensure (kc_scalar cr (take 32 hash_value)) ''Expect a valid k256 scalar'' (
      ensure (kc_scalar cr (cu_sk n)) ''Expect a valid k256 scalar'' (
      expect (private_key_try_new cr (kc_scalar_add cr (take 32 hash_value) (cu_sk n))) ''Expect a valid private key'' (\<lambda>sk.
      expect (private_key_tweak cr sk) ''`key_protocol::key_management::keys_public::nth_child()`: Invalid private key produced from `tweak`'' (\<lambda>ssk.
      rbind (public_key_of cr ssk) (\<lambda>pk.
      Inr \<lparr> cu_sk = sk, cu_ssk = ssk, cu_pk = pk, cu_cc = drop (length hash_value - 32) hash_value, cu_cci = Some cci \<rparr>))))))"

definition public_account_id :: "key_crypto \<Rightarrow> child_keys_public \<Rightarrow> account_id" where
  "public_account_id cr n = account_id_of_public_key (kc_sha256 cr) (cu_pk n)"

definition public_ops :: "key_crypto \<Rightarrow> child_keys_public node_ops" where
  "public_ops cr = \<lparr> no_from_seed = public_root cr, no_derive_child = public_nth_child cr, no_account_ids = (\<lambda>n. [public_account_id cr n]) \<rparr>"

section \<open>Groups\<close>

type_synonym group_key_holder = bytes

datatype seal_error = TooShort | DecryptionFailed

definition SSK_PREFIX :: bytes where
  "SSK_PREFIX = ascii ''/LEE/v0.3/GroupKeyDerivation/SSK''"

definition SHA_PREFIX :: bytes where
  "SHA_PREFIX = ascii ''/LEE/v0.3/GroupKeyDerivation/SHA''"

definition secret_spending_key_for_pda :: "key_crypto \<Rightarrow> group_key_holder \<Rightarrow> program_id \<Rightarrow> pda_seed \<Rightarrow> secret_spending_key" where
  "secret_spending_key_for_pda cr gms pid seed = kc_sha256 cr (SSK_PREFIX @ gms @ words_le pid @ seed)"

definition derive_keys_for_pda :: "key_crypto \<Rightarrow> group_key_holder \<Rightarrow> program_id \<Rightarrow> pda_seed \<Rightarrow> private_key_holder" where
  "derive_keys_for_pda cr gms pid seed = produce_private_key_holder cr (secret_spending_key_for_pda cr gms pid seed) None"

definition derive_keys_for_shared_account :: "key_crypto \<Rightarrow> group_key_holder \<Rightarrow> bytes \<Rightarrow> private_key_holder" where
  "derive_keys_for_shared_account cr gms derivation_seed =
     produce_private_key_holder cr (kc_sha256 cr (SHA_PREFIX @ gms @ derivation_seed)) None"

definition seal_kdf :: "key_crypto \<Rightarrow> bytes \<Rightarrow> bytes" where
  "seal_kdf cr shared = kc_sha256 cr (ascii ''/LEE/v0.3/GroupKeySeal/AES'' @ replicate 6 0 @ shared)"

definition seal_for :: "key_crypto \<Rightarrow> group_key_holder \<Rightarrow> bytes \<Rightarrow> bytes \<Rightarrow> bytes \<Rightarrow> (string, bytes) result" where
  "seal_for cr gms recipient_key kem_random nonce_bytes =
     expect (vpk_from_bytes recipient_key) ''key_protocol::group_key_holder::GroupKeyHolder::seal_for: SealingPublicKey must be a valid ML-KEM-768 encapsulation key'' (\<lambda>sealing_key.
     expect (kc_encapsulate cr sealing_key kem_random)
       ''MlKem768EncapsulationKey bytes must encode a valid ML-KEM-768 encapsulation key'' (\<lambda>(shared, kem_ct).
     expect (kc_aead_encrypt cr (seal_kdf cr shared) nonce_bytes gms)
       ''AES-GCM encryption should not fail with valid key/nonce'' (\<lambda>ciphertext.
     Inr (kem_ct @ nonce_bytes @ ciphertext))))"

definition unseal :: "key_crypto \<Rightarrow> bytes \<Rightarrow> viewing_secret_key \<Rightarrow> (string, (seal_error, group_key_holder) result) result" where
  "unseal cr sealed own_key =
     (if length sealed < 1088 + 12 + 16 then Inr (Inl TooShort)
      else let kem_ct = take 1088 sealed;
               nonce_bytes = take 12 (drop 1088 sealed);
               ciphertext = drop (1088 + 12) sealed
           in expect (kc_decapsulate cr (vsk_d own_key @ vsk_z own_key) kem_ct) ''key_protocol::group_key_holder::GroupKeyHolder::unseal: KEM_CT_LEN guarantees exactly 1088 bytes'' (\<lambda>shared.
              Inr (case kc_aead_decrypt cr (seal_kdf cr shared) nonce_bytes ciphertext of
                     None \<Rightarrow> Inl DecryptionFailed
                   | Some plaintext \<Rightarrow> if length plaintext \<noteq> 32 then Inl DecryptionFailed else Inr plaintext)))"

section \<open>Cleaning up\<close>

text \<open>
  The removal of unused nodes of a private tree, layer by layer from the deepest on; the flag says
  that a used node ended the loops.
\<close>

definition uninit :: "child_keys_private \<Rightarrow> bool" where
  "uninit n \<longleftrightarrow> cp_accounts n = fmempty \<or> fmpred (\<lambda>_ acc. acc = default_account) (cp_accounts n)"

definition drop_private_node :: "key_crypto \<Rightarrow> chain_index \<Rightarrow> child_keys_private \<Rightarrow> child_keys_private key_tree \<Rightarrow> child_keys_private key_tree" where
  "drop_private_node cr c n t =
     \<lparr> key_map = fmdrop c (key_map t), account_id_map = fold fmdrop (private_account_ids cr n) (account_id_map t) \<rparr>"

fun cleanup_layer :: "key_crypto \<Rightarrow> chain_index list \<Rightarrow> child_keys_private key_tree \<Rightarrow> child_keys_private key_tree \<times> bool" where
  "cleanup_layer cr [] t = (t, False)"
| "cleanup_layer cr (c # ids) t =
     (case fmlookup (key_map t) c of
        None \<Rightarrow> cleanup_layer cr ids t
      | Some n \<Rightarrow> if uninit n then cleanup_layer cr ids (drop_private_node cr c n t) else (t, True))"

fun cleanup_layers :: "itertools \<Rightarrow> key_crypto \<Rightarrow> nat list \<Rightarrow> child_keys_private key_tree \<Rightarrow> child_keys_private key_tree option" where
  "cleanup_layers it cr [] t = Some t"
| "cleanup_layers it cr (i # depths) t =
     Option.bind (chain_ids_at_depth it i) (\<lambda>ids.
     case cleanup_layer cr ids t of (t, stop) \<Rightarrow> if stop then Some t else cleanup_layers it cr depths t)"

definition cleanup_tree_remove_uninit_layered :: "itertools \<Rightarrow> key_crypto \<Rightarrow> u32 \<Rightarrow> child_keys_private key_tree \<Rightarrow> child_keys_private key_tree option" where
  "cleanup_tree_remove_uninit_layered it cr d t = cleanup_layers it cr (rev [1..<unat d]) t"

definition register_identifier_on_node :: "key_crypto \<Rightarrow> chain_index \<Rightarrow> account_ident \<Rightarrow> child_keys_private key_tree
    \<Rightarrow> child_keys_private key_tree \<times> account_id option" where
  "register_identifier_on_node cr cci ident t =
     (case fmlookup (key_map t) cci of
        None \<Rightarrow> (t, None)
      | Some n \<Rightarrow>
          let i = for_regular_private_account (kc_sha256 cr) (kch_nullifier_public_key (cp_key_chain n)) ident in
          if fmlookup (account_id_map t) i \<noteq> None then (t, None)
          else (t\<lparr> account_id_map := fmupd i cci (account_id_map t) \<rparr>, Some i))"

section \<open>Sealing\<close>

text \<open>What the documentation of the key encapsulation and of the cipher says.\<close>

definition kem_ok :: "key_crypto \<Rightarrow> bool" where
  "kem_ok cr \<longleftrightarrow> (\<forall>seed. length (kc_encapsulation_key cr seed) = 1184)
     \<and> (\<forall>seed r. \<exists>ss ct. kc_encapsulate cr (kc_encapsulation_key cr seed) r = Some (ss, ct) \<and> length ct = 1088
          \<and> kc_decapsulate cr seed ct = Some ss)"

definition aead_ok :: "key_crypto \<Rightarrow> bool" where
  "aead_ok cr \<longleftrightarrow> (\<forall>k n p. \<exists>ct. kc_aead_encrypt cr k n p = Some ct \<and> length ct = length p + 16 \<and> kc_aead_decrypt cr k n ct = Some p)"

text \<open>
  C28: a sealed group secret is opened by its recipient.  Sealing for the public key of a secret key
  succeeds with 1148 bytes, whatever the random bytes are, and unsealing these with the secret key
  gives the group secret.
\<close>

theorem group_seal_roundtrip:
  assumes "kem_ok cr" and "aead_ok cr" and "length gms = 32" and "length nonce_bytes = 12"
  shows "\<exists>sealed. seal_for cr gms (kc_encapsulation_key cr (vsk_d sk @ vsk_z sk)) r nonce_bytes = Inr sealed
    \<and> length sealed = 1148 \<and> unseal cr sealed sk = Inr (Inr gms)"
proof -
  let ?seed = "vsk_d sk @ vsk_z sk"
  obtain ss ct where kem: "kc_encapsulate cr (kc_encapsulation_key cr ?seed) r = Some (ss, ct)" "length ct = 1088"
    "kc_decapsulate cr ?seed ct = Some ss" "length (kc_encapsulation_key cr ?seed) = 1184"
    using assms(1) unfolding kem_ok_def by metis
  obtain body where aead: "kc_aead_encrypt cr (seal_kdf cr ss) nonce_bytes gms = Some body" "length body = 48"
    "kc_aead_decrypt cr (seal_kdf cr ss) nonce_bytes body = Some gms"
    using assms(2) [unfolded aead_ok_def, rule_format, of "seal_kdf cr ss" nonce_bytes gms] assms(3) by auto
  have "seal_for cr gms (kc_encapsulation_key cr ?seed) r nonce_bytes = Inr (ct @ nonce_bytes @ body)"
    using kem aead by (simp add: seal_for_def vpk_from_bytes_def)
  moreover have "unseal cr (ct @ nonce_bytes @ body) sk = Inr (Inr gms)"
    using kem aead assms(3,4) by (simp add: unseal_def Let_def)
  ultimately show ?thesis using kem(2) aead(2) assms(4) by simp
qed

section \<open>Used keys survive\<close>

lemma has_drop [simp]: "has (fmdrop c m) e \<longleftrightarrow> e \<noteq> c \<and> has m e"
  by (simp add: has_def)

lemma shaped_drop_deepest:
  assumes "shaped m" and "c \<noteq> root" and "\<And>e. has m e \<Longrightarrow> depth_nat e \<le> depth_nat c"
  shows "shaped (fmdrop c m)"
  unfolding shaped_def
proof (intro conjI allI impI)
  show "has (fmdrop c m) root" using assms(1,2) by (simp add: shaped_def)
  fix e i assume h: "has (fmdrop c m) (nth_child e i)"
  then have le: "depth_nat (nth_child e i) \<le> depth_nat c" using assms(3) [of "nth_child e i"] by simp
  then have "e \<noteq> c" by auto
  moreover have "has m e" using h shaped_parent [OF assms(1), of e i] by simp
  ultimately show "has (fmdrop c m) e" by simp
  fix j assume "j \<le> i"
  with h assms(1) have "has m (nth_child e j)" unfolding shaped_def has_drop by blast
  moreover have "nth_child e j \<noteq> c" 
  proof (cases "j = i")
    case True
    with h show ?thesis by simp
  next
    case False
    with \<open>j \<le> i\<close> have "unat j < unat i" by (simp add: word_less_nat_alt [symmetric])
    with le show ?thesis by auto
  qed
  ultimately show "has (fmdrop c m) (nth_child e j)" by simp
qed

definition keeps_used :: "child_keys_private key_tree \<Rightarrow> child_keys_private key_tree \<Rightarrow> bool" where
  "keeps_used t t' \<longleftrightarrow> shaped (key_map t') \<and> (\<forall>c n. fmlookup (key_map t') c = Some n \<longrightarrow> fmlookup (key_map t) c = Some n)
     \<and> (\<forall>c n. fmlookup (key_map t) c = Some n \<and> \<not> uninit n \<longrightarrow> fmlookup (key_map t') c = Some n)"

lemma keeps_used_refl: "shaped (key_map t) \<Longrightarrow> keeps_used t t"
  by (simp add: keeps_used_def)

lemma keeps_used_sub: "keeps_used t t' \<Longrightarrow> has (key_map t') c \<Longrightarrow> has (key_map t) c"
  unfolding keeps_used_def has_def not_None_eq by blast

lemma keeps_used_trans: "keeps_used t t1 \<Longrightarrow> keeps_used t1 t2 \<Longrightarrow> keeps_used t t2"
  unfolding keeps_used_def by blast

lemma keeps_used_drop:
  assumes "shaped (key_map t)" and "fmlookup (key_map t) c = Some n" and "uninit n" and "c \<noteq> root"
    and "\<And>e. has (key_map t) e \<Longrightarrow> depth_nat e \<le> depth_nat c"
  shows "keeps_used t (drop_private_node cr c n t)"
  using shaped_drop_deepest [OF assms(1,4,5)] assms(2,3)
  by (auto simp: keeps_used_def drop_private_node_def)

text \<open>A layer keeps what is used; if nothing stopped it, it leaves no path of its own in the tree.\<close>

lemma cleanup_layer_keeps:
  assumes "cleanup_layer cr ids t = (t', stop)" and "0 < i" and "\<And>c. c \<in> set ids \<Longrightarrow> depth_nat c = i"
    and "shaped (key_map t)" and "\<And>e. has (key_map t) e \<Longrightarrow> depth_nat e \<le> i"
  shows "keeps_used t t' \<and> (\<not> stop \<longrightarrow> (\<forall>c \<in> set ids. \<not> has (key_map t') c))"
  using assms
proof (induction cr ids t rule: cleanup_layer.induct)
  case (1 cr t)
  then show ?case by (simp add: keeps_used_refl)
next
  case (2 cr c ids t)
  show ?case
  proof (cases "fmlookup (key_map t) c")
    case None
    with 2 have k: "keeps_used t t' \<and> (\<not> stop \<longrightarrow> (\<forall>c \<in> set ids. \<not> has (key_map t') c))" by simp
    have "\<not> has (key_map t) c" using None by (simp add: has_def)
    then have "\<not> has (key_map t') c" using keeps_used_sub [of t t' c] k by blast
    with k show ?thesis by simp
  next
    case (Some n)
    show ?thesis
    proof (cases "uninit n")
      case False
      with Some 2 show ?thesis by (auto simp: keeps_used_refl)
    next
      case True
      let ?t = "drop_private_node cr c n t"
      have c: "c \<noteq> root" "depth_nat c = i" using 2(4,5) by (auto simp flip: depth_nat_pos)
      have d: "keeps_used t ?t"
        by (rule keeps_used_drop [OF 2(6) Some True c(1)]) (use 2(7) c(2) in simp)
      have sub: "has (key_map ?t) e \<longleftrightarrow> e \<noteq> c \<and> has (key_map t) e" for e by (simp add: drop_private_node_def)
      have k: "keeps_used ?t t' \<and> (\<not> stop \<longrightarrow> (\<forall>c \<in> set ids. \<not> has (key_map t') c))"
      proof (rule 2(2) [OF Some True])
        show "cleanup_layer cr ids ?t = (t', stop)" using 2(3) Some True by simp
        show "shaped (key_map ?t)" using d by (simp add: keeps_used_def)
      qed (use 2(4,5,7) sub in auto)
      have "\<not> has (key_map t') c" using keeps_used_sub [of ?t t' c] k sub [of c] by blast
      with k keeps_used_trans [OF d, of t'] show ?thesis by simp
    qed
  qed
qed

lemma cleanup_layers_keep:
  assumes "itertools_ok it" and "shaped (key_map t)" and "\<And>e. has (key_map t) e \<Longrightarrow> depth_nat e < Suc d"
  shows "\<exists>t'. cleanup_layers it cr (rev [1..<Suc d]) t = Some t' \<and> keeps_used t t'"
  using assms(2,3)
proof (induction d arbitrary: t)
  case 0
  then show ?case by (simp add: keeps_used_refl)
next
  case (Suc d)
  obtain ids where ids: "chain_ids_at_depth it (Suc d) = Some ids" "set ids = {c. depth_nat c = Suc d}"
    using chain_ids_enumerate [OF assms(1)] by blast
  obtain t1 stop where l: "cleanup_layer cr ids t = (t1, stop)" by fastforce
  have k: "keeps_used t t1 \<and> (\<not> stop \<longrightarrow> (\<forall>c \<in> set ids. \<not> has (key_map t1) c))"
    by (rule cleanup_layer_keeps [OF l, of "Suc d"]) (use Suc.prems ids(2) in \<open>auto simp: less_Suc_eq_le\<close>)
  show ?case
  proof (cases stop)
    case True
    with ids(1) l k show ?thesis by simp
  next
    case False
    have le: "has (key_map t1) e \<Longrightarrow> has (key_map t) e" for e
      using k keeps_used_sub by blast
    have sh: "shaped (key_map t1)" using k unfolding keeps_used_def by blast
    have below: "depth_nat e < Suc d" if "has (key_map t1) e" for e
      using that le [OF that] Suc.prems(2) [of e] k False ids(2) by (auto simp: less_Suc_eq)
    obtain t' where "cleanup_layers it cr (rev [1..<Suc d]) t1 = Some t'" "keeps_used t1 t'"
      using Suc.IH [OF sh below] by blast
    with False ids(1) l k keeps_used_trans [of t t1 t'] show ?thesis by simp
  qed
qed

text \<open>
  C24: cleaning up a restored tree.  On a tree of the right shape with no path of the given depth or
  deeper, the removal of unused nodes ends, keeps every node with an account that is not the
  default one, adds nothing, and leaves a tree of the right shape, in which new children can be
  found again.
\<close>

theorem cleanup_keeps_used:
  assumes "itertools_ok it" and "shaped (key_map t)" and "\<And>c. has (key_map t) c \<Longrightarrow> depth_nat c < unat d"
  shows "\<exists>t'. cleanup_tree_remove_uninit_layered it cr d t = Some t' \<and> shaped (key_map t') \<and> (\<forall>c n. fmlookup (key_map t') c = Some n \<longrightarrow> fmlookup (key_map t) c = Some n)
    \<and> (\<forall>c n. fmlookup (key_map t) c = Some n \<and> \<not> uninit n \<longrightarrow> fmlookup (key_map t') c = Some n)"
proof -
  have "0 < unat d" using assms(2) assms(3) [of root] unfolding shaped_def by auto
  then obtain e where e: "unat d = Suc e" using gr0_implies_Suc by blast
  obtain t' where "cleanup_layers it cr (rev [1..<Suc e]) t = Some t'" "keeps_used t t'"
    using cleanup_layers_keep [OF assms(1,2)] assms(3) unfolding e by blast
  then show ?thesis unfolding cleanup_tree_remove_uninit_layered_def keeps_used_def e by blast
qed

section \<open>Restoring a tree\<close>

definition consistent :: "key_crypto \<Rightarrow> child_keys_private \<Rightarrow> bool" where
  "consistent cr n \<longleftrightarrow> (let holder = kch_private_key_holder (cp_key_chain n); vsk = viewing_secret_key holder in
     kch_nullifier_public_key (cp_key_chain n) = npk_of_nsk (kc_sha256 cr) (nullifier_secret_key holder)
     \<and> kch_viewing_public_key (cp_key_chain n) = kc_encapsulation_key cr (vsk_d vsk @ vsk_z vsk)
     \<and> fmlookup (cp_accounts n) (Regular 0) = Some default_account)"

lemma private_node_consistent: "private_node cr h cci = Inr n \<Longrightarrow> consistent cr n"
  by (auto simp: private_node_def vpk_of_vsk_def vpk_from_bytes_def consistent_def Let_def res_simps split: if_splits)

lemma private_node_ok: "kem_ok cr \<Longrightarrow> \<exists>n. private_node cr h cci = Inr n"
  by (simp add: private_node_def vpk_of_vsk_def vpk_from_bytes_def kem_ok_def Let_def)

lemma private_derives: "kem_ok cr \<Longrightarrow> derives (private_ops cr)"
  by (simp add: derives_def private_ops_def private_nth_child_def Let_def private_node_ok)

lemma derive_path_consistent:
  assumes "derive_path (private_ops cr) r c = Inr n" and "consistent cr r"
  shows "consistent cr n"
  using assms(1) [unfolded derive_path_def] assms(2)
  by (rule fold_res_invariant)
    (auto simp: private_ops_def private_nth_child_def Let_def dest: private_node_consistent)

definition receiving_id :: "key_crypto \<Rightarrow> child_keys_private \<Rightarrow> account_id" where
  "receiving_id cr n = for_private_account (kc_sha256 cr) (kch_nullifier_public_key (cp_key_chain n)) (Regular 0)"

lemma receiving_id_listed: "consistent cr n \<Longrightarrow> receiving_id cr n \<in> set (private_account_ids cr n)"
  by (auto simp: consistent_def Let_def receiving_id_def private_account_ids_def fmdom'I)

text \<open>
  C23: keys are restored from the seed.  From any seed of 64 bytes the tree of a depth is generated
  without a panic; every path of smaller depth has in it the keys that the seed derives along the
  path, with public keys that belong to the secret ones, and the account these keys receive on is
  found in the tree.
\<close>

theorem private_tree_restored:
  assumes "kem_ok cr" and "length seed = 64" and "0 < d"
  shows "\<exists>r t. key_tree_new (private_ops cr) seed = Inr (new_from_root (private_ops cr) r) \<and> private_root cr seed = Inr r
    \<and> generate_tree_for_depth oc (private_ops cr) d (new_from_root (private_ops cr) r) = Some (Inr t)
    \<and> (\<forall>c. depth_nat c < unat d \<longrightarrow> (\<exists>n. fmlookup (key_map t) c = Some n \<and> derive_path (private_ops cr) r c = Inr n
        \<and> consistent cr n \<and> get_node (receiving_id cr n) t \<noteq> None))"
proof -
  obtain r where r: "private_root cr seed = Inr r" "consistent cr r"
    using private_node_ok [OF assms(1)] private_node_consistent unfolding private_root_def by blast
  have new: "key_tree_new (private_ops cr) seed = Inr (new_from_root (private_ops cr) r)"
    using assms(2) r(1) by (simp add: key_tree_new_def new_from_root_def private_ops_def)
  obtain t where t: "generate_tree_for_depth oc (private_ops cr) d (new_from_root (private_ops cr) r) = Some (Inr t)"
    "wf_tree (private_ops cr) r t" "\<And>c. has (key_map t) c = (depth_nat c < unat d)"
    using generate_tree_complete [OF private_derives [OF assms(1)] assms(3), of oc r] by blast
  have "\<exists>n. fmlookup (key_map t) c = Some n \<and> derive_path (private_ops cr) r c = Inr n
      \<and> consistent cr n \<and> get_node (receiving_id cr n) t \<noteq> None" if c: "depth_nat c < unat d" for c
  proof -
    obtain n where n: "fmlookup (key_map t) c = Some n" using c t(3) [of c] by (auto simp: has_def)
    have dp: "derive_path (private_ops cr) r c = Inr n" using t(2) n by (simp add: wf_tree_def)
    have cn: "consistent cr n" by (rule derive_path_consistent [OF dp r(2)])
    have "receiving_id cr n \<in> set (no_account_ids (private_ops cr) n)"
      using receiving_id_listed [OF cn] by (simp add: private_ops_def)
    from wf_get_node [OF t(2) n this] n dp cn show ?thesis by blast
  qed
  with new r(1) t(1) show ?thesis by blast
qed

section \<open>Examples\<close>

definition ex_crypto :: key_crypto where
  "ex_crypto = \<lparr> kc_sha256 = (\<lambda>_. replicate 32 0), kc_hmac = (\<lambda>m k. replicate 64 1),
     kc_encapsulation_key = (\<lambda>_. replicate 1184 2), kc_encapsulate = (\<lambda>ek r. Some (replicate 32 3, replicate 1088 4)),
     kc_decapsulate = (\<lambda>seed ct. Some (replicate 32 3)), kc_secret_key = (\<lambda>k. length k = 32), kc_scalar = (\<lambda>k. length k = 32),
     kc_scalar_add = (\<lambda>a b. a), kc_compressed_point = (\<lambda>k. k), kc_x_only = (\<lambda>k. k),
     kc_aead_encrypt = (\<lambda>k n p. Some (p @ replicate 16 0)), kc_aead_decrypt = (\<lambda>k n c. Some (take (length c - 16) c)) \<rparr>"

lemma ex_crypto_ok: "kem_ok ex_crypto" "aead_ok ex_crypto"
  by (simp_all add: kem_ok_def aead_ok_def ex_crypto_def)

theorem group_seal_roundtrip_witness:
  "\<exists>sealed. seal_for ex_crypto (replicate 32 7) (kc_encapsulation_key ex_crypto (replicate 64 5)) [] (replicate 12 9) = Inr sealed
    \<and> unseal ex_crypto sealed (ViewingSecretKey (replicate 32 5) (replicate 32 5)) = Inr (Inr (replicate 32 7))"
  using group_seal_roundtrip [OF ex_crypto_ok, of "replicate 32 7" "replicate 12 9" "ViewingSecretKey (replicate 32 5) (replicate 32 5)" "[]"]
  by (auto simp flip: replicate_add)

definition ex_used :: child_keys_private where
  "ex_used = \<lparr> cp_key_chain = KeyChain [] (PrivateKeyHolder [] (ViewingSecretKey [] [])) [] [],
     cp_accounts = fmupd (Regular 0) (default_account\<lparr> balance := 5 \<rparr>) fmempty, cp_ccc = [], cp_cci = None \<rparr>"

definition ex_wallet :: "child_keys_private key_tree" where
  "ex_wallet = insert_child (private_ops ex_crypto) [0] ex_used (new_from_root (private_ops ex_crypto) ex_used)"

lemma ex_wallet_has: "has (key_map ex_wallet) c \<longleftrightarrow> c = [] \<or> c = [0]"
  by (auto simp: ex_wallet_def new_from_root_def root_def)

theorem cleanup_keeps_used_witness:
  "\<exists>t'. cleanup_tree_remove_uninit_layered ex_itertools ex_crypto 2 ex_wallet = Some t' \<and> fmlookup (key_map t') [0] = Some ex_used"
proof -
  have "shaped (key_map ex_wallet)" by (auto simp: shaped_def ex_wallet_has root_def nth_child_def)
  moreover have "has (key_map ex_wallet) c \<Longrightarrow> depth_nat c < unat (2 :: u32)" for c by (auto simp: ex_wallet_has)
  moreover have "fmlookup (key_map ex_wallet) [0] = Some ex_used" "\<not> uninit ex_used"
    by (auto simp: ex_wallet_def insert_child_def uninit_def ex_used_def default_account_def dest: arg_cong [of _ _ fmdom])
  ultimately show ?thesis using cleanup_keeps_used [OF ex_itertools_ok, of ex_wallet 2 ex_crypto] by blast
qed

theorem private_tree_restored_witness:
  "\<exists>r t n. private_root ex_crypto (replicate 64 0) = Inr r
    \<and> generate_tree_for_depth True (private_ops ex_crypto) 3 (new_from_root (private_ops ex_crypto) r) = Some (Inr t) \<and> fmlookup (key_map t) [1] = Some n
    \<and> derive_path (private_ops ex_crypto) r [1] = Inr n \<and> get_node (receiving_id ex_crypto n) t \<noteq> None"
proof -
  have "length (replicate 64 (0 :: u8)) = 64" "(0 :: u32) < 3" "depth_nat [1] < unat (3 :: u32)" by simp_all
  from private_tree_restored [OF ex_crypto_ok(1) this(1,2), of True] this(3) show ?thesis by blast
qed

end
