(* ===== verification/Spec2Isabelle.thy ===== *)
theory Spec2Isabelle
  imports Membership Treasury Market Token_Apps Chain Account_Index Keys
begin

text \<open>
  A verification development for the LEZ ledger and the private multisig built on it.

  \<^bold>\<open>The program.\<close>  A ledger keeps public accounts (owner program, balance, data, nonce) and a set
  of commitments to private accounts, with the set of nullifiers of those already spent.  Programs
  are zkVM guests: from the accounts they are given they compute post states and further, chained,
  calls.  A public transaction is executed by every node (\<open>lee/state_machine/src\<close>); a privacy
  preserving one is executed by its sender, and a circuit (\<open>program_methods/guest/src/bin/\<close>
  \<open>privacy_preserving_circuit\<close>) proves that the chain of calls was legal and yields the published
  commitments and nullifiers.  The node (\<open>lez\<close>) checks transactions, protects the system accounts
  and puts transactions into blocks; an indexer replays the blocks and answers queries.  A wallet
  derives its keys from a seed (\<open>lee/key_protocol\<close>).  The programs shipped with the ledger (\<open>programs\<close> and their
  guests) include the system programs, tokens, a market maker and the private multisig of LP-0002.

  \<^bold>\<open>Conventions.\<close>  Machine integers are words of their width; checked and wrapping operations are
  told apart as in the source.  Byte strings, identifiers and digests are lists of \<open>u8\<close>.  A
  \<open>Result\<close> is a sum with the error on the left; a panic of a guest is its message.  Hash maps and
  sets are finite maps and finite sets.  Code outside the repository is an argument: SHA-256
  (\<open>hash_fn\<close>), the key stream of ChaCha20, signature verification, receipts of the zkVM and the
  codec of instructions.  No lemma assumes an injective hash: collision freedom is assumed only on
  the strings that are hashed at that point.

  \<^bold>\<open>The ledger core.\<close>
  \<^item> \<open>Prelude\<close>: machine types, results and their combinators, little-endian bytes, lists and maps.
  \<^item> \<open>Account\<close> (\<open>core/src/account.rs\<close>, \<open>account/data.rs\<close>, \<open>encoding.rs\<close>): accounts, the data limit,
    nonces; the codec is exact.
  \<^item> \<open>Derivations\<close> (\<open>core/src/program.rs\<close>, \<open>commitment.rs\<close>, \<open>nullifier.rs\<close>, \<open>encryption\<close>): account
    identifiers, commitments, nullifiers, note encryption; separation of identifiers, decryption.
  \<^item> \<open>Program\<close> (\<open>core/src/program.rs\<close>): program outputs, claims, validity windows and
    \<open>validate_execution\<close>, characterised rule by rule.
  \<^item> \<open>Merkle_Tree\<close> (\<open>src/merkle_tree\<close>): the growing array tree refines a reference tree over the list
    of its leaves; the locale \<open>authenticated_list\<close> states the contract.
  \<^item> \<open>State\<close> (\<open>src/state.rs\<close>): commitment and nullifier sets, genesis, \<open>apply_state_diff\<close>.
  \<^item> \<open>Transactions\<close> (\<open>src/public_transaction\<close>, \<open>src/privacy_preserving_transaction\<close>): messages and
    witness sets.
  \<^item> \<open>Public_Execution\<close> (\<open>src/validated_state_diff.rs\<close>): the chain of calls of a public transaction
    as the recursion \<open>run_calls\<close> and, for induction, as the step relation \<open>call_step\<close> with its
    traces.  The locale \<open>owner_contract\<close> lifts what a program guarantees per call to whole
    transactions.
  \<^item> \<open>Circuit\<close> and \<open>Circuit_Soundness\<close>: the circuit as it replays program outputs, and what an
    accepted run shows: conservation, bound private PDAs, the form of notes.
  \<^item> \<open>Privacy_Execution\<close> (\<open>src/validated_state_diff.rs\<close>, \<open>privacy_preserving_transaction/circuit.rs\<close>):
    validation of privacy preserving transactions and the prover \<open>execute_and_prove\<close>.  The locale
    \<open>sound_proofs\<close> is the documented guarantee of the zkVM: a receipt that verifies belongs to an
    accepted run of the circuit.  It is interpreted with receipts that are the inputs themselves.
  \<^item> \<open>Ledger\<close> (\<open>lez/common/src/transaction.rs\<close>): the transactions of the node, the checks for user
    transactions, and \<open>ledger_step\<close> and \<open>ledger_run\<close> for histories of accepted transactions.
  \<^item> \<open>Membership\<close>: membership proofs for the commitment set cannot be forged.

  \<^bold>\<open>The programs.\<close>
  \<^item> \<open>Guest\<close>: what guests share; the locales \<open>guest_program\<close> and \<open>balance_neutral_guest\<close> state the
    contract of a guest towards \<open>validate_execution\<close>, and are interpreted by every guest below.
  \<^item> \<open>System_Programs\<close>: authenticated transfer, vault, faucet, bridge and clock.
  \<^item> \<open>Multisig\<close> (\<open>programs/msig/core/src/lib.rs\<close>, \<open>test_program_methods/guest/src/bin/msig.rs\<close>): the
    membership tree, enrolment, proposals, anonymous votes and the release of the treasury; \<open>voting\<close>
    is the step relation of approvals.  A vote counts once and votes are bounded by the members, for
    enrolled leaves of the documented form; the lemmas on \<open>enroll\<close> and \<open>execute\<close> show what these do
    not check.
  \<^item> \<open>Borsh\<close> and \<open>Token\<close> (\<open>programs/token\<close>): the data format written out, and the token program with
    conservation of units and the authority each instruction needs.
  \<^item> \<open>AMM\<close> (\<open>programs/amm\<close>): pools, swaps, deposits and withdrawals.  The locale \<open>swap_rule\<close> is the
    contract of the two ways to swap; with overflow checks a share never loses value, and a
    withdrawal without them wraps around.
  \<^item> \<open>Token_Apps\<close> (\<open>programs/associated_token_account\<close>, pinata): what the owner of an associated account
    controls.

  \<^bold>\<open>The node.\<close>
  \<^item> \<open>Blocks\<close> (\<open>lez/common/src/block.rs\<close>, \<open>lez/mempool\<close>): blocks, their hashes, the pool of transactions; the
    locale \<open>work_queue\<close> is the contract of the pool that makes block building end.
  \<^item> \<open>Sequencer_Store\<close> (\<open>lez/storage/src/sequencer\<close>): the cells of the database and the batch that stores
    a block; how withdrawals are counted.
  \<^item> \<open>Block_Clock\<close> and \<open>Sequencer\<close> (\<open>lez/sequencer/core\<close>): genesis, production of blocks, events of the
    other chain, start on an existing database.  An idle node does not stall.
  \<^item> \<open>Indexer\<close> (\<open>lez/indexer/core\<close>, \<open>lez/storage/src/indexer\<close>): replay of blocks, the index of accounts and
    the queries; an indexer follows the sequencer.
  \<^item> \<open>Chain\<close>: histories of a sequencer as the inductive relation \<open>produced\<close>; a restart recovers the
    chain, unless a publication failed.
  \<^item> \<open>Breakpoints\<close>: the state computed for a block is exact, until a restart loses breakpoints.
  \<^item> \<open>Account_Index\<close>: a query for the transactions of an account is exact.

  \<^bold>\<open>The keys.\<close>
  \<^item> \<open>Chain_Index\<close> (\<open>key_tree/chain_index.rs\<close>): paths of keys, their text, and the enumeration of all paths
    of a depth, which ends and is complete.
  \<^item> \<open>Key_Tree\<close> (\<open>key_tree/mod.rs\<close>): trees over any kind of node, given by the operations of its trait as
    the record \<open>node_ops\<close>.  \<open>grown\<close> collects the trees a wallet can reach, \<open>wf_tree\<close> is their invariant;
    the binary search for a new child ends in them.
  \<^item> \<open>Keys\<close> (\<open>secret_holders.rs\<close>, \<open>key_tree/keys_private.rs\<close>, \<open>key_tree/keys_public.rs\<close>,
    \<open>group_key_holder.rs\<close>): the derivations, applied to the trees: keys are restored from the seed,
    used keys survive the cleanup, sealed group secrets are opened.

  \<^bold>\<open>Evaluated runs.\<close>  \<open>Examples\<close>, \<open>Treasury\<close> and \<open>Market\<close> evaluate whole transactions in the kernel, with a toy
  hash and short identifiers; they instantiate the hypotheses of the properties.

  \<^bold>\<open>Properties of this theory.\<close>  Conservation of balance for public and for privacy preserving
  transactions, no replay, no double spending, no theft from accounts of the transfer program,
  the history of nonces and owners, the guard of the system accounts, provability of commitments,
  and what the circuit guarantees.

  \<^bold>\<open>Bounds.\<close>  \<open>run_calls\<close>, \<open>circuit_loop\<close> and \<open>prove_calls\<close> stop by the counter of the source,
  \<open>MAX_NUMBER_CHAINED_CALLS\<close>; \<open>build_loop\<close> ends because the pool shrinks.  The loops over key trees may
  run on and are partial functions into \<open>option\<close>; where the properties say that they return, this is
  proved.  No fuel is added.  The other loops are structural.

  \<^bold>\<open>Not modelled.\<close>  Cryptography and the zkVM (third-party).  The command line wallet with its storage,
  its C interface and the keycard driver, the RPC servers of sequencer and indexer, the connection
  to the other chain and the explorer: clients and servers around the modelled functions, mostly
  asynchronous I/O.  The cleanup of public key trees, which asks a server for every account.
  Mnemonics and random generation of keys.  Test fixtures, benches, examples and the constants of a
  test network.
\<close>

section \<open>The ledger\<close>

text \<open>
  C1: a public transaction neither creates nor destroys balance.  For every runtime, so for every,
  even hostile, program, an accepted public transaction leaves the exact (unbounded) sum of all
  public balances as it was.
\<close>

theorem public_supply_conserved:
  assumes "transition_from_public_transaction rt tx s b ts = Inr (Some s')"
  shows "total_supply (public_state s') = total_supply (public_state s)"
proof -
  obtain d where d: "from_public_transaction rt tx s b ts = Inr d"
    and n: "increment_nonces (signer_account_ids rt (pt_witness_set tx)) (view s (sd_public_diff d)) = Some (public_state s')"
    by (rule transition_public_Some [OF assms]) blast
  from increment_nonces_supply [OF n] public_evolves(2) [OF d] show ?thesis by simp
qed

theorem public_supply_conserved_witness:
  "\<exists>s'. transition_from_public_transaction ex_rt ex_tx ex_state 0 0 = Inr (Some s')
     \<and> total_supply (public_state s') = total_supply (public_state ex_state)"
  by (rule acceptedE [OF ex_public_accepted]) (use public_supply_conserved in blast)

text \<open>
  C2: a privacy preserving transaction conserves balance over public and private accounts, given
  that a valid receipt comes from an accepted run of the circuit: there are private accounts, one
  for each new commitment and nullifier, such that what the public accounts gain is what these
  private accounts lose; each note commits to the post state, and nullifies either a default
  account or the commitment to the pre state under the secret key the account derives from.
\<close>

theorem privacy_supply_conserved:
  assumes "sound_proofs rt ks verify"
    and "transition_from_privacy_preserving_transaction rt tx s b ts = Inr (Some s')"
  shows "\<exists>pub priv.
    circuit_sound (rt_hash rt) ks
      (output_of_message (input_pre_states s (privacy_signers rt tx) (vm_public_account_ids (vt_message tx))) (vt_message tx))
      pub priv
    \<and> total_supply (public_state s') + total (map snd priv)
      = total_supply (public_state s) + total (map (account \<circ> fst) priv)"
proof -
  obtain d where d: "from_privacy_preserving_transaction rt tx s b ts = Inr d"
    and n: "increment_nonces (privacy_signers rt tx) (view s (sd_public_diff d)) = Some (public_state s')"
    by (rule transition_privacy_Some [OF assms(2)]) blast
  show ?thesis
    by (rule sound_proofs.privacy_sound [OF assms(1) d])
      (use sound_proofs.privacy_public_effect(2) [OF assms(1) d] increment_nonces_supply [OF n] in auto)
qed

theorem privacy_supply_conserved_witness:
  "\<exists>s' pub priv. transition_from_privacy_preserving_transaction ex_prt ex_vtx ex_state 0 0 = Inr (Some s')
    \<and> circuit_sound (rt_hash ex_prt) ex_keystream
      (output_of_message (input_pre_states ex_state (privacy_signers ex_prt ex_vtx) (vm_public_account_ids (vt_message ex_vtx)))
        (vt_message ex_vtx)) pub priv
    \<and> total_supply (public_state s') + total (map snd priv)
      = total_supply (public_state ex_state) + total (map (account \<circ> fst) priv)"
  by (rule acceptedE [OF ex_privacy_accepted]) (use privacy_supply_conserved [OF ex_prt_sound] in blast)

text \<open>
  C3: no transaction is accepted twice.  Once a privacy preserving transaction, a deployment, or a
  public transaction with at least one signature has been applied, no later state of the ledger
  accepts it again, whatever was applied in between.  (A public transaction without signatures has
  no nonce and may be repeated.)
\<close>

theorem no_replay:
  assumes "sound_proofs rt ks verify"
    and "single_use rt t" and "ledger_step rt s t s1" and "ledger_run rt s1 txs s2"
  shows "\<not> ledger_step rt s2 t s3"
  using assms sound_proofs.no_second_use by blast

theorem no_replay_witness:
  "\<exists>s1. ledger_step ex_prt ex_state (TxPrivacyPreserving ex_vtx) s1
    \<and> (\<forall>s3. \<not> ledger_step ex_prt s1 (TxPrivacyPreserving ex_vtx) s3)"
proof -
  obtain s1 where step: "ledger_step ex_prt ex_state (TxPrivacyPreserving ex_vtx) s1" by (rule ex_privacy_step)
  have "single_use ex_prt (TxPrivacyPreserving ex_vtx)" by (simp add: single_use_def)
  from no_replay [OF ex_prt_sound this step run_nil] step show ?thesis by blast
qed

text \<open>
  C4: no note is spent twice.  Along any history of accepted transactions all nullifiers are
  pairwise different and differ from those the ledger started with; exactly they are added.
\<close>

theorem no_double_spend:
  assumes "ledger_run rt s txs s'"
  shows "distinct (concat (map tx_nullifiers txs))
    \<and> (\<forall>n. n \<in> set (concat (map tx_nullifiers txs)) \<longrightarrow> n |\<notin>| nullifier_state s)
    \<and> nullifier_state s' = nullifier_state s |\<union>| fset_of_list (concat (map tx_nullifiers txs))"
  using run_nullifiers [OF assms] by blast

theorem no_double_spend_witness:
  "\<exists>s1. ledger_run ex_prt ex_state [TxPrivacyPreserving ex_vtx] s1
    \<and> nullifier_state s1 = {| for_account_initialization ex_hash [0] |}"
proof -
  obtain s1 where "ledger_run ex_prt ex_state [TxPrivacyPreserving ex_vtx] s1" by (rule ex_privacy_run)
  with no_double_spend [OF this] show ?thesis
    by (auto simp: ex_state_def tx_nullifiers_def ex_vtx_def try_from_circuit_output_def ex_co_def)
qed



text \<open>
  C33: the history of a public account.  Along any history, given sound proofs, the nonce of an
  account grows by exactly the number of signatures made for it, and an account that has an owner
  keeps it.
\<close>

theorem account_history:
  assumes "sound_proofs rt ks verify" and "ledger_run rt s txs s'"
  shows "unat (nonce (get_account_by_id s' i))
      = unat (nonce (get_account_by_id s i)) + count_list (concat (map (tx_signers rt) txs)) i
    \<and> (program_owner (get_account_by_id s i) \<noteq> DEFAULT_PROGRAM_ID
        \<longrightarrow> program_owner (get_account_by_id s' i) = program_owner (get_account_by_id s i))"
  using sound_proofs.run_account [OF assms, of i] by (simp add: acct_history_def get_account_acct)

theorem account_history_witness:
  "\<exists>s1. ledger_run ex_prt ex_state [TxPrivacyPreserving ex_vtx] s1 \<and> unat (nonce (get_account_by_id s1 ex_alice)) = 1"
proof -
  obtain s1 where r: "ledger_run ex_prt ex_state [TxPrivacyPreserving ex_vtx] s1" by (rule ex_privacy_run)
  from account_history [OF ex_prt_sound r, of ex_alice] r show ?thesis
    by (auto simp: tx_signers_def ex_vtx_def ex_privacy_signers ex_state_def get_account_by_id_def ex_account_def)
qed



text \<open>
  C35: every committed note can be proven.  In every state reached from genesis, each commitment the
  ledger ever accepted has a membership proof that folds to a digest the validator recognises, as
  long as no more than \<open>2^31\<close> commitments were made.
\<close>

theorem committed_notes_provable:
  assumes "new_with_genesis_accounts (rt_hash rt) bi accounts priv ts = Some s"
    and "ledger_run rt s txs s'"
    and "Suc (length priv + length (concat (map tx_commitments txs))) \<le> 2 ^ 31"
    and "c \<in> set (DUMMY_COMMITMENT # map fst priv @ concat (map tx_commitments txs))"
  shows "\<exists>mp. get_proof_for (commitment_state s') c = Some (Some mp)
    \<and> compute_digest_for_path (rt_hash rt) c mp |\<in>| cs_root_history (commitment_state s')"
proof -
  let ?vs = "(DUMMY_COMMITMENT # map fst priv) @ concat (map tx_commitments txs)"
  have "cs_current (rt_hash rt) (commitment_state s') ?vs"
    using run_commitments [OF assms(2) genesis_commitments [OF assms(1)]] assms(3) by simp
  then have inv: "cs_inv (rt_hash rt) (commitment_state s') ?vs" and r: "mroot (rt_hash rt) ?vs |\<in>| cs_root_history (commitment_state s')"
    by (simp_all add: cs_current_def)
  have "c \<in> set ?vs" using assms(4) by simp
  from get_proof_for_Some [OF inv this] r cs_invD(1) [OF inv] mt.root_repr show ?thesis
    by (metis cs_digest_def option.inject)
qed

theorem committed_notes_provable_witness:
  "\<exists>s mp. new_with_genesis_accounts (rt_hash ex_rt) ex_builtins [] [] 0 = Some s
    \<and> get_proof_for (commitment_state s) DUMMY_COMMITMENT = Some (Some mp)"
proof -
  have "\<exists>s. new_with_genesis_accounts (rt_hash ex_rt) ex_builtins [] [] 0 = Some s" by (rule genesis_total) simp
  then obtain s where s: "new_with_genesis_accounts (rt_hash ex_rt) ex_builtins [] [] 0 = Some s" by blast
  from committed_notes_provable [OF s run_nil, of DUMMY_COMMITMENT] s show ?thesis by auto
qed

section \<open>The circuit\<close>

text \<open>
  C36: an accepted run of the privacy preserving circuit is sound: there are public and private
  accounts, pairwise different, whose pre and post balances add up to the same sum; no nonce and no
  owner changes; the public ones are those of the output; and the \<open>k\<close>-th note commits to and
  encrypts the \<open>k\<close>-th private post state and nullifies its pre state, for an update with the
  secret key that derives the account.
\<close>

theorem circuit_main_conserves:
  assumes "circuit_main H ks verify input = Inr co"
  shows "\<exists>pub priv. circuit_sound H ks co pub priv"
  using assms by (rule circuit_main_sound)

theorem circuit_main_conserves_witness:
  "\<exists>pub priv. circuit_sound ex_hash ex_keystream ex_co pub priv \<and> length priv = 1"
proof -
  obtain pub priv where "circuit_sound ex_hash ex_keystream ex_co pub priv"
    using circuit_main_conserves [OF ex_circuit] by blast
  moreover from this have "length priv = length (co_new_commitments ex_co)" by (simp add: circuit_sound_def)
  ultimately show ?thesis by (auto simp: ex_co_def)
qed

text \<open>
  The validity windows of the circuit output are the intersection of those of the program
  outputs: a block (a timestamp) is allowed exactly if every program of the chain allows it.
\<close>

lemma circuit_windows_intersect:
  assumes "circuit_main H ks verify input = Inr co"
  shows "(is_valid_for (co_block_validity_window co) n
      \<longleftrightarrow> list_all (\<lambda>out. is_valid_for (block_validity_window out) n) (ci_program_outputs input))
    \<and> (is_valid_for (co_timestamp_validity_window co) n
      \<longleftrightarrow> list_all (\<lambda>out. is_valid_for (timestamp_validity_window out) n) (ci_program_outputs input))"
proof -
  obtain es where d: "derive_from_outputs H verify (ci_account_identities input) (ci_program_id input)
      (ci_program_outputs input) = Inr es"
    and c: "compute_circuit_output H ks es (ci_account_identities input) = Inr co"
    using assms by (auto simp: circuit_main_def rbind_Inr)
  note w = compute_circuit_output_windows [OF c]
  have "intersect_windows (map block_validity_window (ci_program_outputs input)) = Inr (co_block_validity_window co)
    \<and> intersect_windows (map timestamp_validity_window (ci_program_outputs input)) = Inr (co_timestamp_validity_window co)"
    by (rule derive_from_outputs_Inr [OF d]) (use w in \<open>auto simp: windows_of_def dest!: circuit_loop_windows\<close>)
  then show ?thesis by (auto simp: list_all_iff dest!: intersect_windows_valid [of _ _ n])
qed

text \<open>
  Every program output the circuit replays carries a receipt of the program it names and
  satisfies the execution rules, and there are at most eleven of them.
\<close>

lemma circuit_outputs_verified:
  assumes "circuit_main H ks verify input = Inr co"
  shows "list_all (\<lambda>out. verify (self_program_id out) out
      \<and> validate_execution (pre_states out) (post_states out) (self_program_id out) = Inr ()) (ci_program_outputs input)
    \<and> length (ci_program_outputs input) \<le> 11"
proof -
  obtain es where d: "derive_from_outputs H verify (ci_account_identities input) (ci_program_id input)
      (ci_program_outputs input) = Inr es"
    using assms by (auto simp: circuit_main_def rbind_Inr)
  show ?thesis
    by (rule derive_from_outputs_Inr [OF d])
      (auto simp: list_all_iff validate_execution_Inr MAX_NUMBER_CHAINED_CALLS_def dest!: circuit_loop_verified)
qed

text \<open>
  C37: within one transaction a private PDA stands for one program and seed, and a program and seed
  for one account: at the end of the circuit every private PDA position is bound, a bound position
  holds the account derived from its program, seed and keys, and no two positions share a binding.
\<close>

theorem private_pdas_bound:
  assumes "derive_from_outputs H verify idents pid outs = Inr es"
  shows "(\<forall>p. p < length idents \<and> is_private_pda (idents ! p) \<longrightarrow>
        fmlookup (es_private_pda_bound_positions es) p \<noteq> None)
    \<and> (\<forall>p program seed. fmlookup (es_private_pda_bound_positions es) p = Some (program, seed) \<longrightarrow>
        (\<exists>npk ident. npk_if_private_pda H (idents ! p) = Some (npk, ident)
          \<and> account_id (es_pre_states es ! p) = for_private_pda H program seed npk ident))
    \<and> (\<forall>p q b. fmlookup (es_private_pda_bound_positions es) p = Some b
        \<and> fmlookup (es_private_pda_bound_positions es) q = Some b \<longrightarrow> p = q)"
proof (intro conjI allI impI)
  fix p assume p: "p < length idents \<and> is_private_pda (idents ! p)"
  have "check_bound_positions idents es = Inr ()" by (rule derive_from_outputs_Inr [OF assms])
  moreover have "(p, idents ! p) \<in> set (List.enumerate 0 idents)" using p by (simp add: in_set_enumerate_eq)
  ultimately show "fmlookup (es_private_pda_bound_positions es) p \<noteq> None"
    using p unfolding check_bound_positions_def for_each_Inr by (fastforce simp: ensure_Inr fmlookup_dom_iff)
next
  fix p program seed assume "fmlookup (es_private_pda_bound_positions es) p = Some (program, seed)"
  then show "\<exists>npk ident. npk_if_private_pda H (idents ! p) = Some (npk, ident)
      \<and> account_id (es_pre_states es ! p) = for_private_pda H program seed npk ident"
    using derive_bound [OF assms] by (fastforce simp: bound_ok_def bound_at_def)
next
  fix p q b
  assume "fmlookup (es_private_pda_bound_positions es) p = Some b
    \<and> fmlookup (es_private_pda_bound_positions es) q = Some b"
  then show "p = q" using bound_inj [OF derive_bound [OF assms], of p b q] derive_balanced [OF assms]
    by (simp add: es_balanced_def)
qed

theorem private_pdas_bound_witness:
  "\<exists>npk ident. npk_if_private_pda ex_hash ex_pda_identity = Some (npk, ident)
    \<and> account_id (es_pre_states ex_pda_es ! 1) = for_private_pda ex_hash [9] [8] npk ident"
  using private_pdas_bound [OF ex_pda_derive] by (simp add: ex_pda_es_def ex_es_def) (metis nth_Cons_0 nth_Cons_Suc)

section \<open>Public execution\<close>

text \<open>
  The chain of calls of a public transaction is finite and short: an accepted transaction runs
  at most eleven calls, each of which the rules of the program interface allow, so that an account
  is debited or rewritten only by its owner, and a chain that is longer is refused.
\<close>

lemma public_chain_bounded:
  assumes "from_public_transaction rt tx s b ts = Inr d"
  shows "\<exists>tr n. call_trace rt s b ts
      (0, initial_queue s (signer_account_ids rt (pt_witness_set tx)) (pt_message tx), fmempty) tr (n, [], sd_public_diff d)
    \<and> length tr = n \<and> n \<le> 11"
proof -
  obtain tr n where tr: "call_trace rt s b ts
      (0, initial_queue s (signer_account_ids rt (pt_witness_set tx)) (pt_message tx), fmempty) tr (n, [], sd_public_diff d)"
    using assms by (rule from_public_trace)
  have "length tr = n \<and> n \<le> 11"
    using call_trace_length [OF tr] by (cases tr) (auto simp: MAX_NUMBER_CHAINED_CALLS_def)
  with tr show ?thesis by blast
qed



end
